(* ===== verification/P11_Prelude.thy ===== *)
theory P11_Prelude
  imports Main "HOL-Library.Word" "HOL-Library.State_Monad"
begin

text \<open>
  Shared vocabulary of the development: the PKCS#11 machine types and constants the provider
  uses (\<^verbatim>\<open>src/src/pkcs11.h\<close>), C strings and the C library functions the sources call on them,
  and the weakest-precondition calculus for the stateful components.

  A \<open>CK_ULONG\<close> is a 64-bit word (the LP64 targets of the provider); a byte is a \<open>char\<close>.
  A C string is the list of its characters up to, and without, the terminating NUL:
  \<open>char_at\<close> reads NUL from the end of the list on.
\<close>

unbundle bit_operations_syntax

named_theorems wp_simps \<open>weakest-precondition equations of the state monad\<close>
named_theorems env_simps \<open>unfolding of the environment calls\<close>

section \<open>Machine types and constants\<close>

type_synonym CK_ULONG = "64 word"
type_synonym CK_RV = "64 word"
type_synonym CK_FLAGS = "64 word"
type_synonym CK_SLOT_ID = "64 word"
type_synonym CK_SESSION_HANDLE = "64 word"
type_synonym CK_OBJECT_HANDLE = "64 word"
type_synonym CK_OBJECT_CLASS = "64 word"
type_synonym CK_KEY_TYPE = "64 word"
type_synonym CK_ATTRIBUTE_TYPE = "64 word"
type_synonym CK_MECHANISM_TYPE = "64 word"
type_synonym CK_STATE = "64 word"
type_synonym bytes = "char list"

abbreviation CK_UNAVAILABLE_INFORMATION :: CK_ULONG where "CK_UNAVAILABLE_INFORMATION \<equiv> - 1"
abbreviation CK_EFFECTIVELY_INFINITE :: CK_ULONG where "CK_EFFECTIVELY_INFINITE \<equiv> 0"
abbreviation CK_INVALID_HANDLE :: CK_ULONG where "CK_INVALID_HANDLE \<equiv> 0"

abbreviation CKR_OK :: CK_RV where "CKR_OK \<equiv> 0"
abbreviation CKR_CANCEL :: CK_RV where "CKR_CANCEL \<equiv> 0x1"
abbreviation CKR_HOST_MEMORY :: CK_RV where "CKR_HOST_MEMORY \<equiv> 0x2"
abbreviation CKR_SLOT_ID_INVALID :: CK_RV where "CKR_SLOT_ID_INVALID \<equiv> 0x3"
abbreviation CKR_GENERAL_ERROR :: CK_RV where "CKR_GENERAL_ERROR \<equiv> 0x5"
abbreviation CKR_ARGUMENTS_BAD :: CK_RV where "CKR_ARGUMENTS_BAD \<equiv> 0x7"
abbreviation CKR_CANT_LOCK :: CK_RV where "CKR_CANT_LOCK \<equiv> 0xA"
abbreviation CKR_ATTRIBUTE_SENSITIVE :: CK_RV where "CKR_ATTRIBUTE_SENSITIVE \<equiv> 0x11"
abbreviation CKR_ATTRIBUTE_TYPE_INVALID :: CK_RV where "CKR_ATTRIBUTE_TYPE_INVALID \<equiv> 0x12"
abbreviation CKR_FUNCTION_NOT_SUPPORTED :: CK_RV where "CKR_FUNCTION_NOT_SUPPORTED \<equiv> 0x54"
abbreviation CKR_KEY_HANDLE_INVALID :: CK_RV where "CKR_KEY_HANDLE_INVALID \<equiv> 0x60"
abbreviation CKR_KEY_TYPE_INCONSISTENT :: CK_RV where "CKR_KEY_TYPE_INCONSISTENT \<equiv> 0x63"
abbreviation CKR_KEY_NEEDED :: CK_RV where "CKR_KEY_NEEDED \<equiv> 0x66"
abbreviation CKR_KEY_INDIGESTIBLE :: CK_RV where "CKR_KEY_INDIGESTIBLE \<equiv> 0x67"
abbreviation CKR_MECHANISM_INVALID :: CK_RV where "CKR_MECHANISM_INVALID \<equiv> 0x70"
abbreviation CKR_PIN_INCORRECT :: CK_RV where "CKR_PIN_INCORRECT \<equiv> 0xA0"
abbreviation CKR_PIN_EXPIRED :: CK_RV where "CKR_PIN_EXPIRED \<equiv> 0xA3"
abbreviation CKR_PIN_LOCKED :: CK_RV where "CKR_PIN_LOCKED \<equiv> 0xA4"
abbreviation CKR_SESSION_CLOSED :: CK_RV where "CKR_SESSION_CLOSED \<equiv> 0xB0"
abbreviation CKR_SESSION_COUNT :: CK_RV where "CKR_SESSION_COUNT \<equiv> 0xB1"
abbreviation CKR_SESSION_HANDLE_INVALID :: CK_RV where "CKR_SESSION_HANDLE_INVALID \<equiv> 0xB3"
abbreviation CKR_SESSION_READ_ONLY :: CK_RV where "CKR_SESSION_READ_ONLY \<equiv> 0xB5"
abbreviation CKR_TOKEN_NOT_PRESENT :: CK_RV where "CKR_TOKEN_NOT_PRESENT \<equiv> 0xE0"
abbreviation CKR_TOKEN_WRITE_PROTECTED :: CK_RV where "CKR_TOKEN_WRITE_PROTECTED \<equiv> 0xE2"
abbreviation CKR_USER_ALREADY_LOGGED_IN :: CK_RV where "CKR_USER_ALREADY_LOGGED_IN \<equiv> 0x100"
abbreviation CKR_BUFFER_TOO_SMALL :: CK_RV where "CKR_BUFFER_TOO_SMALL \<equiv> 0x150"
abbreviation CKR_CRYPTOKI_ALREADY_INITIALIZED :: CK_RV where "CKR_CRYPTOKI_ALREADY_INITIALIZED \<equiv> 0x191"

abbreviation CKO_DATA :: CK_OBJECT_CLASS where "CKO_DATA \<equiv> 0"
abbreviation CKO_CERTIFICATE :: CK_OBJECT_CLASS where "CKO_CERTIFICATE \<equiv> 1"
abbreviation CKO_PUBLIC_KEY :: CK_OBJECT_CLASS where "CKO_PUBLIC_KEY \<equiv> 2"
abbreviation CKO_PRIVATE_KEY :: CK_OBJECT_CLASS where "CKO_PRIVATE_KEY \<equiv> 3"
abbreviation CKO_SECRET_KEY :: CK_OBJECT_CLASS where "CKO_SECRET_KEY \<equiv> 4"
abbreviation CKO_DOMAIN_PARAMETERS :: CK_OBJECT_CLASS where "CKO_DOMAIN_PARAMETERS \<equiv> 6"

abbreviation CKA_CLASS :: CK_ATTRIBUTE_TYPE where "CKA_CLASS \<equiv> 0"
abbreviation CKA_TOKEN :: CK_ATTRIBUTE_TYPE where "CKA_TOKEN \<equiv> 1"
abbreviation CKA_LABEL :: CK_ATTRIBUTE_TYPE where "CKA_LABEL \<equiv> 0x3"
abbreviation CKA_VALUE :: CK_ATTRIBUTE_TYPE where "CKA_VALUE \<equiv> 0x11"
abbreviation CKA_ID :: CK_ATTRIBUTE_TYPE where "CKA_ID \<equiv> 0x102"
abbreviation CKA_MODULUS :: CK_ATTRIBUTE_TYPE where "CKA_MODULUS \<equiv> 0x120"
abbreviation CKA_PUBLIC_EXPONENT :: CK_ATTRIBUTE_TYPE where "CKA_PUBLIC_EXPONENT \<equiv> 0x122"
abbreviation CKA_EC_PARAMS :: CK_ATTRIBUTE_TYPE where "CKA_EC_PARAMS \<equiv> 0x180"
abbreviation CKA_EC_POINT :: CK_ATTRIBUTE_TYPE where "CKA_EC_POINT \<equiv> 0x181"

abbreviation CKF_SERIAL_SESSION :: CK_FLAGS where "CKF_SERIAL_SESSION \<equiv> 0x4"
abbreviation CKF_RW_SESSION :: CK_FLAGS where "CKF_RW_SESSION \<equiv> 0x2"
abbreviation CKF_TOKEN_PRESENT :: CK_FLAGS where "CKF_TOKEN_PRESENT \<equiv> 0x1"
abbreviation CKF_WRITE_PROTECTED :: CK_FLAGS where "CKF_WRITE_PROTECTED \<equiv> 0x2"
abbreviation CKF_LOGIN_REQUIRED :: CK_FLAGS where "CKF_LOGIN_REQUIRED \<equiv> 0x4"
abbreviation CKF_PROTECTED_AUTHENTICATION_PATH :: CK_FLAGS
  where "CKF_PROTECTED_AUTHENTICATION_PATH \<equiv> 0x100"
abbreviation CKF_TOKEN_INITIALIZED :: CK_FLAGS where "CKF_TOKEN_INITIALIZED \<equiv> 0x400"
abbreviation CKF_USER_PIN_FINAL_TRY :: CK_FLAGS where "CKF_USER_PIN_FINAL_TRY \<equiv> 0x20000"
abbreviation CKF_USER_PIN_LOCKED :: CK_FLAGS where "CKF_USER_PIN_LOCKED \<equiv> 0x40000"
abbreviation CKF_USER_PIN_TO_BE_CHANGED :: CK_FLAGS
  where "CKF_USER_PIN_TO_BE_CHANGED \<equiv> 0x80000"

text \<open>
  A flag test \<^verbatim>\<open>x & FLAG\<close> used as a condition.
\<close>

definition has_flag :: "CK_FLAGS \<Rightarrow> CK_FLAGS \<Rightarrow> bool" where
  "has_flag x f \<longleftrightarrow> x AND f \<noteq> 0"

text \<open>
  Several functions hold a \<open>CK_RV\<close> in a C \<^verbatim>\<open>int\<close> and return it as a \<open>CK_RV\<close> again: the low
  32 bits are kept and sign extended.
\<close>

definition rv_int :: "CK_RV \<Rightarrow> CK_RV" where
  "rv_int r = signed_take_bit 31 r"

lemma rv_int_0 [simp]: "rv_int 0 = 0"
  by (simp add: rv_int_def)

lemma unat_64_less: "unat (x :: 64 word) < 2 ^ 64"
  using unsigned_less [of x] by simp

section \<open>C strings\<close>

abbreviation NUL :: char where "NUL \<equiv> CHR 0x00"

definition char_at :: "string \<Rightarrow> nat \<Rightarrow> char" where
  "char_at s i = (if i < length s then s ! i else NUL)"

lemma char_at_simps [simp]:
  "char_at [] i = NUL" "char_at (c # cs) 0 = c" "char_at (c # cs) (Suc i) = char_at cs i"
  by (simp_all add: char_at_def)

text \<open>
  \<open>c_str m\<close> is what the string functions see of a memory block: everything up to the first NUL.
\<close>

definition c_str :: "bytes \<Rightarrow> string" where
  "c_str m = takeWhile (\<lambda>c. c \<noteq> NUL) m"

lemma c_str_id [simp]: "NUL \<notin> set s \<Longrightarrow> c_str s = s"
  by (auto simp: c_str_def takeWhile_eq_all_conv)

lemma c_str_no_NUL [simp]: "NUL \<notin> set (c_str m)"
  by (auto simp: c_str_def dest: set_takeWhileD)

lemma c_str_length_le: "length (c_str m) \<le> length m"
  by (simp add: c_str_def length_takeWhile_le)

text \<open>\<^verbatim>\<open>strncmp(a, b, n) == 0\<close>\<close>

fun strneq :: "nat \<Rightarrow> string \<Rightarrow> string \<Rightarrow> bool" where
  "strneq 0 a b = True"
| "strneq (Suc n) a b =
     (char_at a 0 = char_at b 0 \<and> (char_at a 0 = NUL \<or> strneq n (tl a) (tl b)))"

lemma strneq_take:
  assumes "NUL \<notin> set a" and "NUL \<notin> set b"
  shows "strneq n a b \<longleftrightarrow> take n a = take n b"
  using assms
proof (induction n arbitrary: a b)
  case 0
  then show ?case by simp
next
  case (Suc n)
  then show ?case by (cases a; cases b) auto
qed

lemma strneq_c_str: "strneq n a b \<longleftrightarrow> strneq n (c_str a) (c_str b)"
proof (induction n arbitrary: a b)
  case 0
  then show ?case by simp
next
  case (Suc n)
  show ?case
    using Suc [of "tl a" "tl b"] by (cases a; cases b) (auto simp: c_str_def)
qed

lemma strneq_iff: "strneq n a b \<longleftrightarrow> take n (c_str a) = take n (c_str b)"
  by (subst strneq_c_str) (simp add: strneq_take)

text \<open>A prefix test: \<^verbatim>\<open>strncmp(s, "lit", sizeof("lit") - 1) == 0\<close> for a NUL-free literal.\<close>

lemma strneq_prefix:
  assumes "NUL \<notin> set lit" and "NUL \<notin> set s"
  shows "strneq (length lit) s lit \<longleftrightarrow> take (length lit) s = lit"
  using assms by (simp add: strneq_take)

section \<open>Numbers as bytes and as text\<close>

text \<open>The eight bytes of a \<open>CK_ULONG\<close> in memory, least significant first, and back.\<close>

definition ulong_bytes :: "CK_ULONG \<Rightarrow> bytes" where
  "ulong_bytes x = map (\<lambda>i. char_of (unat (drop_bit (8 * i) x) mod 256)) [0..<8]"

definition bytes_ulong :: "bytes \<Rightarrow> CK_ULONG" where
  "bytes_ulong bs = of_nat (foldr (\<lambda>c n. of_char c + 256 * n) bs 0)"

text \<open>The decimal representation that \<^verbatim>\<open>%lu\<close> prints.\<close>

fun dec_string :: "nat \<Rightarrow> string" where
  "dec_string n = (if n < 10 then [char_of (of_char CHR ''0'' + n)]
     else dec_string (n div 10) @ [char_of (of_char CHR ''0'' + n mod 10)])"

declare dec_string.simps [simp del]

section \<open>PKCS#11 structures\<close>

text \<open>
  \<open>CK_ATTRIBUTE\<close>: \<open>ca_pValue\<close> is \<open>None\<close> for a NULL pointer and otherwise the block of
  \<open>ca_ulValueLen\<close> bytes it points to.
\<close>

record ck_attribute =
  ca_type :: CK_ATTRIBUTE_TYPE
  ca_pValue :: "bytes option"
  ca_ulValueLen :: CK_ULONG

text \<open>The fixed-size character fields of \<open>CK_SLOT_INFO\<close> and \<open>CK_TOKEN_INFO\<close>.\<close>

record ck_slot_info =
  si_slotDescription :: bytes
  si_manufacturerID :: bytes
  si_flags :: CK_FLAGS

record ck_token_info =
  ti_label :: bytes
  ti_manufacturerID :: bytes
  ti_model :: bytes
  ti_serialNumber :: bytes
  ti_flags :: CK_FLAGS
  ti_ulMaxSessionCount :: CK_ULONG

section \<open>Weakest preconditions for the state monad\<close>

text \<open>
  Stateful code is written in the library's state monad. \<open>wp m Q w\<close> says that running \<open>m\<close>
  from \<open>w\<close> gives a result and a state that satisfy \<open>Q\<close>; the functions are total, so this is
  total correctness. \<open>gets\<close> and \<open>modify\<close> are the reads and writes of the C state.
\<close>

definition gets :: "('w \<Rightarrow> 'a) \<Rightarrow> ('w, 'a) state" where
  "gets f = State (\<lambda>w. (f w, w))"

definition modify :: "('w \<Rightarrow> 'w) \<Rightarrow> ('w, unit) state" where
  "modify f = State (\<lambda>w. ((), f w))"

abbreviation ret :: "'a \<Rightarrow> ('w, 'a) state" where
  "ret \<equiv> State_Monad.return"

definition wp :: "('w, 'a) state \<Rightarrow> ('a \<Rightarrow> 'w \<Rightarrow> bool) \<Rightarrow> 'w \<Rightarrow> bool" where
  "wp m Q w = (case run_state m w of (a, w') \<Rightarrow> Q a w')"

lemma run_state_gets [simp]: "run_state (gets f) w = (f w, w)"
  by (simp add: gets_def)

lemma run_state_modify [simp]: "run_state (modify f) w = ((), f w)"
  by (simp add: modify_def)

text \<open>
  The equations are stated without the final state, so that they also rewrite below a bind.
\<close>

lemma wp_return [wp_simps]: "wp (ret a) Q = Q a"
  by (simp add: wp_def fun_eq_iff)

lemma wp_bind [wp_simps]: "wp (State_Monad.bind m f) Q = wp m (\<lambda>a. wp (f a) Q)"
  by (simp add: wp_def fun_eq_iff split: prod.split)

lemma wp_gets [wp_simps]: "wp (gets f) Q = (\<lambda>w. Q (f w) w)"
  by (simp add: wp_def fun_eq_iff)

lemma wp_modify [wp_simps]: "wp (modify f) Q = (\<lambda>w. Q () (f w))"
  by (simp add: wp_def fun_eq_iff)

lemma wp_if [wp_simps]: "wp (if b then m else n) Q = (\<lambda>w. if b then wp m Q w else wp n Q w)"
  by simp

lemma wp_case_prod [wp_simps]:
  "wp (case p of (a, b) \<Rightarrow> f a b) Q = (\<lambda>w. case p of (a, b) \<Rightarrow> wp (f a b) Q w)"
  by (cases p) simp

lemma wp_case_option [wp_simps]:
  "wp (case x of None \<Rightarrow> m | Some a \<Rightarrow> f a) Q =
     (\<lambda>w. case x of None \<Rightarrow> wp m Q w | Some a \<Rightarrow> wp (f a) Q w)"
  by (cases x) simp_all

lemma wp_case_nat [wp_simps]:
  "wp (case x of 0 \<Rightarrow> m | Suc a \<Rightarrow> f a) Q = (\<lambda>w. case x of 0 \<Rightarrow> wp m Q w | Suc a \<Rightarrow> wp (f a) Q w)"
  by (cases x) simp_all

lemma wp_Let [wp_simps]: "wp (Let x f) Q = wp (f x) Q"
  by simp

lemma wp_mono: "wp m P w \<Longrightarrow> (\<And>a w'. P a w' \<Longrightarrow> Q a w') \<Longrightarrow> wp m Q w"
  by (auto simp: wp_def)

lemma wp_seq: "wp m P w \<Longrightarrow> (\<And>a w'. P a w' \<Longrightarrow> wp (f a) Q w') \<Longrightarrow> wp (State_Monad.bind m f) Q w"
  unfolding wp_bind by (rule wp_mono)

lemma wp_ifI: "(b \<Longrightarrow> wp m Q w) \<Longrightarrow> (\<not> b \<Longrightarrow> wp n Q w) \<Longrightarrow> wp (if b then m else n) Q w"
  by simp

lemma wp_conj: "wp m (\<lambda>a w'. P a w' \<and> Q a w') w \<longleftrightarrow> wp m P w \<and> wp m Q w"
  by (auto simp: wp_def split: prod.split)

lemma wp_run: "wp m Q w \<Longrightarrow> run_state m w = (a, w') \<Longrightarrow> Q a w'"
  by (simp add: wp_def)

lemma wpI: "(\<And>a w'. run_state m w = (a, w') \<Longrightarrow> Q a w') \<Longrightarrow> wp m Q w"
  by (simp add: wp_def split: prod.split)

lemma wp_True [simp]: "wp m (\<lambda>_ _. True) w"
  by (simp add: wp_def split: prod.split)

text \<open>A \<^verbatim>\<open>for\<close> loop over a list, and its invariant rule.\<close>

fun for_each :: "('a \<Rightarrow> ('w, unit) state) \<Rightarrow> 'a list \<Rightarrow> ('w, unit) state" where
  "for_each f [] = ret ()"
| "for_each f (x # xs) = State_Monad.bind (f x) (\<lambda>_. for_each f xs)"

lemma wp_for_each:
  assumes "I w" and "\<And>x w. x \<in> set xs \<Longrightarrow> I w \<Longrightarrow> wp (f x) (\<lambda>_. I) w"
  shows "wp (for_each f xs) (\<lambda>_. I) w"
  using assms
proof (induction xs arbitrary: w)
  case Nil
  then show ?case by (simp add: wp_simps)
next
  case (Cons x xs)
  have "wp (f x) (\<lambda>_. I) w" using Cons.prems by simp
  then have "wp (f x) (\<lambda>_ w. wp (for_each f xs) (\<lambda>_. I) w) w"
    by (rule wp_mono) (rule Cons.IH, use Cons.prems in auto)
  then show ?case by (simp add: wp_bind)
qed

end
