(* ===== verification/P11_Ctime.thy ===== *)
theory P11_Ctime
  imports P11_Prelude
begin

text \<open>
  The branch-free helpers of \<^verbatim>\<open>src/src/util.h\<close> used on the PKCS#1 v1.5 decryption path, and
  \<open>byteswap_buf\<close> of \<^verbatim>\<open>src/src/util.c\<close>. Each is translated operation by operation on words of the
  C type's width and proved equal to the comparison or selection it stands for.
\<close>

section \<open>Definitions\<close>

definition constant_smaller_mask :: "CK_ULONG \<Rightarrow> CK_ULONG \<Rightarrow> CK_ULONG" where
  "constant_smaller_mask a b = 0 - drop_bit 63 (a XOR ((a XOR b) OR ((a - b) XOR b)))"

definition constant_equal :: "CK_ULONG \<Rightarrow> CK_ULONG \<Rightarrow> CK_ULONG" where
  "constant_equal a b = drop_bit 63 ((a XOR b) - 1)"

definition constant_equal_mask :: "CK_ULONG \<Rightarrow> CK_ULONG \<Rightarrow> CK_ULONG" where
  "constant_equal_mask a b = 0 - constant_equal a b"

text \<open>\<^verbatim>\<open>int\<close> arguments and results are their 32-bit two's complement words.\<close>

definition constant_select_int :: "CK_ULONG \<Rightarrow> 32 word \<Rightarrow> 32 word \<Rightarrow> 32 word" where
  "constant_select_int cond a b =
     (let msk = - (ucast cond :: 32 word) in (a AND msk) OR (b AND NOT msk))"

definition constant_select_byte_mask :: "8 word \<Rightarrow> 8 word \<Rightarrow> 8 word \<Rightarrow> 8 word" where
  "constant_select_byte_mask a b msk = (a AND msk) OR (b AND NOT msk)"

definition constant_select_buf ::
    "CK_ULONG \<Rightarrow> nat \<Rightarrow> 8 word list \<Rightarrow> 8 word list \<Rightarrow> 8 word list" where
  "constant_select_buf cond n a b =
     map (\<lambda>i. let msk = - (ucast cond :: 8 word) in (a ! i AND msk) OR (b ! i AND NOT msk)) [0..<n]"

text \<open>
  \<open>byteswap_buf\<close> on a little-endian host. The two indices are C \<^verbatim>\<open>int\<close>s that move towards each
  other. Callers pass one buffer as source and destination (\<open>aliased\<close>) or two distinct ones; in
  the first case a write to the destination is a write to the source.
\<close>

function byteswap_loop :: "bool \<Rightarrow> 'a list \<Rightarrow> 'a list \<Rightarrow> int \<Rightarrow> int \<Rightarrow> 'a list" where
  "byteswap_loop aliased src dest s e =
     (if e \<ge> s then
        (let sb = src ! nat s; eb = src ! nat e;
             dest' = dest[nat s := eb, nat e := sb];
             src' = (if aliased then dest' else src)
         in byteswap_loop aliased src' dest' (s + 1) (e - 1))
      else dest)"
  by pat_completeness auto
termination
  by (relation "measure (\<lambda>(aliased, src, dest, s, e). nat (e - s + 1))") auto

definition byteswap_buf :: "bool \<Rightarrow> 'a list \<Rightarrow> 'a list \<Rightarrow> nat \<Rightarrow> 'a list" where
  "byteswap_buf aliased src dest len = byteswap_loop aliased src dest 0 (int len - 1)"

declare byteswap_loop.simps [simp del]

section \<open>Comparison masks\<close>

lemma drop_bit_63: "drop_bit 63 (x :: 64 word) = (if bit x 63 then 1 else 0)"
proof (rule bit_word_eqI)
  fix n assume "n < LENGTH(64)"
  show "bit (drop_bit 63 x) n \<longleftrightarrow> bit (if bit x 63 then 1 else 0 :: 64 word) n"
  proof (cases n)
    case 0
    then show ?thesis by (simp add: bit_drop_bit_eq)
  next
    case (Suc m)
    then have "\<not> bit x (63 + n)" by (intro impossible_bit) simp
    then show ?thesis using Suc by (simp add: bit_drop_bit_eq bit_1_iff)
  qed
qed

lemma nat_div_lt_2: "n < 2 * m \<Longrightarrow> n div m = (if m \<le> n then 1 else 0)" for m n :: nat
  by (auto simp: le_div_geq)

lemma bit_63_iff: "bit (x :: 64 word) 63 \<longleftrightarrow> 2 ^ 63 \<le> unat x"
proof -
  have "bit x 63 \<longleftrightarrow> bit (unat x) 63"
    by (simp add: bit_unsigned_iff)
  also have "\<dots> \<longleftrightarrow> odd (unat x div 2 ^ 63)"
    by (simp add: bit_iff_odd)
  also have "\<dots> \<longleftrightarrow> 2 ^ 63 \<le> unat x"
  proof -
    have *: "unat x < 2 * 2 ^ 63" using unsigned_less [of x] by simp
    show ?thesis unfolding nat_div_lt_2 [OF *] by (simp only: split: if_split) simp
  qed
  finally show ?thesis .
qed

lemma unat_sub_cases:
  "unat (a - b :: 64 word) = (if b \<le> a then unat a - unat b else 2 ^ 64 + unat a - unat b)"
  by (auto simp: unat_sub_if' word_le_nat_alt)

text \<open>
  C26. \<open>constant_smaller_mask\<close> is all ones exactly when its first argument is smaller, as unsigned
  64-bit numbers, and zero otherwise: no input wraps it into a wrong answer.
\<close>

theorem constant_smaller_mask_correct:
  "constant_smaller_mask a b = (if a < b then - 1 else 0)"
proof -
  have "bit (a XOR ((a XOR b) OR ((a - b) XOR b))) 63 \<longleftrightarrow>
      (bit a 63 \<noteq> ((bit a 63 \<noteq> bit b 63) \<or> (bit (a - b) 63 \<noteq> bit b 63)))"
    by (simp add: bit_xor_iff bit_or_iff)
  also have "\<dots> \<longleftrightarrow> a < b"
    using unat_64_less [of a] unat_64_less [of b]
    by (auto simp: bit_63_iff unat_sub_cases word_less_nat_alt word_le_nat_alt)
  finally have "bit (a XOR ((a XOR b) OR ((a - b) XOR b))) 63 \<longleftrightarrow> a < b" .
  then show ?thesis
    unfolding constant_smaller_mask_def drop_bit_63 by (simp only: split: if_split) simp
qed

lemma constant_equal_iff:
  "constant_equal a b = (if a = b \<or> 2 ^ 63 < unat (a XOR b) then 1 else 0)"
proof (cases "a = b")
  case True
  then show ?thesis by (simp add: constant_equal_def)
next
  case False
  then have nz: "a XOR b \<noteq> 0" by (auto simp: bit_eq_iff bit_xor_iff)
  then have "unat ((a XOR b) - 1) = unat (a XOR b) - 1"
    by (simp add: unat_minus_one)
  moreover have "0 < unat (a XOR b)" using nz by (simp add: unat_gt_0)
  ultimately show ?thesis
    using False by (auto simp: constant_equal_def drop_bit_63 bit_63_iff)
qed

text \<open>
  On operands that agree in the top bit (which covers all \<open>CK_RV\<close> codes and lengths below
  2^63 the callers compare) \<open>constant_equal\<close> is 1 on equal arguments and 0 otherwise.
\<close>

lemma constant_equal_correct:
  assumes "unat a < 2 ^ 63" and "unat b < 2 ^ 63"
  shows "constant_equal a b = (if a = b then 1 else 0)"
proof -
  have "\<not> bit a 63" and "\<not> bit b 63" using assms by (simp_all add: bit_63_iff)
  then have "\<not> bit (a XOR b) 63" by (simp add: bit_xor_iff)
  then show ?thesis by (simp add: constant_equal_iff bit_63_iff)
qed

lemma constant_equal_correct_example:
  "constant_equal 0x150 0x150 = 1 \<and> constant_equal 0x150 0 = 0"
  using constant_equal_correct [of "0x150" "0x150"] constant_equal_correct [of "0x150" 0] by simp

text \<open>
  Outside that range it is not an equality test: two different words whose XOR exceeds
  2^63 compare equal.
\<close>

lemma constant_equal_wrong_above: "constant_equal 0 0x8000000000000001 = 1"
  by (simp add: constant_equal_iff)

lemma select_word:
  fixes a b :: "'a::len word"
  shows "(a AND - 1) OR (b AND NOT (- 1)) = a" and "(a AND 0) OR (b AND NOT 0) = b"
  by simp_all


section \<open>Byte swapping\<close>

lemma byteswap_loop_nth:
  assumes "0 \<le> s" and "e < int (length dest)" and "length src = length dest"
    and "aliased \<Longrightarrow> src = dest"
  shows "length (byteswap_loop aliased src dest s e) = length dest \<and>
    (\<forall>i < length dest. byteswap_loop aliased src dest s e ! i =
       (if s \<le> int i \<and> int i \<le> e then src ! nat (s + e - int i) else dest ! i))"
  using assms
proof (induction aliased src dest s e rule: byteswap_loop.induct)
  case (1 aliased src dest s e)
  show ?case
  proof (cases "e \<ge> s")
    case False
    then show ?thesis by (auto simp: byteswap_loop.simps [of aliased src dest s e])
  next
    case True
    define dest' where "dest' = dest[nat s := src ! nat e, nat e := src ! nat s]"
    define src' where "src' = (if aliased then dest' else src)"
    have IH: "length (byteswap_loop aliased src' dest' (s + 1) (e - 1)) = length dest' \<and>
      (\<forall>i < length dest'. byteswap_loop aliased src' dest' (s + 1) (e - 1) ! i =
         (if s + 1 \<le> int i \<and> int i \<le> e - 1 then src' ! nat (s + 1 + (e - 1) - int i) else dest' ! i))"
      unfolding src'_def dest'_def using True "1.prems" by (intro "1.IH") auto
    have eq: "byteswap_loop aliased src dest s e = byteswap_loop aliased src' dest' (s + 1) (e - 1)"
      using True by (simp add: byteswap_loop.simps [of aliased src dest s e] Let_def dest'_def src'_def)
    have inner: "s + 1 \<le> int i \<Longrightarrow> int i \<le> e - 1 \<Longrightarrow> src' ! nat (s + e - int i) = src ! nat (s + e - int i)" for i
      using "1.prems" by (auto simp: src'_def dest'_def nth_list_update)
    have outer: "i < length dest \<Longrightarrow> \<not> (s + 1 \<le> int i \<and> int i \<le> e - 1) \<Longrightarrow>
        dest' ! i = (if s \<le> int i \<and> int i \<le> e then src ! nat (s + e - int i) else dest ! i)" for i
    proof -
      assume i: "i < length dest" "\<not> (s + 1 \<le> int i \<and> int i \<le> e - 1)"
      consider "int i = e" | "int i = s" "s \<noteq> e" | "int i < s \<or> e < int i" using i True by linarith
      then show ?thesis
      proof cases
        case 1
        then have "nat e = i" and "nat (s + e - int i) = nat s" by auto
        then show ?thesis using i 1 True by (simp add: dest'_def)
      next
        case 2
        then have "nat s = i" and "nat (s + e - int i) = nat e" and "nat e \<noteq> i"
          using True "1.prems" by auto
        then show ?thesis using i 2 True by (simp add: dest'_def)
      next
        case 3
        then have "int i \<noteq> s" and "int i \<noteq> e" using True by linarith+
        then have "nat s \<noteq> i" and "nat e \<noteq> i" using True "1.prems"(1) by linarith+
        then show ?thesis using 3 by (auto simp: dest'_def)
      qed
    qed
    show ?thesis
      using IH inner outer unfolding eq by (auto simp: dest'_def)
  qed
qed

text \<open>
  \<open>byteswap_buf\<close> reverses its source, in place or into a second buffer of the same size.
\<close>

lemma byteswap_buf_rev:
  assumes "length src = length dest" and "aliased \<Longrightarrow> src = dest"
  shows "byteswap_buf aliased src dest (length dest) = rev src"
proof (rule nth_equalityI)
  note * = byteswap_loop_nth [of 0 "int (length dest) - 1" dest src aliased]
  show "length (byteswap_buf aliased src dest (length dest)) = length (rev src)"
    using * assms by (simp add: byteswap_buf_def)
  fix i assume "i < length (byteswap_buf aliased src dest (length dest))"
  then have i: "i < length dest" using * assms by (simp add: byteswap_buf_def)
  have "nat (int (length dest) - 1 - int i) = length dest - Suc i" using i by simp
  then show "byteswap_buf aliased src dest (length dest) ! i = rev src ! i"
    using * assms i by (simp add: byteswap_buf_def rev_nth)
qed

lemma byteswap_buf_rev_example:
  "byteswap_buf True ''abcde'' ''abcde'' 5 = ''edcba'' \<and> byteswap_buf False ''abcd'' ''xxxx'' 4 = ''dcba''"
  using byteswap_buf_rev [of "''abcde''" "''abcde''" True] byteswap_buf_rev [of "''abcd''" "''xxxx''" False]
  by (simp add: numeral_eq_Suc)

end
