(* ===== verification/P11_Uri.thy ===== *)
theory P11_Uri
  imports P11_Prelude
begin

text \<open>
  The PKCS#11 URI component of \<^verbatim>\<open>src/src/util.c\<close>: percent decoding, the attribute handlers, the
  component loop of \<open>p11prov_parse_uri\<close>, the printer \<open>p11prov_obj_to_uri\<close> with
  \<open>uri_component\<close> and \<open>p11prov_alloc_sprintf\<close>, and the token matcher.

  Parameters for code outside the sources: \<open>mem n\<close> says whether \<open>OPENSSL_malloc(n)\<close> succeeds,
  \<open>pf name\<close> is what opening a PIN file and reading one line from it gives. Error numbers are
  values of \<open>errno\<close>; a handler returns \<open>Inl\<close> of the error or \<open>Inr\<close> of what it stores.
\<close>

section \<open>Data\<close>

datatype errno = EINVAL | ENOMEM | ENOENT | ERANGE

datatype pin_read = PinNoFile | PinRead int bytes

record p11prov_uri =
  u_library_description :: "string option"
  u_library_manufacturer :: "string option"
  u_library_version :: "nat \<times> nat"
  u_token :: "string option"
  u_manufacturer :: "string option"
  u_model :: "string option"
  u_serial :: "string option"
  u_slot_description :: "string option"
  u_slot_id :: CK_SLOT_ID
  u_slot_manufacturer :: "string option"
  u_id :: ck_attribute
  u_object :: ck_attribute
  u_type :: CK_OBJECT_CLASS
  u_pin :: "string option"

definition empty_uri :: p11prov_uri where
  "empty_uri = \<lparr>u_library_description = None, u_library_manufacturer = None,
     u_library_version = (0, 0), u_token = None, u_manufacturer = None, u_model = None,
     u_serial = None, u_slot_description = None, u_slot_id = CK_UNAVAILABLE_INFORMATION,
     u_slot_manufacturer = None,
     u_id = \<lparr>ca_type = CKA_ID, ca_pValue = None, ca_ulValueLen = 0\<rparr>,
     u_object = \<lparr>ca_type = CKA_LABEL, ca_pValue = None, ca_ulValueLen = 0\<rparr>,
     u_type = CK_UNAVAILABLE_INFORMATION, u_pin = None\<rparr>"

definition sizeof_uri :: nat where
  "sizeof_uri = 144"

section \<open>Percent decoding\<close>

definition hex_digit_value :: "char \<Rightarrow> nat option" where
  "hex_digit_value s =
     (let v = (of_char s :: nat) in
      if of_char CHR ''0'' \<le> v \<and> v \<le> of_char CHR ''9'' then Some (v - of_char CHR ''0'')
      else if of_char CHR ''a'' \<le> v \<and> v \<le> of_char CHR ''f'' then Some (v - of_char CHR ''a'' + 10)
      else if of_char CHR ''A'' \<le> v \<and> v \<le> of_char CHR ''F'' then Some (v - of_char CHR ''A'' + 10)
      else None)"

definition hex_to_byte :: "char \<Rightarrow> char \<Rightarrow> errno + char" where
  "hex_to_byte x y =
     (case hex_digit_value x of None \<Rightarrow> Inl EINVAL
      | Some c0 \<Rightarrow> (case hex_digit_value y of None \<Rightarrow> Inl EINVAL
        | Some c1 \<Rightarrow> Inr (char_of (push_bit 4 c0 OR c1))))"

function parse_attr_loop :: "string \<Rightarrow> nat \<Rightarrow> errno + bytes" where
  "parse_attr_loop str len =
     (if char_at str 0 \<noteq> NUL \<and> len > 0 then
        if char_at str 0 = CHR ''%'' then
          if len < 3 then Inl EINVAL
          else (case hex_to_byte (char_at str 1) (char_at str 2) of
                  Inl e \<Rightarrow> Inl e
                | Inr b \<Rightarrow> map_sum id ((#) b) (parse_attr_loop (drop 3 str) (len - 3)))
        else map_sum id ((#) (char_at str 0)) (parse_attr_loop (drop 1 str) (len - 1))
      else Inr [])"
  by pat_completeness auto
termination
  by (relation "measure snd") auto

declare parse_attr_loop.simps [simp del]

definition parse_attr :: "(nat \<Rightarrow> bool) \<Rightarrow> string \<Rightarrow> nat \<Rightarrow> errno + bytes" where
  "parse_attr mem str len = (if \<not> mem (len + 1) then Inl ENOMEM else parse_attr_loop str len)"

section \<open>Attribute handlers\<close>

text \<open>
  A decoded value is a string only if it has no embedded NUL: \<open>strlen\<close> of the buffer must be
  the decoded length.
\<close>

definition parse_utf8str :: "(nat \<Rightarrow> bool) \<Rightarrow> string \<Rightarrow> nat \<Rightarrow> errno + string" where
  "parse_utf8str mem str len =
     (case parse_attr mem str len of
        Inl e \<Rightarrow> Inl e
      | Inr out \<Rightarrow> if length out \<noteq> length (c_str out) then Inl EINVAL else Inr out)"

definition parse_ck_attribute ::
    "(nat \<Rightarrow> bool) \<Rightarrow> string \<Rightarrow> nat \<Rightarrow> ck_attribute \<Rightarrow> errno + ck_attribute" where
  "parse_ck_attribute mem str len cka =
     (if ca_type cka = CKA_LABEL then
        (case parse_utf8str mem str len of
           Inl e \<Rightarrow> Inl e
         | Inr out \<Rightarrow> Inr (cka\<lparr>ca_pValue := Some out, ca_ulValueLen := of_nat (length out)\<rparr>))
      else if ca_type cka = CKA_ID then
        (case parse_attr mem str len of
           Inl e \<Rightarrow> Inl e
         | Inr out \<Rightarrow> Inr (cka\<lparr>ca_pValue := Some out, ca_ulValueLen := of_nat (length out)\<rparr>))
      else Inl EINVAL)"

definition parse_class :: "(nat \<Rightarrow> bool) \<Rightarrow> string \<Rightarrow> nat \<Rightarrow> errno + CK_OBJECT_CLASS" where
  "parse_class mem str len =
     (case parse_utf8str mem str len of
        Inl e \<Rightarrow> Inl e
      | Inr t \<Rightarrow>
          if t = ''data'' then Inr CKO_DATA
          else if t = ''cert'' then Inr CKO_CERTIFICATE
          else if t = ''public'' then Inr CKO_PUBLIC_KEY
          else if t = ''private'' then Inr CKO_PRIVATE_KEY
          else if t = ''secret-key'' then Inr CKO_SECRET_KEY
          else Inl EINVAL)"

text \<open>
  \<open>strtoul(str, &endptr, 10)\<close>: the value, the offset of \<open>endptr\<close>, and whether \<open>errno\<close> was set
  to \<open>ERANGE\<close>. White space and a sign are accepted; a minus sign negates in \<open>unsigned long\<close>.
\<close>

definition c_isspace :: "char \<Rightarrow> bool" where
  "c_isspace c \<longleftrightarrow> c \<in> set [CHR '' '', CHR 0x09, CHR 0x0A, CHR 0x0B, CHR 0x0C, CHR 0x0D]"

definition c_isdigit :: "char \<Rightarrow> bool" where
  "c_isdigit c \<longleftrightarrow> of_char CHR ''0'' \<le> (of_char c :: nat) \<and> (of_char c :: nat) \<le> of_char CHR ''9''"

fun digits_value :: "nat \<Rightarrow> string \<Rightarrow> nat" where
  "digits_value acc [] = acc"
| "digits_value acc (c # cs) = digits_value (acc * 10 + (of_char c - of_char CHR ''0'')) cs"

definition strtoul :: "string \<Rightarrow> CK_ULONG \<times> nat \<times> bool" where
  "strtoul str =
     (let ws = length (takeWhile c_isspace str);
          c = char_at str ws;
          sg = (if c = CHR ''-'' \<or> c = CHR ''+'' then 1 else 0);
          ds = takeWhile c_isdigit (drop (ws + sg) str)
      in if ds = [] then (0, 0, False)
         else (let n = digits_value 0 ds; e = ws + sg + length ds in
               if n \<ge> 2 ^ 64 then (- 1, e, True)
               else (if c = CHR ''-'' then - of_nat n else of_nat n, e, False)))"

definition parse_ulong :: "string \<Rightarrow> int \<Rightarrow> errno + CK_ULONG" where
  "parse_ulong str len =
     (case strtoul str of (val, e, rng) \<Rightarrow>
        if rng then Inl ERANGE
        else if int e \<noteq> len then Inl EINVAL
        else Inr val)"

definition parse_version :: "string \<Rightarrow> nat \<Rightarrow> errno + nat \<times> nat" where
  "parse_version str len =
     (if len < 3 \<or> len > 7 then Inl EINVAL
      else if CHR ''.'' \<notin> set str then Inl EINVAL
      else (let sep = length (takeWhile (\<lambda>c. c \<noteq> CHR ''.'') str) in
        case parse_ulong str (int sep) of
          Inl e \<Rightarrow> Inl e
        | Inr major \<Rightarrow>
            if major > 255 then Inl EINVAL
            else (case parse_ulong (drop (sep + 1) str) (int len - int (sep + 1)) of
                    Inl e \<Rightarrow> Inl e
                  | Inr minor \<Rightarrow> if minor > 255 then Inl EINVAL
                                 else Inr (unat major, unat minor))))"

text \<open>
  \<open>get_pin_file\<close>: at most \<open>MAX_PIN_LENGTH\<close> is passed to \<open>BIO_gets\<close>; newlines and carriage returns
  at the end of what was read are cut.
\<close>

definition MAX_PIN_LENGTH :: nat where
  "MAX_PIN_LENGTH = 32"

definition strip_eol :: "bytes \<Rightarrow> bytes" where
  "strip_eol pin = rev (dropWhile (\<lambda>c. c = CHR 0x0A \<or> c = CHR 0x0D) (rev pin))"

definition get_pin_file ::
    "(nat \<Rightarrow> bool) \<Rightarrow> (string \<Rightarrow> nat \<Rightarrow> pin_read) \<Rightarrow> string \<Rightarrow> nat \<Rightarrow> errno + string" where
  "get_pin_file mem pf str len =
     (case parse_attr mem str len of
        Inl e \<Rightarrow> Inl e
      | Inr pinfile \<Rightarrow>
          if \<not> strneq 5 pinfile ''file:'' \<and> char_at pinfile 0 = CHR ''|'' then Inl EINVAL
          else (let filename = c_str (if strneq 5 pinfile ''file:'' then drop 5 pinfile else pinfile) in
            case pf filename MAX_PIN_LENGTH of
              PinNoFile \<Rightarrow> Inl ENOENT
            | PinRead n pin \<Rightarrow>
                if n \<le> 0 then Inl EINVAL
                else (let s = c_str (strip_eol (take (nat n) pin)) in
                      if mem (length s + 1) then Inr s else Inl ENOMEM)))"

definition p11prov_get_pin ::
    "(nat \<Rightarrow> bool) \<Rightarrow> (string \<Rightarrow> nat \<Rightarrow> pin_read) \<Rightarrow> string \<Rightarrow> errno + string" where
  "p11prov_get_pin mem pf s =
     (if strneq 5 s ''file:'' then get_pin_file mem pf s (length s)
      else if mem (length s + 1) then Inr s else Inl ENOMEM)"

section \<open>Parsing\<close>

text \<open>
  The table \<open>ucmap\<close>: each entry is the attribute name and its handler, which stores the parsed
  value in the URI under construction. The handler gets the rest of the whole URI and the length
  of the component's value, as in the source.
\<close>

type_synonym uri_handler = "p11prov_uri \<Rightarrow> string \<Rightarrow> nat \<Rightarrow> errno + p11prov_uri"

definition ucmap :: "(nat \<Rightarrow> bool) \<Rightarrow> (string \<Rightarrow> nat \<Rightarrow> pin_read) \<Rightarrow> (string \<times> uri_handler) list" where
  "ucmap mem pf =
     [(''library-description'', \<lambda>u s n. map_sum id (\<lambda>v. u\<lparr>u_library_description := Some v\<rparr>) (parse_utf8str mem s n)),
      (''library-manufacturer'', \<lambda>u s n. map_sum id (\<lambda>v. u\<lparr>u_library_manufacturer := Some v\<rparr>) (parse_utf8str mem s n)),
      (''library-version'', \<lambda>u s n. map_sum id (\<lambda>v. u\<lparr>u_library_version := v\<rparr>) (parse_version s n)),
      (''token'', \<lambda>u s n. map_sum id (\<lambda>v. u\<lparr>u_token := Some v\<rparr>) (parse_utf8str mem s n)),
      (''manufacturer'', \<lambda>u s n. map_sum id (\<lambda>v. u\<lparr>u_manufacturer := Some v\<rparr>) (parse_utf8str mem s n)),
      (''model'', \<lambda>u s n. map_sum id (\<lambda>v. u\<lparr>u_model := Some v\<rparr>) (parse_utf8str mem s n)),
      (''serial'', \<lambda>u s n. map_sum id (\<lambda>v. u\<lparr>u_serial := Some v\<rparr>) (parse_utf8str mem s n)),
      (''slot-description'', \<lambda>u s n. map_sum id (\<lambda>v. u\<lparr>u_slot_description := Some v\<rparr>) (parse_utf8str mem s n)),
      (''slot-id'', \<lambda>u s n. map_sum id (\<lambda>v. u\<lparr>u_slot_id := v\<rparr>) (parse_ulong s (int n))),
      (''slot-manufacturer'', \<lambda>u s n. map_sum id (\<lambda>v. u\<lparr>u_slot_manufacturer := Some v\<rparr>) (parse_utf8str mem s n)),
      (''id'', \<lambda>u s n. map_sum id (\<lambda>v. u\<lparr>u_id := v\<rparr>) (parse_ck_attribute mem s n (u_id u))),
      (''object'', \<lambda>u s n. map_sum id (\<lambda>v. u\<lparr>u_object := v\<rparr>) (parse_ck_attribute mem s n (u_object u))),
      (''type'', \<lambda>u s n. map_sum id (\<lambda>v. u\<lparr>u_type := v\<rparr>) (parse_class mem s n)),
      (''pin-value'', \<lambda>u s n. map_sum id (\<lambda>v. u\<lparr>u_pin := Some v\<rparr>) (parse_utf8str mem s n)),
      (''pin-source'', \<lambda>u s n. map_sum id (\<lambda>v. u\<lparr>u_pin := Some v\<rparr>) (get_pin_file mem pf s n)),
      (''object-type'', \<lambda>u s n. map_sum id (\<lambda>v. u\<lparr>u_type := v\<rparr>) (parse_class mem s n))]"

definition match_component :: "(string \<times> uri_handler) list \<Rightarrow> string \<Rightarrow> (string \<times> uri_handler) option" where
  "match_component cs p =
     find (\<lambda>(attr, h). strneq (length attr) p attr \<and> char_at p (length attr) = CHR ''='') cs"

definition is_sep :: "char \<Rightarrow> bool" where
  "is_sep c \<longleftrightarrow> c = CHR '';'' \<or> c = CHR ''?'' \<or> c = CHR ''&''"

definition comp_len :: "string \<Rightarrow> nat" where
  "comp_len p = length (takeWhile (\<lambda>c. \<not> is_sep c) p)"

function parse_uri_loop ::
    "(string \<times> uri_handler) list \<Rightarrow> p11prov_uri \<Rightarrow> string \<Rightarrow> errno + p11prov_uri" where
  "parse_uri_loop cs u p =
     (let len = comp_len p;
          r = (case match_component cs p of
                 None \<Rightarrow> Inr u
               | Some (attr, h) \<Rightarrow> h u (drop (length attr + 1) p) (len - (length attr + 1)))
      in case r of
           Inl e \<Rightarrow> Inl e
         | Inr u' \<Rightarrow> if len < length p then parse_uri_loop cs u' (drop (len + 1) p) else Inr u')"
  by pat_completeness auto
termination
  by (relation "measure (\<lambda>(cs, u, p). length p)") auto

declare parse_uri_loop.simps [simp del]

definition p11prov_parse_uri ::
    "(nat \<Rightarrow> bool) \<Rightarrow> (string \<Rightarrow> nat \<Rightarrow> pin_read) \<Rightarrow> string \<Rightarrow> p11prov_uri option" where
  "p11prov_parse_uri mem pf uri =
     (if \<not> strneq 7 uri ''pkcs11:'' then None
      else (case parse_uri_loop (ucmap mem pf) empty_uri (drop 7 uri) of
              Inl e \<Rightarrow> None
            | Inr u \<Rightarrow> if mem sizeof_uri then Some u else None))"

section \<open>Printing\<close>

definition hex_digit :: "nat \<Rightarrow> char" where
  "hex_digit n = (if n < 10 then char_of (of_char CHR ''0'' + n) else char_of (of_char CHR ''A'' + (n - 10)))"

definition byte_to_hex :: "char \<Rightarrow> bool \<Rightarrow> string" where
  "byte_to_hex c bin =
     (let v = (of_char c :: nat) in
      if bin \<or> v < of_char CHR 0x27 \<or> c = CHR ''/'' \<or> c = CHR '';'' \<or> c = CHR ''?'' \<or> v > of_char CHR ''~''
      then [CHR ''%'', hex_digit (v div 16), hex_digit (v mod 16)]
      else [c])"

text \<open>
  \<open>uri_component name val vlen\<close>: the component with its trailing semicolon and the length the
  source reports (without the semicolon). A length of 0 means \<open>strlen\<close>.
\<close>

definition uri_component ::
    "(nat \<Rightarrow> bool) \<Rightarrow> string option \<Rightarrow> bytes option \<Rightarrow> nat \<Rightarrow> (string \<times> nat) option" where
  "uri_component mem name val vlen =
     (case (name, val) of
        (Some nm, Some v) \<Rightarrow>
          (let bin = (length nm = 2);
               bs = (if vlen = 0 then c_str v else take vlen v);
               c = nm @ ''='' @ concat (map (\<lambda>b. byte_to_hex b bin) bs)
           in if mem (length nm + 1 + length bs * 3 + 2) then Some (c @ '';'', length c) else None)
      | _ \<Rightarrow> None)"

text \<open>
  \<open>p11prov_alloc_sprintf\<close> for a format whose expansion is \<open>s\<close>. The first \<open>OPENSSL_malloc\<close> is not
  checked: \<open>vsnprintf\<close> into a NULL buffer of non-zero size is undefined (\<open>SpUndef\<close>).
\<close>

datatype sprintf_out = SpUndef | SpNull | SpBuf string

fun alloc_sprintf_loop :: "(nat \<Rightarrow> bool) \<Rightarrow> nat \<Rightarrow> nat \<Rightarrow> string \<Rightarrow> sprintf_out" where
  "alloc_sprintf_loop mem 0 size_hint s = SpNull"
| "alloc_sprintf_loop mem (Suc repeat) size_hint s =
     (if size_hint \<noteq> 0 \<and> \<not> mem size_hint then SpUndef
      else if length s \<ge> size_hint then alloc_sprintf_loop mem repeat (length s + 1) s
      else if size_hint > length s + 1 \<and> \<not> mem (length s + 1) then SpNull
      else SpBuf s)"

definition p11prov_alloc_sprintf :: "(nat \<Rightarrow> bool) \<Rightarrow> nat \<Rightarrow> string \<Rightarrow> sprintf_out" where
  "p11prov_alloc_sprintf mem size_hint s = alloc_sprintf_loop mem 2 size_hint s"

definition class_type_name :: "CK_OBJECT_CLASS \<Rightarrow> string option" where
  "class_type_name cls =
     (if cls = CKO_DATA then Some ''data''
      else if cls = CKO_CERTIFICATE then Some ''cert''
      else if cls = CKO_PUBLIC_KEY then Some ''public''
      else if cls = CKO_PRIVATE_KEY then Some ''private''
      else if cls = CKO_SECRET_KEY then Some ''secret-key''
      else None)"

definition token_component :: "(nat \<Rightarrow> bool) \<Rightarrow> string \<Rightarrow> bytes \<Rightarrow> nat \<Rightarrow> (string \<times> nat) option" where
  "token_component mem name field size_max =
     (if char_at field 0 \<noteq> NUL
      then uri_component mem (Some name) (Some field) (length (c_str (take size_max field)))
      else None)"

definition attr_component :: "(nat \<Rightarrow> bool) \<Rightarrow> string \<Rightarrow> ck_attribute option \<Rightarrow> (string \<times> nat) option" where
  "attr_component mem name a =
     (case a of
        None \<Rightarrow> None
      | Some cka \<Rightarrow> if ca_ulValueLen cka > 0
                    then uri_component mem (Some name) (ca_pValue cka) (unat (ca_ulValueLen cka))
                    else None)"

abbreviation comp_str :: "(string \<times> nat) option \<Rightarrow> string" where
  "comp_str c \<equiv> (case c of None \<Rightarrow> [] | Some p \<Rightarrow> fst p)"

abbreviation comp_size :: "(string \<times> nat) option \<Rightarrow> nat" where
  "comp_size c \<equiv> (case c of None \<Rightarrow> 0 | Some p \<Rightarrow> snd p)"

text \<open>
  \<open>p11prov_obj_to_uri\<close> on what the accessors return for the object: its class, the token of its
  slot (\<open>None\<close> when the slots cannot be taken or the slot is not found), and its \<open>CKA_ID\<close> and
  \<open>CKA_LABEL\<close> attributes.
\<close>

definition p11prov_obj_to_uri ::
    "(nat \<Rightarrow> bool) \<Rightarrow> CK_OBJECT_CLASS \<Rightarrow> ck_token_info option \<Rightarrow> ck_attribute option \<Rightarrow>
     ck_attribute option \<Rightarrow> sprintf_out" where
  "p11prov_obj_to_uri mem cls slot_token cka_id cka_label =
     (case class_type_name cls of
        None \<Rightarrow> SpNull
      | Some type \<Rightarrow>
        (case slot_token of
           None \<Rightarrow> SpNull
         | Some token \<Rightarrow>
           (let model = token_component mem ''model'' (ti_model token) 16;
                manufacturer = token_component mem ''manufacturer'' (ti_manufacturerID token) 32;
                serial = token_component mem ''serial'' (ti_serialNumber token) 16;
                token_label = token_component mem ''token'' (ti_label token) 32;
                id = attr_component mem ''id'' cka_id;
                object = attr_component mem ''object'' cka_label;
                size_hint = comp_size model + comp_size manufacturer + comp_size serial
                  + comp_size token_label + comp_size id + comp_size object
                  + 8 + 6 + length type
            in p11prov_alloc_sprintf mem size_hint
                 (''pkcs11:'' @ comp_str model @ comp_str manufacturer @ comp_str serial @
                  comp_str token_label @ comp_str id @ comp_str object @ ''type='' @ type))))"

section \<open>Copying and matching\<close>

definition p11prov_copy_attr :: "(nat \<Rightarrow> bool) \<Rightarrow> ck_attribute \<Rightarrow> ck_attribute option" where
  "p11prov_copy_attr mem src =
     (if ca_ulValueLen src \<noteq> 0 then
        if mem (unat (ca_ulValueLen src))
        then Some (src\<lparr>ca_pValue := map_option (take (unat (ca_ulValueLen src))) (ca_pValue src)\<rparr>)
        else None
      else Some (src\<lparr>ca_pValue := None\<rparr>))"

definition copy_str :: "(nat \<Rightarrow> bool) \<Rightarrow> string option \<Rightarrow> string option option" where
  "copy_str mem s =
     (case s of None \<Rightarrow> Some None | Some v \<Rightarrow> if mem (length v + 1) then Some (Some v) else None)"

definition p11prov_copy_uri :: "(nat \<Rightarrow> bool) \<Rightarrow> p11prov_uri \<Rightarrow> p11prov_uri option" where
  "p11prov_copy_uri mem uri =
     (if \<not> mem sizeof_uri then None
      else Option.bind (copy_str mem (u_library_manufacturer uri)) (\<lambda>lm.
           Option.bind (copy_str mem (u_library_description uri)) (\<lambda>ld.
           Option.bind (copy_str mem (u_token uri)) (\<lambda>tk.
           Option.bind (copy_str mem (u_manufacturer uri)) (\<lambda>mf.
           Option.bind (copy_str mem (u_model uri)) (\<lambda>md.
           Option.bind (copy_str mem (u_serial uri)) (\<lambda>sr.
           Option.bind (copy_str mem (u_slot_description uri)) (\<lambda>sd.
           Option.bind (copy_str mem (u_slot_manufacturer uri)) (\<lambda>sm.
           Option.bind (copy_str mem (u_pin uri)) (\<lambda>pn.
           Option.bind (p11prov_copy_attr mem (u_id uri)) (\<lambda>i.
           Option.bind (p11prov_copy_attr mem (u_object uri)) (\<lambda>ob.
             Some \<lparr>u_library_description = ld, u_library_manufacturer = lm,
               u_library_version = u_library_version uri, u_token = tk, u_manufacturer = mf,
               u_model = md, u_serial = sr, u_slot_description = sd, u_slot_id = u_slot_id uri,
               u_slot_manufacturer = sm, u_id = i, u_object = ob, u_type = u_type uri,
               u_pin = pn\<rparr>))))))))))))"

definition field_mismatch :: "string option \<Rightarrow> nat \<Rightarrow> bytes \<Rightarrow> bool" where
  "field_mismatch x n field = (case x of None \<Rightarrow> False | Some v \<Rightarrow> \<not> strneq n v field)"

definition p11prov_uri_match_token ::
    "p11prov_uri \<Rightarrow> CK_SLOT_ID \<Rightarrow> ck_slot_info \<Rightarrow> ck_token_info \<Rightarrow> CK_RV" where
  "p11prov_uri_match_token uri slot_id slot token =
     (if u_slot_id uri \<noteq> CK_UNAVAILABLE_INFORMATION \<and> u_slot_id uri \<noteq> slot_id then CKR_CANCEL
      else if field_mismatch (u_slot_description uri) 64 (si_slotDescription slot) then CKR_CANCEL
      else if field_mismatch (u_slot_manufacturer uri) 32 (si_manufacturerID slot) then CKR_CANCEL
      else if field_mismatch (u_model uri) 16 (ti_model token) then CKR_CANCEL
      else if field_mismatch (u_manufacturer uri) 32 (ti_manufacturerID token) then CKR_CANCEL
      else if field_mismatch (u_token uri) 32 (ti_label token) then CKR_CANCEL
      else if field_mismatch (u_serial uri) 16 (ti_serialNumber token) then CKR_CANCEL
      else CKR_OK)"

definition p11prov_uri_set_id :: "(nat \<Rightarrow> bool) \<Rightarrow> p11prov_uri \<Rightarrow> ck_attribute \<Rightarrow> CK_RV \<times> p11prov_uri" where
  "p11prov_uri_set_id mem uri a =
     (case p11prov_copy_attr mem a of
        None \<Rightarrow> (CKR_HOST_MEMORY, uri\<lparr>u_id := (u_id uri)\<lparr>ca_pValue := None\<rparr>\<rparr>)
      | Some c \<Rightarrow> (CKR_OK, uri\<lparr>u_id := c\<rparr>))"

definition p11prov_uri_set_label :: "(nat \<Rightarrow> bool) \<Rightarrow> p11prov_uri \<Rightarrow> ck_attribute \<Rightarrow> CK_RV \<times> p11prov_uri" where
  "p11prov_uri_set_label mem uri a =
     (case p11prov_copy_attr mem a of
        None \<Rightarrow> (CKR_HOST_MEMORY, uri\<lparr>u_object := (u_object uri)\<lparr>ca_pValue := None\<rparr>\<rparr>)
      | Some c \<Rightarrow> (CKR_OK, uri\<lparr>u_object := c\<rparr>))"

text \<open>\<open>trim_padded_field\<close>: blanks at the end of a fixed-size field become NULs.\<close>

function trim_padded_loop :: "bytes \<Rightarrow> nat \<Rightarrow> bytes" where
  "trim_padded_loop field n =
     (if n > 0 \<and> field ! (n - 1) = CHR '' '' then trim_padded_loop (field[n - 1 := NUL]) (n - 1)
      else field)"
  by pat_completeness auto
termination
  by (relation "measure snd") auto

declare trim_padded_loop.simps [simp del]

definition trim_padded_field :: "bytes \<Rightarrow> bytes" where
  "trim_padded_field field = trim_padded_loop field (length field)"

section \<open>Percent coding round trip\<close>

lemma hex_digit_value_hex_digit: "n < 16 \<Longrightarrow> hex_digit_value (hex_digit n) = Some n"
  by (auto simp: hex_digit_value_def hex_digit_def Let_def of_char_of)

lemma push_or: "m < 16 \<Longrightarrow> n < 16 \<Longrightarrow> (push_bit 4 m OR n :: nat) = m * 16 + n"
proof -
  assume n: "n < 16"
  have "n = take_bit 4 n" using n by (simp add: take_bit_nat_eq_self)
  then have "push_bit 4 m AND n = 0" by (metis bit_and_iff bit_push_bit_iff bit_take_bit_iff bit_0_eq bot_apply bot_bool_def bit_eq_iff not_le)
  then have "push_bit 4 m OR n = push_bit 4 m + n"
    by (rule disjunctive_add_eq_or [symmetric])
  then show ?thesis by (simp add: push_bit_eq_mult)
qed

lemma hex_to_byte_hex:
  "hex_to_byte (hex_digit (of_char c div 16)) (hex_digit (of_char c mod 16)) = Inr c"
proof -
  have "(of_char c :: nat) div 16 < 16" by (rule less_mult_imp_div_less) simp
  then show ?thesis
    by (simp add: hex_to_byte_def hex_digit_value_hex_digit push_or)
qed

lemma parse_attr_loop_lit:
  "c \<noteq> NUL \<Longrightarrow> c \<noteq> CHR ''%'' \<Longrightarrow>
   parse_attr_loop (c # cs) (Suc n) = map_sum id ((#) c) (parse_attr_loop cs n)"
  by (simp add: parse_attr_loop.simps [of "c # cs" "Suc n"])

lemma parse_attr_loop_esc:
  "hex_to_byte x y = Inr b \<Longrightarrow>
   parse_attr_loop (CHR ''%'' # x # y # cs) (Suc (Suc (Suc n))) = map_sum id ((#) b) (parse_attr_loop cs n)"
  by (simp add: parse_attr_loop.simps [of "CHR ''%'' # x # y # cs" "Suc (Suc (Suc n))"] numeral_2_eq_2 numeral_3_eq_3)

lemma parse_attr_loop_0 [simp]: "parse_attr_loop str 0 = Inr []"
  by (simp add: parse_attr_loop.simps [of str 0])

lemma parse_attr_loop_byte_to_hex:
  "parse_attr_loop (byte_to_hex c bin @ rest) (length (byte_to_hex c bin) + n) =
     map_sum id ((#) c) (parse_attr_loop rest n)"
proof -
  have "c \<noteq> NUL \<and> c \<noteq> CHR ''%''" if "\<not> (of_char c :: nat) < of_char CHR 0x27"
    using that by auto
  then show ?thesis
    by (auto simp: byte_to_hex_def Let_def parse_attr_loop_lit parse_attr_loop_esc hex_to_byte_hex)
qed

lemma parse_attr_loop_encode:
  "parse_attr_loop (concat (map (\<lambda>b. byte_to_hex b bin) v) @ rest)
     (length (concat (map (\<lambda>b. byte_to_hex b bin) v))) = Inr v"
  by (induction v) (simp_all add: parse_attr_loop_byte_to_hex)


section \<open>Components of a printed URI\<close>

lemma hex_digit_not_sep: "n < 16 \<Longrightarrow> \<not> is_sep (hex_digit n) \<and> hex_digit n \<noteq> NUL"
proof -
  assume "n < 16"
  then have "n \<in> set [0..<16]" by simp
  moreover have "\<forall>n \<in> set [0..<16]. \<not> is_sep (hex_digit n) \<and> hex_digit n \<noteq> NUL" by code_simp
  ultimately show ?thesis by blast
qed

lemma byte_to_hex_safe: "x \<in> set (byte_to_hex c bin) \<Longrightarrow> \<not> is_sep x \<and> x \<noteq> NUL"
proof -
  have d: "(of_char c :: nat) div 16 < 16" by (rule less_mult_imp_div_less) simp
  assume "x \<in> set (byte_to_hex c bin)"
  then show ?thesis
    using hex_digit_not_sep [OF d] hex_digit_not_sep [of "of_char c mod 16"]
    by (auto simp: byte_to_hex_def Let_def is_sep_def split: if_splits)
qed

definition enc :: "bool \<Rightarrow> bytes \<Rightarrow> string" where
  "enc bin v = concat (map (\<lambda>b. byte_to_hex b bin) v)"

lemma enc_safe: "x \<in> set (enc bin v) \<Longrightarrow> \<not> is_sep x \<and> x \<noteq> NUL"
  by (auto simp: enc_def dest: byte_to_hex_safe)

lemma parse_attr_enc: "(\<And>n. mem n) \<Longrightarrow> parse_attr mem (enc bin v @ rest) (length (enc bin v)) = Inr v"
  unfolding parse_attr_def enc_def by (simp only: parse_attr_loop_encode) simp

lemma parse_utf8str_enc:
  "(\<And>n. mem n) \<Longrightarrow> NUL \<notin> set v \<Longrightarrow> parse_utf8str mem (enc bin v @ rest) (length (enc bin v)) = Inr v"
  by (simp add: parse_utf8str_def parse_attr_enc)

lemma comp_len_append:
  "(\<And>x. x \<in> set body \<Longrightarrow> \<not> is_sep x) \<Longrightarrow> comp_len (body @ CHR '';'' # rest) = length body"
  by (simp add: comp_len_def is_sep_def)

lemma comp_len_all: "(\<And>x. x \<in> set body \<Longrightarrow> \<not> is_sep x) \<Longrightarrow> comp_len body = length body"
  by (metis (mono_tags, lifting) comp_len_def takeWhile_eq_all_conv)

lemma parse_uri_loop_step:
  assumes "match_component cs (attr @ CHR ''='' # val @ CHR '';'' # rest) = Some (attr, h)"
    and "\<And>x. x \<in> set (attr @ val) \<Longrightarrow> \<not> is_sep x"
    and "h u (val @ CHR '';'' # rest) (length val) = Inr u'"
  shows "parse_uri_loop cs u (attr @ CHR ''='' # val @ CHR '';'' # rest) = parse_uri_loop cs u' rest"
proof -
  let ?p = "attr @ CHR ''='' # val @ CHR '';'' # rest"
  have len: "comp_len ?p = length attr + 1 + length val"
    using comp_len_append [of "attr @ CHR ''='' # val" rest] assms(2) by (auto simp: is_sep_def)
  show ?thesis
    unfolding parse_uri_loop.simps [of cs u ?p] Let_def assms(1) len using assms(3) by simp
qed

lemma match_ucmap:
  "match_component (ucmap mem pf) (''model'' @ CHR ''='' # x) =
     Some (''model'', \<lambda>u s n. map_sum id (\<lambda>v. u\<lparr>u_model := Some v\<rparr>) (parse_utf8str mem s n))"
  "match_component (ucmap mem pf) (''manufacturer'' @ CHR ''='' # x) =
     Some (''manufacturer'', \<lambda>u s n. map_sum id (\<lambda>v. u\<lparr>u_manufacturer := Some v\<rparr>) (parse_utf8str mem s n))"
  "match_component (ucmap mem pf) (''serial'' @ CHR ''='' # x) =
     Some (''serial'', \<lambda>u s n. map_sum id (\<lambda>v. u\<lparr>u_serial := Some v\<rparr>) (parse_utf8str mem s n))"
  "match_component (ucmap mem pf) (''token'' @ CHR ''='' # x) =
     Some (''token'', \<lambda>u s n. map_sum id (\<lambda>v. u\<lparr>u_token := Some v\<rparr>) (parse_utf8str mem s n))"
  "match_component (ucmap mem pf) (''id'' @ CHR ''='' # x) =
     Some (''id'', \<lambda>u s n. map_sum id (\<lambda>v. u\<lparr>u_id := v\<rparr>) (parse_ck_attribute mem s n (u_id u)))"
  "match_component (ucmap mem pf) (''object'' @ CHR ''='' # x) =
     Some (''object'', \<lambda>u s n. map_sum id (\<lambda>v. u\<lparr>u_object := v\<rparr>) (parse_ck_attribute mem s n (u_object u)))"
  "match_component (ucmap mem pf) (''type'' @ CHR ''='' # x) =
     Some (''type'', \<lambda>u s n. map_sum id (\<lambda>v. u\<lparr>u_type := v\<rparr>) (parse_class mem s n))"
  by (simp_all add: match_component_def ucmap_def)


text \<open>
  What a printed URI denotes: the token fields cut at their size and first NUL, the identifier and
  the label with their bytes, and the class.
\<close>

definition field_value :: "bytes \<Rightarrow> nat \<Rightarrow> string option" where
  "field_value f n = (if char_at f 0 = NUL then None else Some (c_str (take n f)))"

definition attr_value :: "CK_ATTRIBUTE_TYPE \<Rightarrow> ck_attribute option \<Rightarrow> ck_attribute" where
  "attr_value t a =
     (case a of
        Some cka \<Rightarrow> if ca_ulValueLen cka > 0 then cka\<lparr>ca_type := t\<rparr>
                    else \<lparr>ca_type = t, ca_pValue = None, ca_ulValueLen = 0\<rparr>
      | None \<Rightarrow> \<lparr>ca_type = t, ca_pValue = None, ca_ulValueLen = 0\<rparr>)"

definition wf_attr :: "ck_attribute \<Rightarrow> bool" where
  "wf_attr a \<longleftrightarrow> (case ca_pValue a of
     None \<Rightarrow> ca_ulValueLen a = 0 | Some v \<Rightarrow> length v = unat (ca_ulValueLen a))"

definition attr_no_NUL :: "ck_attribute \<Rightarrow> bool" where
  "attr_no_NUL a \<longleftrightarrow> (case ca_pValue a of None \<Rightarrow> True | Some v \<Rightarrow> NUL \<notin> set v)"

definition obj_uri ::
    "CK_OBJECT_CLASS \<Rightarrow> ck_token_info \<Rightarrow> ck_attribute option \<Rightarrow> ck_attribute option \<Rightarrow> p11prov_uri" where
  "obj_uri cls token cka_id cka_label = empty_uri\<lparr>
     u_model := field_value (ti_model token) 16,
     u_manufacturer := field_value (ti_manufacturerID token) 32,
     u_serial := field_value (ti_serialNumber token) 16,
     u_token := field_value (ti_label token) 32,
     u_id := attr_value CKA_ID cka_id,
     u_object := attr_value CKA_LABEL cka_label,
     u_type := cls\<rparr>"

lemma char_at_c_str: "char_at f 0 \<noteq> NUL \<Longrightarrow> 0 < n \<Longrightarrow> 0 < length (c_str (take n f))"
  by (cases f; cases n) (auto simp: c_str_def)

lemma take_c_str: "take (length (c_str (take n f))) f = c_str (take n f)"
proof -
  have "take (length (c_str (take n f))) (take n f) = c_str (take n f)"
    unfolding c_str_def by (rule takeWhile_eq_take [symmetric])
  then show ?thesis
    using c_str_length_le [of "take n f"] by simp
qed

lemma comp_str_token:
  assumes "\<And>n. mem n" and "0 < n" and "length name \<noteq> 2"
  shows "comp_str (token_component mem name f n) =
    (case field_value f n of None \<Rightarrow> [] | Some v \<Rightarrow> name @ CHR ''='' # enc False v @ '';'')"
proof (cases "char_at f 0 = NUL")
  case True
  then show ?thesis by (simp add: token_component_def field_value_def)
next
  case False
  have "take (length (c_str (take n f))) f = c_str (take n f)" by (rule take_c_str)
  moreover have "length (c_str (take n f)) \<noteq> 0" using char_at_c_str [OF False assms(2)] by simp
  ultimately show ?thesis
    using False assms by (simp add: token_component_def field_value_def uri_component_def enc_def Let_def)
qed

lemma comp_str_attr:
  assumes "\<And>n. mem n" and "pred_option wf_attr a"
  shows "comp_str (attr_component mem name a) =
    (case ca_pValue (attr_value t a) of None \<Rightarrow> []
     | Some v \<Rightarrow> name @ CHR ''='' # enc (length name = 2) v @ '';'')"
proof (cases a)
  case None
  then show ?thesis by (simp add: attr_component_def attr_value_def)
next
  case (Some x)
  show ?thesis
  proof (cases "ca_ulValueLen x = 0")
    case True
    then show ?thesis using Some by (simp add: attr_component_def attr_value_def)
  next
    case False
    then obtain v where v: "ca_pValue x = Some v" "length v = unat (ca_ulValueLen x)"
      using assms(2) Some by (auto simp: wf_attr_def split: option.splits)
    have "ca_ulValueLen x > 0" using False by (simp add: word_gt_0)
    moreover have "unat (ca_ulValueLen x) \<noteq> 0" using False by (simp add: unat_eq_0)
    ultimately show ?thesis
      using Some v assms(1) by (simp add: attr_component_def attr_value_def uri_component_def enc_def Let_def)
  qed
qed

lemma parse_str_component:
  assumes "match_component cs (attr @ CHR ''='' # enc b v @ CHR '';'' # rest) =
      Some (attr, \<lambda>u s n. map_sum id (upd u) (parse_utf8str mem s n))"
    and "\<And>x. x \<in> set attr \<Longrightarrow> \<not> is_sep x" and "\<And>n. mem n" and "NUL \<notin> set v"
  shows "parse_uri_loop cs u (attr @ CHR ''='' # enc b v @ CHR '';'' # rest) = parse_uri_loop cs (upd u v) rest"
  using assms(2-) by (intro parse_uri_loop_step [OF assms(1)]) (auto simp: parse_utf8str_enc dest: enc_safe)


lemma set_type_sep: "\<And>x. x \<in> set ''model'' \<union> set ''manufacturer'' \<union> set ''serial'' \<union> set ''token'' \<union>
    set ''id'' \<union> set ''object'' \<union> set ''type'' \<Longrightarrow> \<not> is_sep x"
  by (auto simp: is_sep_def)

lemma field_value_no_NUL: "field_value f n = Some v \<Longrightarrow> NUL \<notin> set v"
  by (auto simp: field_value_def split: if_splits)

lemma parse_opt_str:
  assumes "\<And>x. match_component cs (attr @ CHR ''='' # x) =
      Some (attr, \<lambda>u s n. map_sum id (\<lambda>v. upd (Some v) u) (parse_utf8str mem s n))"
    and "\<And>x. x \<in> set attr \<Longrightarrow> \<not> is_sep x" and "\<And>n. mem n"
    and "\<And>v. f = Some v \<Longrightarrow> NUL \<notin> set v" and "upd None u = u"
  shows "parse_uri_loop cs u ((case f of None \<Rightarrow> [] | Some v \<Rightarrow> attr @ CHR ''='' # enc b v @ '';'') @ rest) =
         parse_uri_loop cs (upd f u) rest"
proof (cases f)
  case None
  then show ?thesis using assms(5) by simp
next
  case (Some v)
  then show ?thesis
    using parse_str_component [of cs attr b v rest "\<lambda>u v. upd (Some v) u" mem u] assms by simp
qed

lemma parse_opt_attr:
  assumes "\<And>x. match_component cs (attr @ CHR ''='' # x) =
      Some (attr, \<lambda>u s n. map_sum id (\<lambda>v. upd v u) (parse_ck_attribute mem s n (sel u)))"
    and "\<And>x. x \<in> set attr \<Longrightarrow> \<not> is_sep x" and "\<And>n. mem n"
    and "sel u = \<lparr>ca_type = t, ca_pValue = None, ca_ulValueLen = 0\<rparr>" and "t = CKA_ID \<or> t = CKA_LABEL"
    and "pred_option wf_attr a" 
    and "t = CKA_LABEL \<Longrightarrow> pred_option attr_no_NUL a"
    and "upd (sel u) u = u"
  shows "parse_uri_loop cs u ((case ca_pValue (attr_value t a) of None \<Rightarrow> []
           | Some v \<Rightarrow> attr @ CHR ''='' # enc b v @ '';'') @ rest) =
         parse_uri_loop cs (upd (attr_value t a) u) rest"
proof (cases "ca_pValue (attr_value t a)")
  case None
  then have "attr_value t a = sel u"
    using assms(4,6) by (auto simp: attr_value_def wf_attr_def word_gt_0 split: option.splits if_splits)
  then show ?thesis using None assms(8) by simp
next
  case (Some v)
  then obtain x where x: "a = Some x" "ca_ulValueLen x > 0" "ca_pValue x = Some v"
    by (auto simp: attr_value_def split: option.splits if_splits)
  then have av: "attr_value t a = \<lparr>ca_type = t, ca_pValue = Some v, ca_ulValueLen = of_nat (length v)\<rparr>"
    using assms(6) x(1) by (simp add: attr_value_def wf_attr_def)
  have "parse_uri_loop cs u (attr @ CHR ''='' # enc b v @ CHR '';'' # rest) =
        parse_uri_loop cs (upd (attr_value t a) u) rest"
  proof (rule parse_uri_loop_step [OF assms(1)])
    show "\<And>x. x \<in> set (attr @ enc b v) \<Longrightarrow> \<not> is_sep x"
      using assms(2) by (auto dest: enc_safe)
    show "map_sum id (\<lambda>v. upd v u) (parse_ck_attribute mem (enc b v @ CHR '';'' # rest) (length (enc b v)) (sel u)) =
          Inr (upd (attr_value t a) u)"
      unfolding av using assms(3,5,7) x(1,3)
      by (auto simp: attr_no_NUL_def parse_ck_attribute_def assms(4) parse_attr_enc parse_utf8str_enc)
  qed
  then show ?thesis using Some by simp
qed


text \<open>Printing with enough memory always returns the formatted string, whatever the size hint.\<close>

lemma alloc_sprintf_ok: "(\<And>n. mem n) \<Longrightarrow> p11prov_alloc_sprintf mem hint s = SpBuf s"
  by (simp add: p11prov_alloc_sprintf_def numeral_2_eq_2)

lemma parse_attr_loop_plain:
  "NUL \<notin> set s \<Longrightarrow> CHR ''%'' \<notin> set s \<Longrightarrow> parse_attr_loop s (length s) = Inr s"
  by (induction s) (auto simp: parse_attr_loop_lit)

lemma parse_class_type:
  "(\<And>n. mem n) \<Longrightarrow> class_type_name cls = Some t \<Longrightarrow> parse_class mem t (length t) = Inr cls"
proof -
  assume mem: "\<And>n. mem n" and t: "class_type_name cls = Some t"
  have "NUL \<notin> set t \<and> CHR ''%'' \<notin> set t"
    using t by (auto simp: class_type_name_def split: if_splits)
  then have "parse_attr mem t (length t) = Inr t"
    using mem by (simp add: parse_attr_def parse_attr_loop_plain)
  then show ?thesis
    using t by (auto simp: class_type_name_def parse_class_def parse_utf8str_def split: if_splits)
qed

lemma parse_type_tail:
  assumes "\<And>n. mem n" and t: "class_type_name cls = Some t"
  shows "parse_uri_loop (ucmap mem pf) u (''type'' @ CHR ''='' # t) = Inr (u\<lparr>u_type := cls\<rparr>)"
proof -
  have "\<not> is_sep x" if "x \<in> set (''type='' @ t)" for x
    using t that by (auto simp: class_type_name_def is_sep_def split: if_splits)
  then have "comp_len (''type'' @ CHR ''='' # t) = length (''type'' @ CHR ''='' # t)"
    by (intro comp_len_all) auto
  then show ?thesis
    unfolding parse_uri_loop.simps [of "ucmap mem pf" u "''type'' @ CHR ''='' # t"] Let_def match_ucmap(7)
    using parse_class_type [OF assms] by simp
qed

lemma parse_printed_tail:
  assumes "\<And>n. mem n" and "class_type_name cls = Some t"
    and "pred_option wf_attr cka_id" and "pred_option wf_attr cka_label"
    and "pred_option attr_no_NUL cka_label"
  shows "parse_uri_loop (ucmap mem pf) empty_uri
     (comp_str (token_component mem ''model'' (ti_model token) 16) @
      comp_str (token_component mem ''manufacturer'' (ti_manufacturerID token) 32) @
      comp_str (token_component mem ''serial'' (ti_serialNumber token) 16) @
      comp_str (token_component mem ''token'' (ti_label token) 32) @
      comp_str (attr_component mem ''id'' cka_id) @ comp_str (attr_component mem ''object'' cka_label) @
      ''type'' @ CHR ''='' # t) = Inr (obj_uri cls token cka_id cka_label)"
proof -
  let ?cs = "ucmap mem pf"
  let ?u1 = "empty_uri\<lparr>u_model := field_value (ti_model token) 16\<rparr>"
  let ?u2 = "?u1\<lparr>u_manufacturer := field_value (ti_manufacturerID token) 32\<rparr>"
  let ?u3 = "?u2\<lparr>u_serial := field_value (ti_serialNumber token) 16\<rparr>"
  let ?u4 = "?u3\<lparr>u_token := field_value (ti_label token) 32\<rparr>"
  let ?u5 = "?u4\<lparr>u_id := attr_value CKA_ID cka_id\<rparr>"
  let ?u6 = "?u5\<lparr>u_object := attr_value CKA_LABEL cka_label\<rparr>"
  note str = parse_opt_str [where cs = ?cs and mem = mem, OF _ _ assms(1) field_value_no_NUL]
  have 1: "parse_uri_loop ?cs empty_uri (comp_str (token_component mem ''model'' (ti_model token) 16) @ r)
      = parse_uri_loop ?cs ?u1 r" for r
    unfolding comp_str_token [OF assms(1), of 16 "''model''", simplified]
    by (rule str [where upd = "\<lambda>v u. u\<lparr>u_model := v\<rparr>"])
      (use match_ucmap(1) set_type_sep in \<open>auto simp: empty_uri_def\<close>)
  have 2: "parse_uri_loop ?cs ?u1 (comp_str (token_component mem ''manufacturer'' (ti_manufacturerID token) 32) @ r)
      = parse_uri_loop ?cs ?u2 r" for r
    unfolding comp_str_token [OF assms(1), of 32 "''manufacturer''", simplified]
    by (rule str [where upd = "\<lambda>v u. u\<lparr>u_manufacturer := v\<rparr>"])
      (use match_ucmap(2) set_type_sep in \<open>auto simp: empty_uri_def\<close>)
  have 3: "parse_uri_loop ?cs ?u2 (comp_str (token_component mem ''serial'' (ti_serialNumber token) 16) @ r)
      = parse_uri_loop ?cs ?u3 r" for r
    unfolding comp_str_token [OF assms(1), of 16 "''serial''", simplified]
    by (rule str [where upd = "\<lambda>v u. u\<lparr>u_serial := v\<rparr>"])
      (use match_ucmap(3) set_type_sep in \<open>auto simp: empty_uri_def\<close>)
  have 4: "parse_uri_loop ?cs ?u3 (comp_str (token_component mem ''token'' (ti_label token) 32) @ r)
      = parse_uri_loop ?cs ?u4 r" for r
    unfolding comp_str_token [OF assms(1), of 32 "''token''", simplified]
    by (rule str [where upd = "\<lambda>v u. u\<lparr>u_token := v\<rparr>"])
      (use match_ucmap(4) set_type_sep in \<open>auto simp: empty_uri_def\<close>)
  have 5: "parse_uri_loop ?cs ?u4 (comp_str (attr_component mem ''id'' cka_id) @ r) = parse_uri_loop ?cs ?u5 r" for r
    unfolding comp_str_attr [where mem = mem and a = cka_id and name = "''id''" and t = CKA_ID, OF assms(1,3)]
    by (rule parse_opt_attr [where upd = "\<lambda>v u. u\<lparr>u_id := v\<rparr>" and sel = u_id and mem = mem and t = CKA_ID and a = cka_id])
      (use match_ucmap(5) set_type_sep assms in \<open>auto simp: empty_uri_def\<close>)
  have 6: "parse_uri_loop ?cs ?u5 (comp_str (attr_component mem ''object'' cka_label) @ r) = parse_uri_loop ?cs ?u6 r" for r
    unfolding comp_str_attr [where mem = mem and a = cka_label and name = "''object''" and t = CKA_LABEL, OF assms(1,4)]
    by (rule parse_opt_attr [where upd = "\<lambda>v u. u\<lparr>u_object := v\<rparr>" and sel = u_object and mem = mem])
      (use match_ucmap(6) set_type_sep assms in \<open>auto simp: empty_uri_def\<close>)
  have 7: "parse_uri_loop ?cs ?u6 (''type'' @ CHR ''='' # t) = Inr (obj_uri cls token cka_id cka_label)"
    unfolding parse_type_tail [OF assms(1,2)] by (simp add: obj_uri_def)
  show ?thesis unfolding 1 2 3 4 5 6 7 ..
qed


text \<open>
  C4. Round trip: with memory available, the URI printed for an object of a printable class on a
  token parses back to the token's fields, the object's identifier, label and class. The label
  must not contain a NUL byte, since the parser takes it as a string.
\<close>

theorem obj_to_uri_parse_roundtrip:
  assumes "class_type_name cls = Some t"
    and "pred_option wf_attr cka_id" and "pred_option wf_attr cka_label"
    and "pred_option attr_no_NUL cka_label"
  shows "\<exists>s. p11prov_obj_to_uri (\<lambda>_. True) cls (Some token) cka_id cka_label = SpBuf s \<and>
             p11prov_parse_uri (\<lambda>_. True) pf s = Some (obj_uri cls token cka_id cka_label)"
proof -
  have pre: "p11prov_parse_uri (\<lambda>_. True) pf (''pkcs11:'' @ r) = Some u"
    if "parse_uri_loop (ucmap (\<lambda>_. True) pf) empty_uri r = Inr u" for r u
    using that by (simp add: p11prov_parse_uri_def numeral_eq_Suc)
  have tail: "parse_uri_loop (ucmap (\<lambda>_. True) pf) empty_uri
     (comp_str (token_component (\<lambda>_. True) ''model'' (ti_model token) 16) @
      comp_str (token_component (\<lambda>_. True) ''manufacturer'' (ti_manufacturerID token) 32) @
      comp_str (token_component (\<lambda>_. True) ''serial'' (ti_serialNumber token) 16) @
      comp_str (token_component (\<lambda>_. True) ''token'' (ti_label token) 32) @
      comp_str (attr_component (\<lambda>_. True) ''id'' cka_id) @ comp_str (attr_component (\<lambda>_. True) ''object'' cka_label) @
      ''type='' @ t) = Inr (obj_uri cls token cka_id cka_label)"
    using parse_printed_tail [where mem = "\<lambda>_. True" and pf = pf and token = token, OF TrueI assms] by simp
  show ?thesis
    unfolding p11prov_obj_to_uri_def assms(1) option.case Let_def alloc_sprintf_ok [where mem = "\<lambda>_. True", OF TrueI]
    using pre [OF tail] by blast
qed

theorem obj_to_uri_parse_roundtrip_witness:
  "\<exists>s. p11prov_obj_to_uri (\<lambda>_. True) CKO_PRIVATE_KEY
      (Some \<lparr>ti_label = ''a;b'', ti_manufacturerID = [], ti_model = ''m/1'', ti_serialNumber = ''0001'',
             ti_flags = 0, ti_ulMaxSessionCount = 0\<rparr>)
      (Some \<lparr>ca_type = CKA_ID, ca_pValue = Some [CHR 0x00, CHR 0xFF], ca_ulValueLen = 2\<rparr>) None = SpBuf s \<and>
   p11prov_parse_uri (\<lambda>_. True) (\<lambda>_ _. PinNoFile) s =
     Some (obj_uri CKO_PRIVATE_KEY
      \<lparr>ti_label = ''a;b'', ti_manufacturerID = [], ti_model = ''m/1'', ti_serialNumber = ''0001'',
             ti_flags = 0, ti_ulMaxSessionCount = 0\<rparr>
      (Some \<lparr>ca_type = CKA_ID, ca_pValue = Some [CHR 0x00, CHR 0xFF], ca_ulValueLen = 2\<rparr>) None)"
  by (rule obj_to_uri_parse_roundtrip [where t = "''private''"])
    (simp_all add: class_type_name_def wf_attr_def)

section \<open>Matching, copying, trimming\<close>

lemma field_matches_own: "\<not> field_mismatch (field_value f n) n f"
proof -
  have "take n (c_str (take n f)) = take n (c_str f)"
    unfolding c_str_def by (induction f arbitrary: n) (auto simp: take_Cons split: nat.splits)
  then show ?thesis by (auto simp: field_mismatch_def field_value_def strneq_iff)
qed


definition wf_uri :: "p11prov_uri \<Rightarrow> bool" where
  "wf_uri u \<longleftrightarrow> wf_attr (u_id u) \<and> wf_attr (u_object u)"

text \<open>Equality of attributes as their readers see them: an empty value is no value.\<close>

definition norm_attr :: "ck_attribute \<Rightarrow> ck_attribute" where
  "norm_attr a = (if ca_ulValueLen a = 0 then a\<lparr>ca_pValue := None\<rparr> else a)"

lemma copy_attr_ok:
  "wf_attr a \<Longrightarrow> p11prov_copy_attr mem a = (if ca_ulValueLen a = 0 \<or> mem (unat (ca_ulValueLen a)) then Some (norm_attr a) else None)"
  by (cases a) (auto simp: p11prov_copy_attr_def norm_attr_def wf_attr_def split: option.splits)

lemma copy_str_ok: "copy_str mem s = Some t \<Longrightarrow> t = s"
  by (auto simp: copy_str_def split: option.splits if_splits)

text \<open>
  A copy of a URI is the URI, up to the representation of empty attributes, whatever memory
  is available when it is returned at all; and it is returned when memory is available.
\<close>

lemma copy_uri_same:
  assumes "wf_uri u"
  shows "(\<forall>v. p11prov_copy_uri mem u = Some v \<longrightarrow> v = u\<lparr>u_id := norm_attr (u_id u), u_object := norm_attr (u_object u)\<rparr>) \<and>
         p11prov_copy_uri (\<lambda>_. True) u = Some (u\<lparr>u_id := norm_attr (u_id u), u_object := norm_attr (u_object u)\<rparr>)"
proof -
  have s: "copy_str (\<lambda>_. True) x = Some x" for x by (simp add: copy_str_def split: option.split)
  show ?thesis
    using assms
    by (cases u) (auto simp: p11prov_copy_uri_def wf_uri_def copy_attr_ok s bind_eq_Some_conv split: if_splits dest!: copy_str_ok)
qed

lemma copy_uri_same_example:
  "p11prov_copy_uri (\<lambda>_. True) empty_uri = Some empty_uri"
proof -
  have "wf_uri empty_uri" by (simp add: wf_uri_def wf_attr_def empty_uri_def)
  from copy_uri_same [OF this] show ?thesis by (simp add: norm_attr_def empty_uri_def)
qed

lemma trim_padded_loop_pad:
  "x = [] \<or> last x \<noteq> CHR '' '' \<Longrightarrow>
   trim_padded_loop (x @ replicate n CHR '' '' @ r) (length x + n) = x @ replicate n NUL @ r"
proof (induction n arbitrary: r)
  case 0
  then show ?case
    by (cases x rule: rev_cases) (auto simp: trim_padded_loop.simps [of "_ @ _ # r"] nth_append trim_padded_loop.simps [of r 0])
next
  case (Suc n)
  let ?y = "x @ replicate n CHR '' ''"
  have "trim_padded_loop (?y @ CHR '' '' # r) (Suc (length ?y)) = trim_padded_loop (?y @ NUL # r) (length ?y)"
    unfolding trim_padded_loop.simps [of "?y @ CHR '' '' # r" "Suc (length ?y)"]
    by (simp only: diff_Suc_1 nth_append_length list_update_length) simp
  then show ?case using Suc by (simp add: replicate_app_Cons_same)
qed

text \<open>
  Trimming a blank-padded field replaces exactly the blanks at its end by NULs, keeps the
  length, and leaves blanks inside the text alone.
\<close>

lemma trim_padded_field_spec:
  assumes "x = [] \<or> last x \<noteq> CHR '' ''"
  shows "trim_padded_field (x @ replicate n CHR '' '') = x @ replicate n NUL"
  using trim_padded_loop_pad [OF assms, of n "[]"] by (simp add: trim_padded_field_def)

section \<open>Lenient numbers\<close>

text \<open>
  \<open>strtoul\<close> accepts an empty field as 0 and a negative number modulo the word size, so an empty
  \<^verbatim>\<open>slot-id\<close> selects slot 0, and \<^verbatim>\<open>slot-id=-1\<close> means that no slot is selected.
\<close>

lemma slot_id_empty_is_zero:
  "p11prov_parse_uri (\<lambda>_. True) pf ''pkcs11:slot-id='' = Some (empty_uri\<lparr>u_slot_id := 0\<rparr>)"
  by (simp add: p11prov_parse_uri_def numeral_eq_Suc parse_uri_loop.simps [of _ _ "CHR ''s'' # _"] Let_def
      comp_len_def is_sep_def match_component_def ucmap_def parse_ulong_def strtoul_def)

lemma slot_id_minus_one_is_unset:
  "p11prov_parse_uri (\<lambda>_. True) pf ''pkcs11:slot-id=-1'' = Some empty_uri"
proof -
  have "parse_ulong ''-1'' 2 = Inr CK_UNAVAILABLE_INFORMATION"
    by (simp add: parse_ulong_def strtoul_def Let_def c_isspace_def c_isdigit_def)
  then show ?thesis
    by (simp add: p11prov_parse_uri_def numeral_eq_Suc parse_uri_loop.simps [of _ _ "CHR ''s'' # _"] Let_def
      comp_len_def is_sep_def match_component_def ucmap_def empty_uri_def)
qed


end
