(* ===== verification/P11_World.thy ===== *)
theory P11_World
  imports P11_Uri
begin

text \<open>
  The state the stateful components share. The C program keeps sessions, session pools, objects
  and object pools in heap blocks that refer to each other by pointers; the model keeps one
  heap per type of block and addresses are natural numbers. \<open>h_live\<close> says which blocks are
  allocated, so that a use after \<open>free\<close> is visible: a freed cell keeps its last contents.

  Everything that is not under \<^verbatim>\<open>src/\<close> is in the record \<open>p11env\<close>: the functions of the PKCS#11
  module (as reached through the wrappers of \<^verbatim>\<open>interface.gen.c\<close>), the allocator, pthread locks,
  the clock, and the prompts of OpenSSL. Each is an arbitrary function on an arbitrary
  environment state \<open>'e\<close>; no property assumes more of it than its statement says.
\<close>

section \<open>Heaps\<close>

type_synonym addr = nat

record 'a heap =
  h_cells :: "addr \<Rightarrow> 'a"
  h_live :: "addr \<Rightarrow> bool"
  h_brk :: addr

definition hupd :: "addr \<Rightarrow> ('a \<Rightarrow> 'a) \<Rightarrow> 'a heap \<Rightarrow> 'a heap" where
  "hupd a f h = h\<lparr>h_cells := (h_cells h)(a := f (h_cells h a))\<rparr>"

definition halloc :: "'a \<Rightarrow> 'a heap \<Rightarrow> 'a heap" where
  "halloc v h = h\<lparr>h_cells := (h_cells h)(h_brk h := v), h_live := (h_live h)(h_brk h := True),
                  h_brk := Suc (h_brk h)\<rparr>"

definition hfree :: "addr \<Rightarrow> 'a heap \<Rightarrow> 'a heap" where
  "hfree a h = h\<lparr>h_live := (h_live h)(a := False)\<rparr>"

definition hempty :: "'a \<Rightarrow> 'a heap" where
  "hempty v = \<lparr>h_cells = (\<lambda>_. v), h_live = (\<lambda>_. False), h_brk = 0\<rparr>"

lemma heap_simps [simp]:
  "h_cells (hupd a f h) b = (if b = a then f (h_cells h a) else h_cells h b)"
  "h_live (hupd a f h) = h_live h" "h_brk (hupd a f h) = h_brk h"
  "h_cells (halloc v h) b = (if b = h_brk h then v else h_cells h b)"
  "h_live (halloc v h) b = (b = h_brk h \<or> h_live h b)" "h_brk (halloc v h) = Suc (h_brk h)"
  "h_cells (hfree a h) = h_cells h" "h_live (hfree a h) b = (b \<noteq> a \<and> h_live h b)"
  "h_brk (hfree a h) = h_brk h"
  by (simp_all add: hupd_def halloc_def hfree_def)

text \<open>Allocated blocks lie below the break.\<close>

definition heap_ok :: "'a heap \<Rightarrow> bool" where
  "heap_ok h \<longleftrightarrow> (\<forall>a. h_live h a \<longrightarrow> a < h_brk h)"

lemma heap_ok_preserved [simp]:
  "heap_ok h \<Longrightarrow> heap_ok (hupd a f h)" "heap_ok h \<Longrightarrow> heap_ok (halloc v h)" "heap_ok h \<Longrightarrow> heap_ok (hfree a h)"
  by (auto simp: heap_ok_def less_SucI)

section \<open>Sessions, slots, objects and the context\<close>

record session =
  s_pool :: "addr option"
  s_slotid :: CK_SLOT_ID
  s_session :: CK_SESSION_HANDLE
  s_state :: CK_STATE
  s_flags :: CK_FLAGS
  s_in_use :: bool
  s_cb :: "nat option"
  s_refcnt :: int
  s_is_login :: bool
  s_is_broken :: bool

text \<open>The array \<open>sessions\<close> and \<open>num_sessions\<close> are the list \<open>sp_sessions\<close> and its length.\<close>

record session_pool =
  sp_slotid :: CK_SLOT_ID
  sp_max_sessions :: CK_ULONG
  sp_max_cached_sessions :: CK_ULONG
  sp_sessions :: "addr list"

record p11prov_key =
  k_type :: CK_KEY_TYPE
  k_always_auth :: bool
  k_bit_size :: CK_ULONG
  k_size :: CK_ULONG
  k_param_set :: CK_ULONG

record p11prov_crt =
  crt_type :: CK_ULONG
  crt_category :: CK_ULONG
  crt_trusted :: bool

text \<open>
  The union \<open>data\<close> is kept as its two members; the code always selects the member by the class.
\<close>

record p11prov_obj =
  o_raf :: bool
  o_slotid :: CK_SLOT_ID
  o_handle :: CK_OBJECT_HANDLE
  o_class :: CK_OBJECT_CLASS
  o_cached :: CK_OBJECT_HANDLE
  o_cka_copyable :: bool
  o_cka_token :: bool
  o_refresh_uri :: "p11prov_uri option"
  o_public_uri :: "string option"
  o_key :: p11prov_key
  o_crt :: p11prov_crt
  o_attrs :: "ck_attribute list"
  o_refcnt :: int
  o_poolid :: int
  o_assoc_obj :: "addr option"
  o_ref_session :: "addr option"

record obj_pool =
  op_slotid :: CK_SLOT_ID
  op_objects :: "addr option list"
  op_num :: int
  op_first_free :: int

text \<open>
  The size of the array \<open>objects\<close> is the length of \<open>op_objects\<close>. A slot's \<open>mechs\<close> is \<open>None\<close> for a
  NULL pointer; \<open>sl_mechs_live\<close> says that the block it points to is allocated.
\<close>

record p11prov_slot =
  sl_id :: CK_SLOT_ID
  sl_slot :: ck_slot_info
  sl_token :: ck_token_info
  sl_login_info :: "string option"
  sl_cached_pin :: "string option"
  sl_bad_pin :: "string option"
  sl_pool :: "addr option"
  sl_objects :: "addr option"
  sl_mechs :: "CK_MECHANISM_TYPE list option"
  sl_mechs_live :: bool
  sl_nmechs :: nat
  sl_profiles :: "CK_ULONG list"

record slots_ctx =
  sc_slots :: "p11prov_slot list"
  sc_default_slot :: CK_SLOT_ID

datatype ctx_status = P11PROV_UNINITIALIZED | P11PROV_INITIALIZED | P11PROV_NEEDS_REINIT
  | P11PROV_NO_DEINIT | P11PROV_IN_ERROR

datatype login_behavior = PUBKEY_LOGIN_AUTO | PUBKEY_LOGIN_ALWAYS | PUBKEY_LOGIN_NEVER

datatype cache_keys = P11PROV_CACHE_KEYS_NEVER | P11PROV_CACHE_KEYS_IN_SESSION

record quirk =
  q_id :: CK_SLOT_ID
  q_name :: string
  q_data :: bytes

record p11prov_ctx =
  cx_status :: ctx_status
  cx_pin :: "string option"
  cx_allow_export :: int
  cx_login_behavior :: login_behavior
  cx_cache_pins :: bool
  cx_cache_keys :: cache_keys
  cx_cache_sessions :: CK_ULONG
  cx_encode_pkey_as_pk11_uri :: bool
  cx_assume_fips :: bool
  cx_no_deinit :: bool
  cx_no_allowed_mechanisms :: bool
  cx_no_session_callbacks :: bool
  cx_blocked_calls :: "64 word"
  cx_blocked_ops :: "nat list"
  cx_quirks :: "quirk list"

text \<open>What \<^verbatim>\<open>OPENSSL_zalloc\<close> gives for each of the types.\<close>

definition zero_session :: session where
  "zero_session = \<lparr>s_pool = None, s_slotid = 0, s_session = 0, s_state = 0, s_flags = 0,
     s_in_use = False, s_cb = None, s_refcnt = 0, s_is_login = False, s_is_broken = False\<rparr>"

definition zero_pool :: session_pool where
  "zero_pool = \<lparr>sp_slotid = 0, sp_max_sessions = 0, sp_max_cached_sessions = 0, sp_sessions = []\<rparr>"

definition zero_obj :: p11prov_obj where
  "zero_obj = \<lparr>o_raf = False, o_slotid = 0, o_handle = 0, o_class = 0, o_cached = 0,
     o_cka_copyable = False, o_cka_token = False, o_refresh_uri = None, o_public_uri = None,
     o_key = \<lparr>k_type = 0, k_always_auth = False, k_bit_size = 0, k_size = 0, k_param_set = 0\<rparr>,
     o_crt = \<lparr>crt_type = 0, crt_category = 0, crt_trusted = False\<rparr>, o_attrs = [], o_refcnt = 0,
     o_poolid = 0, o_assoc_obj = None, o_ref_session = None\<rparr>"

definition zero_obj_pool :: obj_pool where
  "zero_obj_pool = \<lparr>op_slotid = 0, op_objects = [], op_num = 0, op_first_free = 0\<rparr>"

section \<open>The environment\<close>

datatype lock = LkSession addr | LkPool addr | LkObjPool addr | LkSlots | LkQuirks | LkCtxPool | LkModule

text \<open>
  The fields of \<open>CK_INFO\<close> that the provider reads, and what it takes from a \<open>CK_INTERFACE\<close>: the
  version of the function list and the flags.
\<close>

record ck_info =
  ci_cryptokiVersion :: "nat \<times> nat"
  ci_manufacturerID :: bytes
  ci_flags :: CK_FLAGS
  ci_libraryDescription :: bytes
  ci_libraryVersion :: "nat \<times> nat"

record p11prov_interface =
  if_version :: "nat \<times> nat"
  if_flags :: CK_FLAGS

record 'e p11env =
  E_OpenSession :: "CK_SLOT_ID \<Rightarrow> CK_FLAGS \<Rightarrow> addr option \<Rightarrow> 'e \<Rightarrow> (CK_RV \<times> CK_SESSION_HANDLE) \<times> 'e"
  E_CloseSession :: "CK_SESSION_HANDLE \<Rightarrow> 'e \<Rightarrow> CK_RV \<times> 'e"
  E_GetSessionInfo :: "CK_SESSION_HANDLE \<Rightarrow> 'e \<Rightarrow> (CK_RV \<times> CK_STATE \<times> CK_FLAGS) \<times> 'e"
  E_GetTokenInfo :: "CK_SLOT_ID \<Rightarrow> 'e \<Rightarrow> (CK_RV \<times> ck_token_info) \<times> 'e"
  E_GetSlotInfo :: "CK_SLOT_ID \<Rightarrow> 'e \<Rightarrow> (CK_RV \<times> ck_slot_info) \<times> 'e"
  E_GetSlotCount :: "'e \<Rightarrow> (CK_RV \<times> nat) \<times> 'e"
  E_GetSlotList :: "nat \<Rightarrow> 'e \<Rightarrow> (CK_RV \<times> CK_SLOT_ID list) \<times> 'e"
  E_GetMechanismCount :: "CK_SLOT_ID \<Rightarrow> 'e \<Rightarrow> (CK_RV \<times> nat) \<times> 'e"
  E_GetMechanismList :: "CK_SLOT_ID \<Rightarrow> nat \<Rightarrow> 'e \<Rightarrow> (CK_RV \<times> CK_MECHANISM_TYPE list) \<times> 'e"
  E_Login :: "CK_SESSION_HANDLE \<Rightarrow> CK_ULONG \<Rightarrow> string option \<Rightarrow> 'e \<Rightarrow> CK_RV \<times> 'e"
  E_FindObjectsInit :: "CK_SESSION_HANDLE \<Rightarrow> ck_attribute list \<Rightarrow> 'e \<Rightarrow> CK_RV \<times> 'e"
  E_FindObjects :: "CK_SESSION_HANDLE \<Rightarrow> nat \<Rightarrow> 'e \<Rightarrow> (CK_RV \<times> CK_OBJECT_HANDLE list) \<times> 'e"
  E_FindObjectsFinal :: "CK_SESSION_HANDLE \<Rightarrow> 'e \<Rightarrow> CK_RV \<times> 'e"
  E_GetAttributeValue :: "CK_SESSION_HANDLE \<Rightarrow> CK_OBJECT_HANDLE \<Rightarrow> ck_attribute list \<Rightarrow> 'e \<Rightarrow>
     (CK_RV \<times> ck_attribute list) \<times> 'e"
  E_CopyObject :: "CK_SESSION_HANDLE \<Rightarrow> CK_OBJECT_HANDLE \<Rightarrow> ck_attribute list \<Rightarrow> 'e \<Rightarrow>
     (CK_RV \<times> CK_OBJECT_HANDLE) \<times> 'e"
  E_DestroyObject :: "CK_SESSION_HANDLE \<Rightarrow> CK_OBJECT_HANDLE \<Rightarrow> 'e \<Rightarrow> CK_RV \<times> 'e"
  E_malloc :: "nat \<Rightarrow> 'e \<Rightarrow> bool \<times> 'e"
  E_mutex_init :: "lock \<Rightarrow> 'e \<Rightarrow> bool \<times> 'e"
  E_mutex_destroy :: "lock \<Rightarrow> 'e \<Rightarrow> bool \<times> 'e"
  E_lock :: "lock \<Rightarrow> 'e \<Rightarrow> bool \<times> 'e"
  E_unlock :: "lock \<Rightarrow> 'e \<Rightarrow> bool \<times> 'e"
  E_clock :: "'e \<Rightarrow> 64 word option \<times> 'e"
  E_nanosleep :: "64 word \<Rightarrow> 'e \<Rightarrow> bool \<times> 'e"
  E_session_cb :: "nat \<Rightarrow> 'e \<Rightarrow> CK_RV \<times> 'e"
  E_pw_cb :: "nat \<Rightarrow> string option \<Rightarrow> 'e \<Rightarrow> (bool \<times> string) \<times> 'e"
  E_ui_new :: "'e \<Rightarrow> bool \<times> 'e"
  E_ui_construct_prompt :: "string option \<Rightarrow> 'e \<Rightarrow> string option \<times> 'e"
  E_ui_dup_input :: "string \<Rightarrow> 'e \<Rightarrow> int \<times> 'e"
  E_ui_process :: "'e \<Rightarrow> (int \<times> string) \<times> 'e"
  E_CreateObject :: "CK_SESSION_HANDLE \<Rightarrow> ck_attribute list \<Rightarrow> 'e \<Rightarrow> (CK_RV \<times> CK_OBJECT_HANDLE) \<times> 'e"
  E_SeedRandom :: "CK_SESSION_HANDLE \<Rightarrow> bytes \<Rightarrow> 'e \<Rightarrow> CK_RV \<times> 'e"
  E_GenerateRandom :: "CK_SESSION_HANDLE \<Rightarrow> nat \<Rightarrow> 'e \<Rightarrow> (CK_RV \<times> bytes) \<times> 'e"
  E_getenv :: "string \<Rightarrow> 'e \<Rightarrow> string option \<times> 'e"
  E_dlopen :: "string \<Rightarrow> 'e \<Rightarrow> bool \<times> 'e"
  E_dlsym :: "string \<Rightarrow> 'e \<Rightarrow> bool \<times> 'e"
  E_GetInterface :: "bool \<Rightarrow> 'e \<Rightarrow> (CK_RV \<times> p11prov_interface) \<times> 'e"
  E_GetFunctionList :: "'e \<Rightarrow> (CK_RV \<times> p11prov_interface) \<times> 'e"
  E_Initialize :: "string option \<Rightarrow> 'e \<Rightarrow> CK_RV \<times> 'e"
  E_Finalize :: "'e \<Rightarrow> CK_RV \<times> 'e"
  E_GetInfo :: "'e \<Rightarrow> (CK_RV \<times> ck_info) \<times> 'e"

record 'e world =
  w_env :: 'e
  w_held :: "lock list"
  w_ctx :: p11prov_ctx
  w_sess :: "session heap"
  w_pools :: "session_pool heap"
  w_objs :: "p11prov_obj heap"
  w_opools :: "obj_pool heap"
  w_slots :: "slots_ctx option"

text \<open>A call of an environment function, and its effect on a postcondition.\<close>

definition ecall :: "('e \<Rightarrow> 'a \<times> 'e) \<Rightarrow> ('e world, 'a) state" where
  "ecall f = State (\<lambda>w. case f (w_env w) of (a, e) \<Rightarrow> (a, w\<lparr>w_env := e\<rparr>))"

lemma wp_ecall: "wp (ecall f) Q = (\<lambda>w. case f (w_env w) of (a, e) \<Rightarrow> Q a (w\<lparr>w_env := e\<rparr>))"
  by (simp add: wp_def ecall_def fun_eq_iff split: prod.split)

lemma wp_ecallI: "(\<And>a e. f (w_env w) = (a, e) \<Longrightarrow> Q a (w\<lparr>w_env := e\<rparr>)) \<Longrightarrow> wp (ecall f) Q w"
  by (simp add: wp_ecall split: prod.split)

abbreviation get_s :: "addr \<Rightarrow> ('e world, session) state" where
  "get_s a \<equiv> gets (\<lambda>w. h_cells (w_sess w) a)"

abbreviation upd_s :: "addr \<Rightarrow> (session \<Rightarrow> session) \<Rightarrow> ('e world, unit) state" where
  "upd_s a f \<equiv> modify (\<lambda>w. w\<lparr>w_sess := hupd a f (w_sess w)\<rparr>)"

abbreviation get_p :: "addr \<Rightarrow> ('e world, session_pool) state" where
  "get_p a \<equiv> gets (\<lambda>w. h_cells (w_pools w) a)"

abbreviation upd_p :: "addr \<Rightarrow> (session_pool \<Rightarrow> session_pool) \<Rightarrow> ('e world, unit) state" where
  "upd_p a f \<equiv> modify (\<lambda>w. w\<lparr>w_pools := hupd a f (w_pools w)\<rparr>)"

abbreviation get_o :: "addr \<Rightarrow> ('e world, p11prov_obj) state" where
  "get_o a \<equiv> gets (\<lambda>w. h_cells (w_objs w) a)"

abbreviation upd_o :: "addr \<Rightarrow> (p11prov_obj \<Rightarrow> p11prov_obj) \<Rightarrow> ('e world, unit) state" where
  "upd_o a f \<equiv> modify (\<lambda>w. w\<lparr>w_objs := hupd a f (w_objs w)\<rparr>)"

abbreviation get_op :: "addr \<Rightarrow> ('e world, obj_pool) state" where
  "get_op a \<equiv> gets (\<lambda>w. h_cells (w_opools w) a)"

abbreviation upd_op :: "addr \<Rightarrow> (obj_pool \<Rightarrow> obj_pool) \<Rightarrow> ('e world, unit) state" where
  "upd_op a f \<equiv> modify (\<lambda>w. w\<lparr>w_opools := hupd a f (w_opools w)\<rparr>)"

section \<open>Locks\<close>

text \<open>
  The mutex wrappers of \<^verbatim>\<open>util.c\<close> turn any pthread error into \<open>CKR_CANT_LOCK\<close>. \<open>w_held\<close> lists the
  locks that are held.
\<close>

definition p11prov_mutex_init :: "'e p11env \<Rightarrow> lock \<Rightarrow> ('e world, CK_RV) state" where
  "p11prov_mutex_init E l = do {
     ok \<leftarrow> ecall (E_mutex_init E l);
     ret (if ok then CKR_OK else CKR_CANT_LOCK) }"

definition p11prov_mutex_lock :: "'e p11env \<Rightarrow> lock \<Rightarrow> ('e world, CK_RV) state" where
  "p11prov_mutex_lock E l = do {
     ok \<leftarrow> ecall (E_lock E l);
     if ok then do { modify (\<lambda>w. w\<lparr>w_held := l # w_held w\<rparr>); ret CKR_OK }
     else ret CKR_CANT_LOCK }"

definition p11prov_mutex_unlock :: "'e p11env \<Rightarrow> lock \<Rightarrow> ('e world, CK_RV) state" where
  "p11prov_mutex_unlock E l = do {
     ok \<leftarrow> ecall (E_unlock E l);
     if ok then do { modify (\<lambda>w. w\<lparr>w_held := remove1 l (w_held w)\<rparr>); ret CKR_OK }
     else ret CKR_CANT_LOCK }"

definition p11prov_mutex_destroy :: "'e p11env \<Rightarrow> lock \<Rightarrow> ('e world, CK_RV) state" where
  "p11prov_mutex_destroy E l = do {
     ok \<leftarrow> ecall (E_mutex_destroy E l);
     ret (if ok then CKR_OK else CKR_CANT_LOCK) }"

text \<open>
  Postconditions that do not look at the environment and the held locks: calls into the
  environment and lock operations keep them.
\<close>

definition unobs :: "('e world \<Rightarrow> bool) \<Rightarrow> bool" where
  "unobs Q \<longleftrightarrow> (\<forall>w e l. Q (w\<lparr>w_env := e, w_held := l\<rparr>) = Q w)"

lemma wp_mutex_init [wp_simps]:
  "wp (p11prov_mutex_init E l) Q =
     (\<lambda>w. case E_mutex_init E l (w_env w) of (ok, e) \<Rightarrow> Q (if ok then CKR_OK else CKR_CANT_LOCK) (w\<lparr>w_env := e\<rparr>))"
  by (simp add: p11prov_mutex_init_def wp_simps wp_ecall)

lemma wp_mutex_destroy [wp_simps]:
  "wp (p11prov_mutex_destroy E l) Q =
     (\<lambda>w. case E_mutex_destroy E l (w_env w) of (ok, e) \<Rightarrow> Q (if ok then CKR_OK else CKR_CANT_LOCK) (w\<lparr>w_env := e\<rparr>))"
  by (simp add: p11prov_mutex_destroy_def wp_simps wp_ecall)

lemma wp_mutex_lock [wp_simps]:
  "wp (p11prov_mutex_lock E l) Q =
     (\<lambda>w. case E_lock E l (w_env w) of (ok, e) \<Rightarrow>
        if ok then Q CKR_OK (w\<lparr>w_env := e, w_held := l # w_held w\<rparr>) else Q CKR_CANT_LOCK (w\<lparr>w_env := e\<rparr>))"
  by (simp add: p11prov_mutex_lock_def wp_simps wp_ecall fun_eq_iff split: prod.split)

lemma wp_mutex_unlock [wp_simps]:
  "wp (p11prov_mutex_unlock E l) Q =
     (\<lambda>w. case E_unlock E l (w_env w) of (ok, e) \<Rightarrow>
        if ok then Q CKR_OK (w\<lparr>w_env := e, w_held := remove1 l (w_held w)\<rparr>) else Q CKR_CANT_LOCK (w\<lparr>w_env := e\<rparr>))"
  by (simp add: p11prov_mutex_unlock_def wp_simps wp_ecall fun_eq_iff split: prod.split)

declare wp_ecall [wp_simps]

section \<open>Timed retries\<close>

text \<open>
  \<open>cyclewait_with_timeout\<close>: whether to try again, and the new start time. Times are nanoseconds
  in \<open>uint64_t\<close>; an interrupted \<open>nanosleep\<close> returns -1 and ends the wait.
\<close>

definition cyclewait_with_timeout ::
    "'e p11env \<Rightarrow> 64 word \<Rightarrow> 64 word \<Rightarrow> 64 word \<Rightarrow> ('e world, bool \<times> 64 word) state" where
  "cyclewait_with_timeout E max_wait interval start_time = do {
     c \<leftarrow> ecall (E_clock E);
     case c of
       None \<Rightarrow> ret (False, start_time)
     | Some current_time \<Rightarrow>
         if start_time \<noteq> 0 \<and> current_time > start_time + max_wait then ret (False, start_time)
         else do {
           ok \<leftarrow> ecall (E_nanosleep E interval);
           ret (ok, if start_time = 0 then current_time else start_time) } }"

definition MAX_WAIT :: "64 word" where "MAX_WAIT = 1000000000"
definition SLEEP :: "64 word" where "SLEEP = 50000"
definition LOCK_SLEEP :: "64 word" where "LOCK_SLEEP = 5000"

text \<open>
  The retry loop \<^verbatim>\<open>do { ret = attempt; if (stop(ret)) break; } while (cyclewait(...))\<close>. The fuel
  bounds the number of further attempts; when it is used up the loop ends as on a time-out. By
  \<open>retry_fuel_enough\<close> this never happens with \<open>WAIT_FUEL\<close> when the clock advances: the result is
  the same for every larger fuel.
\<close>

fun retry :: "'e p11env \<Rightarrow> nat \<Rightarrow> 64 word \<Rightarrow> ('e world, 'a) state \<Rightarrow> ('a \<Rightarrow> bool) \<Rightarrow> 64 word \<Rightarrow>
    ('e world, 'a) state" where
  "retry E n interval attempt stop start_time = do {
     r \<leftarrow> attempt;
     if stop r then ret r
     else do {
       (again, start_time) \<leftarrow> cyclewait_with_timeout E MAX_WAIT interval start_time;
       (case n of
          0 \<Rightarrow> ret r
        | Suc n' \<Rightarrow> if again then retry E n' interval attempt stop start_time else ret r) } }"

declare retry.simps [simp del]

definition WAIT_FUEL :: nat where "WAIT_FUEL = 200003"

text \<open>
  \<open>clock_ok E now\<close>: \<open>now\<close> is the time of the environment in nanoseconds; the clock reads it (or
  fails) and a successful \<open>nanosleep\<close> lets at least the interval pass. \<open>keeps_time\<close>: a call does not
  turn the time back.
\<close>

definition clock_ok :: "'e p11env \<Rightarrow> ('e \<Rightarrow> nat) \<Rightarrow> bool" where
  "clock_ok E now \<longleftrightarrow>
     (\<forall>e t e'. E_clock E e = (Some t, e') \<longrightarrow> unat t = now e \<and> now e < 2 ^ 63 \<and> now e \<le> now e') \<and>
     (\<forall>e d e'. E_nanosleep E d e = (True, e') \<longrightarrow> now e + unat d \<le> now e')"

definition keeps_time :: "('e \<Rightarrow> nat) \<Rightarrow> ('e world, 'a) state \<Rightarrow> bool" where
  "keeps_time now m \<longleftrightarrow> (\<forall>w. wp m (\<lambda>_ w'. now (w_env w) \<le> now (w_env w')) w)"

lemma cyclewait_cases:
  assumes "clock_ok E now" and "run_state (cyclewait_with_timeout E MAX_WAIT d st) w = ((again, st'), w')" and again
  shows "now (w_env w) + unat d \<le> now (w_env w')" and "now (w_env w) < 2 ^ 63"
    and "st \<noteq> 0 \<Longrightarrow> st' = st \<and> now (w_env w) \<le> unat (st + MAX_WAIT)"
    and "st = 0 \<Longrightarrow> unat st' = now (w_env w)"
  using assms
  by (auto simp: cyclewait_with_timeout_def clock_ok_def ecall_def not_less word_le_nat_alt
      split: option.splits prod.splits if_splits) (metis le_trans add_le_mono1)+

lemma retry_step:
  assumes "run_state attempt w = (r, w1)"
    and "run_state (cyclewait_with_timeout E MAX_WAIT d st) w1 = ((again, st'), w2)"
  shows "run_state (retry E n d attempt stop st) w =
    (if stop r then (r, w1) else
     (case n of 0 \<Rightarrow> (r, w2) | Suc n' \<Rightarrow> if again then run_state (retry E n' d attempt stop st') w2 else (r, w2)))"
  using assms by (simp add: retry.simps [of E n] split: nat.split)

lemma retry_fuel_started:
  assumes "clock_ok E now" and "keeps_time now attempt" and "st \<noteq> 0" and "unat st < 2 ^ 63"
    and "unat st + 1000000000 < now (w_env w) + n * unat d"
  shows "run_state (retry E (n + k) d attempt stop st) w = run_state (retry E n d attempt stop st) w"
  using assms(5)
proof (induction n arbitrary: w)
  case (0 w)
  obtain r w1 where a: "run_state attempt w = (r, w1)" by fastforce
  obtain again st' w2 where c: "run_state (cyclewait_with_timeout E MAX_WAIT d st) w1 = ((again, st'), w2)"
    by (metis surj_pair)
  have t: "now (w_env w) \<le> now (w_env w1)" using assms(2) wp_run [OF _ a] by (auto simp: keeps_time_def)
  have "unat (st + MAX_WAIT) \<le> unat st + 1000000000"
    using unat_plus_simple [of st MAX_WAIT] assms(4) by (auto simp: MAX_WAIT_def unat_word_ariths)
  then have "\<not> again" using cyclewait_cases(3) [OF assms(1) c] assms(3) 0 t by auto
  then show ?case by (simp add: retry_step [OF a c] split: nat.split)
next
  case (Suc n w)
  obtain r w1 where a: "run_state attempt w = (r, w1)" by fastforce
  obtain again st' w2 where c: "run_state (cyclewait_with_timeout E MAX_WAIT d st) w1 = ((again, st'), w2)"
    by (metis surj_pair)
  have t: "now (w_env w) \<le> now (w_env w1)" using assms(2) wp_run [OF _ a] by (auto simp: keeps_time_def)
  show ?case
  proof (cases again)
    case True
    have "now (w_env w1) + unat d \<le> now (w_env w2)" "st' = st"
      using cyclewait_cases(1,3) [OF assms(1) c True] assms(3) by auto
    then have "run_state (retry E (n + k) d attempt stop st') w2 = run_state (retry E n d attempt stop st') w2"
      using Suc.IH [of w2] Suc.prems t by simp
    then show ?thesis by (simp add: retry_step [OF a c])
  next
    case False
    then show ?thesis by (simp add: retry_step [OF a c])
  qed
qed

lemma retry_fuel_unstarted:
  assumes "clock_ok E now" and "keeps_time now attempt" and "0 < unat d" and "1000000000 < n * unat d"
  shows "run_state (retry E (Suc (Suc n) + k) d attempt stop 0) w = run_state (retry E (Suc (Suc n)) d attempt stop 0) w"
proof -
  have pos: "run_state (retry E (Suc n + k) d attempt stop 0) v = run_state (retry E (Suc n) d attempt stop 0) v"
    if v: "0 < now (w_env v)" for v
  proof -
    obtain r w1 where a: "run_state attempt v = (r, w1)" by fastforce
    obtain again st' w2 where c: "run_state (cyclewait_with_timeout E MAX_WAIT d 0) w1 = ((again, st'), w2)"
      by (metis surj_pair)
    have t: "now (w_env v) \<le> now (w_env w1)" using assms(2) wp_run [OF _ a] by (auto simp: keeps_time_def)
    show ?thesis
    proof (cases again)
      case True
      note cw = cyclewait_cases [OF assms(1) c True]
      have "run_state (retry E (n + k) d attempt stop st') w2 = run_state (retry E n d attempt stop st') w2"
        by (rule retry_fuel_started [OF assms(1,2)]) (use cw v t assms(4) in auto)
      then show ?thesis by (simp add: retry_step [OF a c])
    next
      case False
      then show ?thesis by (simp add: retry_step [OF a c])
    qed
  qed
  obtain r w1 where a: "run_state attempt w = (r, w1)" by fastforce
  obtain again st' w2 where c: "run_state (cyclewait_with_timeout E MAX_WAIT d 0) w1 = ((again, st'), w2)"
    by (metis surj_pair)
  show ?thesis
  proof (cases again)
    case True
    note cw = cyclewait_cases [OF assms(1) c True]
    have "run_state (retry E (Suc n + k) d attempt stop st') w2 = run_state (retry E (Suc n) d attempt stop st') w2"
    proof (cases "st' = 0")
      case True
      then show ?thesis using pos [of w2] cw(1) assms(3) by simp
    next
      case False
      have "run_state (retry E (Suc n + k) d attempt stop st') w2 = run_state (retry E (Suc n) d attempt stop st') w2"
        by (rule retry_fuel_started [OF assms(1,2) False]) (use cw assms(4) in auto)
      then show ?thesis .
    qed
    then show ?thesis by (simp add: retry_step [OF a c])
  next
    case False
    then show ?thesis by (simp add: retry_step [OF a c])
  qed
qed

text \<open>
  C19. The timed retry loops end: with a clock that advances, \<open>WAIT_FUEL\<close> attempts are enough, and
  a larger bound gives the same result, for both sleep intervals the sessions use.
\<close>

theorem retry_fuel_enough:
  assumes "clock_ok E now" and "keeps_time now attempt" and "d = SLEEP \<or> d = LOCK_SLEEP"
  shows "run_state (retry E (WAIT_FUEL + k) d attempt stop 0) w = run_state (retry E WAIT_FUEL d attempt stop 0) w"
proof -
  have d: "unat d = 50000 \<or> unat d = 5000" using assms(3) by (auto simp: SLEEP_def LOCK_SLEEP_def)
  have "WAIT_FUEL = Suc (Suc 200001)" by (simp add: WAIT_FUEL_def)
  moreover have "1000000000 < (200001::nat) * unat d" and "0 < unat d" using d by auto
  ultimately show ?thesis using retry_fuel_unstarted [OF assms(1,2), of d 200001 k stop w] by simp
qed

end
