(* ===== verification/P11_Sim.thy ===== *)
theory P11_Sim
  imports P11_World
begin

text \<open>
  A concrete environment: a module with one kind of session and a PIN, an allocator and locks
  that never fail, and a clock that advances with every sleep. The witnesses of the properties
  run the model in it.
\<close>

record sim =
  sim_time :: nat
  sim_next :: CK_SESSION_HANDLE
  sim_open :: "(CK_SESSION_HANDLE \<times> CK_FLAGS) list"
  sim_logged :: bool
  sim_pin :: string
  sim_token :: ck_token_info
  sim_slots :: "CK_SLOT_ID list"
  sim_logins :: nat

definition sim_init :: sim where
  "sim_init = \<lparr>sim_time = 0, sim_next = 1, sim_open = [], sim_logged = False, sim_pin = ''1234'',
     sim_token = \<lparr>ti_label = ''token'', ti_manufacturerID = ''maker'', ti_model = ''model'',
       ti_serialNumber = ''0001'', ti_flags = 0x404, ti_ulMaxSessionCount = 0\<rparr>,
     sim_slots = [7], sim_logins = 0\<rparr>"

definition sim_state :: "bool \<Rightarrow> CK_FLAGS \<Rightarrow> CK_STATE" where
  "sim_state logged fl = (if has_flag fl CKF_RW_SESSION then (if logged then 3 else 2) else (if logged then 1 else 0))"

definition sim_env :: "sim p11env" where
  "sim_env = \<lparr>
     E_OpenSession = (\<lambda>slot fl cb e. ((CKR_OK, if sim_next e = 0 then 1 else sim_next e),
        e\<lparr>sim_next := sim_next e + 1, sim_open := (sim_next e, fl) # sim_open e\<rparr>)),
     E_CloseSession = (\<lambda>h e. (CKR_OK, e\<lparr>sim_open := filter (\<lambda>p. fst p \<noteq> h) (sim_open e)\<rparr>)),
     E_GetSessionInfo = (\<lambda>h e. (case map_of (sim_open e) h of
        None \<Rightarrow> (CKR_SESSION_HANDLE_INVALID, 0, 0)
      | Some fl \<Rightarrow> (CKR_OK, sim_state (sim_logged e) fl, fl), e)),
     E_GetTokenInfo = (\<lambda>slot e. ((CKR_OK, sim_token e), e)),
     E_GetSlotInfo = (\<lambda>slot e. ((CKR_OK, \<lparr>si_slotDescription = ''slot '', si_manufacturerID = ''maker'',
        si_flags = CKF_TOKEN_PRESENT\<rparr>), e)),
     E_GetSlotCount = (\<lambda>e. ((CKR_OK, length (sim_slots e)), e)),
     E_GetSlotList = (\<lambda>n e. ((CKR_OK, sim_slots e), e)),
     E_GetMechanismCount = (\<lambda>slot e. ((CKR_OK, 1), e)),
     E_GetMechanismList = (\<lambda>slot n e. ((CKR_OK, [1]), e)),
     E_Login = (\<lambda>h u pin e. if pin = Some (sim_pin e)
        then (CKR_OK, e\<lparr>sim_logged := True, sim_logins := Suc (sim_logins e)\<rparr>)
        else (CKR_PIN_INCORRECT, e\<lparr>sim_logins := Suc (sim_logins e)\<rparr>)),
     E_FindObjectsInit = (\<lambda>h t e. (CKR_OK, e)),
     E_FindObjects = (\<lambda>h n e. ((CKR_OK, []), e)),
     E_FindObjectsFinal = (\<lambda>h e. (CKR_OK, e)),
     E_GetAttributeValue = (\<lambda>h ob t e. ((CKR_OK, t), e)),
     E_CopyObject = (\<lambda>h ob t e. ((CKR_OK, ob + 1000), e)),
     E_DestroyObject = (\<lambda>h ob e. (CKR_OK, e)),
     E_malloc = (\<lambda>n e. (True, e)),
     E_mutex_init = (\<lambda>l e. (True, e)),
     E_mutex_destroy = (\<lambda>l e. (True, e)),
     E_lock = (\<lambda>l e. (True, e)),
     E_unlock = (\<lambda>l e. (True, e)),
     E_clock = (\<lambda>e. (if sim_time e < 2 ^ 63 then Some (of_nat (sim_time e)) else None, e)),
     E_nanosleep = (\<lambda>d e. (True, e\<lparr>sim_time := sim_time e + unat d\<rparr>)),
     E_session_cb = (\<lambda>c e. (CKR_OK, e)),
     E_pw_cb = (\<lambda>c i e. ((True, ''1234''), e)),
     E_ui_new = (\<lambda>e. (True, e)),
     E_ui_construct_prompt = (\<lambda>i e. (Some ''PIN'', e)),
     E_ui_dup_input = (\<lambda>p e. (1, e)),
     E_ui_process = (\<lambda>e. ((0, ''1234''), e)),
     E_CreateObject = (\<lambda>h t e. ((CKR_OK, 500), e)),
     E_SeedRandom = (\<lambda>h bs e. (CKR_OK, e)),
     E_GenerateRandom = (\<lambda>h n e. ((CKR_OK, replicate n CHR 0x2A), e)),
     E_getenv = (\<lambda>n e. (None, e)),
     E_dlopen = (\<lambda>n e. (True, e)),
     E_dlsym = (\<lambda>n e. (True, e)),
     E_GetInterface = (\<lambda>v e. ((CKR_OK, \<lparr>if_version = (3, 0), if_flags = 0\<rparr>), e)),
     E_GetFunctionList = (\<lambda>e. ((CKR_OK, \<lparr>if_version = (2, 40), if_flags = 0\<rparr>), e)),
     E_Initialize = (\<lambda>a e. (CKR_OK, e)),
     E_Finalize = (\<lambda>e. (CKR_OK, e)),
     E_GetInfo = (\<lambda>e. ((CKR_OK, \<lparr>ci_cryptokiVersion = (3, 0), ci_manufacturerID = ''maker'', ci_flags = 0,
        ci_libraryDescription = ''library'', ci_libraryVersion = (1, 0)\<rparr>), e))\<rparr>"

definition sim_ctx :: p11prov_ctx where
  "sim_ctx = \<lparr>cx_status = P11PROV_INITIALIZED, cx_pin = None, cx_allow_export = 0,
     cx_login_behavior = PUBKEY_LOGIN_AUTO, cx_cache_pins = False,
     cx_cache_keys = P11PROV_CACHE_KEYS_IN_SESSION, cx_cache_sessions = 5,
     cx_encode_pkey_as_pk11_uri = False, cx_assume_fips = False, cx_no_deinit = False,
     cx_no_allowed_mechanisms = False, cx_no_session_callbacks = False, cx_blocked_calls = 0,
     cx_blocked_ops = [], cx_quirks = []\<rparr>"

definition sim_world :: "sim world" where
  "sim_world = \<lparr>w_env = sim_init, w_held = [], w_ctx = sim_ctx, w_sess = hempty zero_session,
     w_pools = hempty zero_pool, w_objs = hempty zero_obj, w_opools = hempty zero_obj_pool,
     w_slots = None\<rparr>"

text \<open>The simulated clock satisfies the clock hypotheses of the retry loops.\<close>

lemma sim_clock_ok: "clock_ok sim_env sim_time"
  by (auto simp: clock_ok_def sim_env_def unsigned_of_nat take_bit_nat_eq_self split: if_splits)

theorem retry_fuel_enough_witness:
  "run_state (retry sim_env (WAIT_FUEL + 5) SLEEP (ret CKR_SESSION_COUNT) (\<lambda>r. r \<noteq> CKR_SESSION_COUNT) 0) sim_world =
   run_state (retry sim_env WAIT_FUEL SLEEP (ret CKR_SESSION_COUNT) (\<lambda>r. r \<noteq> CKR_SESSION_COUNT) 0) sim_world"
  by (rule retry_fuel_enough [OF sim_clock_ok]) (simp_all add: keeps_time_def wp_simps)

end
