(* ===== verification/P11_Session.thy ===== *)
theory P11_Session
  imports P11_Sim
begin

text \<open>
  Sessions and session pools (\<^verbatim>\<open>src/src/session.c\<close>, without the login and slot selection of
  \<open>P11_Login\<close>): opening, closing, checking and freeing a session, the pool that owns the sessions
  of a slot, \<open>fetch_session\<close> and \<open>p11prov_return_session\<close>.

  A session is named by its address. Functions that give a session back through a pointer
  argument return the pair of the \<open>CK_RV\<close> and the address.
\<close>

section \<open>Model\<close>

abbreviation DEFLT_SESSION_FLAGS :: CK_FLAGS where "DEFLT_SESSION_FLAGS \<equiv> CKF_SERIAL_SESSION"

definition MAX_CONCURRENT_SESSIONS :: CK_ULONG where "MAX_CONCURRENT_SESSIONS = 1024"
definition SESS_ALLOC_SIZE :: nat where "SESS_ALLOC_SIZE = 32"
definition sizeof_session :: nat where "sizeof_session = 120"
definition sizeof_session_pool :: nat where "sizeof_session_pool = 88"

text \<open>The notification callback that is registered with the session's address.\<close>

definition token_session_callback ::
    "'e p11env \<Rightarrow> CK_SESSION_HANDLE \<Rightarrow> addr \<Rightarrow> ('e world, CK_RV) state" where
  "token_session_callback E hSession a = do {
     s \<leftarrow> get_s a;
     if s_session s \<noteq> hSession then ret CKR_OK
     else (case s_cb s of
             Some cb \<Rightarrow> ecall (E_session_cb E cb)
           | None \<Rightarrow> ret CKR_OK) }"

definition set_closed :: "session \<Rightarrow> session" where
  "set_closed s = s\<lparr>s_session := CK_INVALID_HANDLE, s_flags := DEFLT_SESSION_FLAGS,
     s_state := CK_UNAVAILABLE_INFORMATION\<rparr>"

definition open_attempt :: "'e p11env \<Rightarrow> addr \<Rightarrow> CK_FLAGS \<Rightarrow> ('e world, CK_RV) state" where
  "open_attempt E a flags = do {
     s \<leftarrow> get_s a;
     ctx \<leftarrow> gets w_ctx;
     (r, h) \<leftarrow> ecall (E_OpenSession E (s_slotid s) flags
                        (if cx_no_session_callbacks ctx then None else Some a));
     upd_s a (\<lambda>s. s\<lparr>s_session := h\<rparr>);
     ret r }"

definition token_session_open :: "'e p11env \<Rightarrow> addr \<Rightarrow> CK_FLAGS \<Rightarrow> ('e world, CK_RV) state" where
  "token_session_open E a flags = do {
     r \<leftarrow> retry E WAIT_FUEL SLEEP (open_attempt E a flags) (\<lambda>r. r \<noteq> CKR_SESSION_COUNT) 0;
     if r \<noteq> CKR_OK then do { upd_s a set_closed; ret r }
     else do {
       upd_s a (\<lambda>s. s\<lparr>s_flags := flags\<rparr>);
       s \<leftarrow> get_s a;
       (r, st, fl) \<leftarrow> ecall (E_GetSessionInfo E (s_session s));
       if r = CKR_OK then do { upd_s a (\<lambda>s. s\<lparr>s_flags := fl, s_state := st\<rparr>); ret r }
       else ret r } }"

definition token_session_close :: "'e p11env \<Rightarrow> addr \<Rightarrow> ('e world, unit) state" where
  "token_session_close E a = do {
     s \<leftarrow> get_s a;
     if s_session s \<noteq> CK_INVALID_HANDLE then do {
       _ \<leftarrow> ecall (E_CloseSession E (s_session s));
       upd_s a (\<lambda>s. set_closed (s\<lparr>s_is_broken := False\<rparr>)) }
     else ret () }"

definition p11prov_session_pool_init ::
    "'e p11env \<Rightarrow> ck_token_info \<Rightarrow> CK_SLOT_ID \<Rightarrow> ('e world, CK_RV \<times> addr option) state" where
  "p11prov_session_pool_init E token slotid = do {
     ok \<leftarrow> ecall (E_malloc E sizeof_session_pool);
     if \<not> ok then ret (CKR_HOST_MEMORY, None)
     else do {
       p \<leftarrow> gets (\<lambda>w. h_brk (w_pools w));
       modify (\<lambda>w. w\<lparr>w_pools := halloc (zero_pool\<lparr>sp_slotid := slotid\<rparr>) (w_pools w)\<rparr>);
       r \<leftarrow> p11prov_mutex_init E (LkPool p);
       if r \<noteq> CKR_OK then do { modify (\<lambda>w. w\<lparr>w_pools := hfree p (w_pools w)\<rparr>); ret (r, None) }
       else do {
         ctx \<leftarrow> gets w_ctx;
         let mx = (if ti_ulMaxSessionCount token \<noteq> CK_EFFECTIVELY_INFINITE
                      \<and> ti_ulMaxSessionCount token \<noteq> CK_UNAVAILABLE_INFORMATION
                   then ti_ulMaxSessionCount token else MAX_CONCURRENT_SESSIONS);
         let mc = cx_cache_sessions ctx;
         upd_p p (\<lambda>pool. pool\<lparr>sp_max_sessions := mx,
              sp_max_cached_sessions := (if mx < mc then mx - 1 else mc)\<rparr>);
         ret (CKR_OK, Some p) } } }"

definition session_free :: "'e p11env \<Rightarrow> addr option \<Rightarrow> ('e world, unit) state" where
  "session_free E x =
     (case x of
        None \<Rightarrow> ret ()
      | Some a \<Rightarrow> do {
          r \<leftarrow> p11prov_mutex_lock E (LkSession a);
          abandon \<leftarrow> (if r = CKR_OK then do {
                         s \<leftarrow> get_s a;
                         _ \<leftarrow> p11prov_mutex_unlock E (LkSession a);
                         ret (s_in_use s) }
                       else ret True);
          if abandon then upd_s a (\<lambda>s. s\<lparr>s_pool := None\<rparr>)
          else do {
            _ \<leftarrow> p11prov_mutex_destroy E (LkSession a);
            token_session_close E a;
            modify (\<lambda>w. w\<lparr>w_sess := hfree a (w_sess w)\<rparr>) } })"

definition p11prov_session_pool_free :: "'e p11env \<Rightarrow> addr option \<Rightarrow> ('e world, unit) state" where
  "p11prov_session_pool_free E x =
     (case x of
        None \<Rightarrow> ret ()
      | Some p \<Rightarrow> do {
          r \<leftarrow> p11prov_mutex_lock E (LkPool p);
          if r = CKR_OK then do {
            pool \<leftarrow> get_p p;
            for_each (\<lambda>a. session_free E (Some a)) (sp_sessions pool);
            upd_p p (\<lambda>pool. pool\<lparr>sp_sessions := []\<rparr>);
            _ \<leftarrow> p11prov_mutex_unlock E (LkPool p);
            _ \<leftarrow> p11prov_mutex_destroy E (LkPool p);
            modify (\<lambda>w. w\<lparr>w_pools := hfree p (w_pools w)\<rparr>) }
          else ret () })"

definition session_new_bare :: "'e p11env \<Rightarrow> addr \<Rightarrow> ('e world, CK_RV \<times> addr option) state" where
  "session_new_bare E p = do {
     ok \<leftarrow> ecall (E_malloc E sizeof_session);
     if \<not> ok then ret (CKR_HOST_MEMORY, None)
     else do {
       pool \<leftarrow> get_p p;
       a \<leftarrow> gets (\<lambda>w. h_brk (w_sess w));
       modify (\<lambda>w. w\<lparr>w_sess := halloc (set_closed (zero_session\<lparr>s_slotid := sp_slotid pool,
                 s_pool := Some p\<rparr>)) (w_sess w)\<rparr>);
       r \<leftarrow> p11prov_mutex_init E (LkSession a);
       if r \<noteq> CKR_OK then do { modify (\<lambda>w. w\<lparr>w_sess := hfree a (w_sess w)\<rparr>); ret (r, None) }
       else ret (CKR_OK, Some a) } }"

text \<open>
  The child of a fork: when the mutex of a session cannot be initialised again, the code creates a
  new session but does not store it in the pool.
\<close>

definition fork_reset_session :: "'e p11env \<Rightarrow> addr \<Rightarrow> addr \<Rightarrow> ('e world, unit) state" where
  "fork_reset_session E p a = do {
     upd_s a (\<lambda>s. (set_closed s)\<lparr>s_in_use := False, s_cb := None, s_is_login := False\<rparr>);
     r \<leftarrow> p11prov_mutex_init E (LkSession a);
     if r \<noteq> CKR_OK then do {
       upd_s a (\<lambda>s. s\<lparr>s_pool := None\<rparr>);
       (r, new) \<leftarrow> session_new_bare E p;
       if r \<noteq> CKR_OK then upd_s a (\<lambda>s. s\<lparr>s_pool := Some p\<rparr>) else ret () }
     else ret () }"

definition p11prov_session_pool_fork_reset :: "'e p11env \<Rightarrow> addr option \<Rightarrow> ('e world, unit) state" where
  "p11prov_session_pool_fork_reset E x =
     (case x of
        None \<Rightarrow> ret ()
      | Some p \<Rightarrow> do {
          r \<leftarrow> p11prov_mutex_lock E (LkPool p);
          if r = CKR_OK then do {
            pool \<leftarrow> get_p p;
            for_each (fork_reset_session E p) (sp_sessions pool);
            _ \<leftarrow> p11prov_mutex_unlock E (LkPool p);
            ret () }
          else ret () })"

definition session_new :: "'e p11env \<Rightarrow> addr \<Rightarrow> ('e world, CK_RV \<times> addr option) state" where
  "session_new E p = do {
     pool \<leftarrow> get_p p;
     let num_sessions = length (sp_sessions pool);
     if of_nat num_sessions \<ge> sp_max_sessions pool then ret (CKR_SESSION_COUNT, None)
     else do {
       (r, x) \<leftarrow> session_new_bare E p;
       case x of
         None \<Rightarrow> ret (r, None)
       | Some a \<Rightarrow> do {
           ok \<leftarrow> (if num_sessions mod SESS_ALLOC_SIZE = 0
                  then ecall (E_malloc E ((num_sessions + SESS_ALLOC_SIZE) * 8)) else ret True);
           if \<not> ok then do { session_free E (Some a); ret (CKR_HOST_MEMORY, None) }
           else do {
             upd_s a (\<lambda>s. s\<lparr>s_in_use := True\<rparr>);
             upd_p p (\<lambda>pool. pool\<lparr>sp_sessions := sp_sessions pool @ [a]\<rparr>);
             ret (CKR_OK, Some a) } } } }"

definition session_check :: "'e p11env \<Rightarrow> addr option \<Rightarrow> CK_FLAGS \<Rightarrow> ('e world, CK_RV) state" where
  "session_check E x flags =
     (case x of
        None \<Rightarrow> ret CKR_GENERAL_ERROR
      | Some a \<Rightarrow> do {
          s \<leftarrow> get_s a;
          if \<not> s_in_use s then ret CKR_GENERAL_ERROR
          else if s_session s = CK_INVALID_HANDLE then ret CKR_OK
          else do {
            (rv, st, fl) \<leftarrow> ecall (E_GetSessionInfo E (s_session s));
            if rv_int rv = CKR_OK then do {
              upd_s a (\<lambda>s. s\<lparr>s_state := st\<rparr>);
              if flags = (fl AND flags) then ret CKR_OK
              else if s_refcnt s \<noteq> 0 then ret CKR_SESSION_READ_ONLY
              else do {
                _ \<leftarrow> ecall (E_CloseSession E (s_session s));
                upd_s a (\<lambda>s. s\<lparr>s_session := CK_INVALID_HANDLE, s_state := CK_UNAVAILABLE_INFORMATION\<rparr>);
                ret CKR_SESSION_CLOSED } }
            else do {
              upd_s a (\<lambda>s. s\<lparr>s_session := CK_INVALID_HANDLE, s_state := CK_UNAVAILABLE_INFORMATION\<rparr>);
              ret (rv_int rv) } } })"

definition p11prov_session_handle :: "session option \<Rightarrow> CK_SESSION_HANDLE" where
  "p11prov_session_handle x = (case x of None \<Rightarrow> CK_INVALID_HANDLE | Some s \<Rightarrow> s_session s)"

definition p11prov_session_slotid :: "session option \<Rightarrow> CK_SLOT_ID" where
  "p11prov_session_slotid x = (case x of None \<Rightarrow> CK_UNAVAILABLE_INFORMATION | Some s \<Rightarrow> s_slotid s)"

definition p11prov_session_ref :: "addr option \<Rightarrow> ('e world, unit) state" where
  "p11prov_session_ref x =
     (case x of None \<Rightarrow> ret () | Some a \<Rightarrow> upd_s a (\<lambda>s. s\<lparr>s_refcnt := s_refcnt s + 1\<rparr>))"

definition p11prov_session_deref :: "addr option \<Rightarrow> ('e world, unit) state" where
  "p11prov_session_deref x =
     (case x of None \<Rightarrow> ret () | Some a \<Rightarrow> upd_s a (\<lambda>s. s\<lparr>s_refcnt := s_refcnt s - 1\<rparr>))"

definition is_login_state :: "CK_STATE \<Rightarrow> bool" where
  "is_login_state st \<longleftrightarrow> st = 1 \<or> st = 3 \<or> st = 4"

text \<open>
  The loops of \<open>fetch_session\<close>. The first looks for the login session and may end the whole
  search; its result is the value of \<open>ret\<close>, the session found, and whether to go to \<open>done\<close>. The
  other four share one shape: a test without the lock, the same session locked and tested again,
  then taken.
\<close>

fun login_scan :: "'e p11env \<Rightarrow> CK_RV \<Rightarrow> addr list \<Rightarrow> ('e world, CK_RV \<times> addr option \<times> bool) state" where
  "login_scan E r [] = ret (r, None, False)"
| "login_scan E r (a # as) = do {
     s \<leftarrow> get_s a;
     if s_is_login s then do {
       r \<leftarrow> p11prov_mutex_lock E (LkSession a);
       s \<leftarrow> get_s a;
       (r, found) \<leftarrow>
         (if r = CKR_OK \<and> s_is_login s then
            if s_in_use s then
              ret (if is_login_state (s_state s) then CKR_USER_ALREADY_LOGGED_IN else CKR_CANT_LOCK, False)
            else if s_is_broken s then ret (CKR_CANT_LOCK, False)
            else do { upd_s a (\<lambda>s. s\<lparr>s_in_use := True\<rparr>); ret (r, True) }
          else ret (r, False));
       _ \<leftarrow> p11prov_mutex_unlock E (LkSession a);
       if r \<noteq> CKR_OK \<or> found then ret (r, if found then Some a else None, True)
       else login_scan E r as }
     else login_scan E r as }"

fun take_scan ::
    "'e p11env \<Rightarrow> (session \<Rightarrow> bool) \<Rightarrow> (session \<Rightarrow> bool) \<Rightarrow> (addr \<Rightarrow> ('e world, unit) state) \<Rightarrow>
     CK_RV \<Rightarrow> addr list \<Rightarrow> ('e world, CK_RV \<times> addr option) state" where
  "take_scan E test can_take prepare r [] = ret (r, None)"
| "take_scan E test can_take prepare r (a # as) = do {
     s \<leftarrow> get_s a;
     if \<not> test s then take_scan E test can_take prepare r as
     else do {
       r \<leftarrow> p11prov_mutex_lock E (LkSession a);
       if r = CKR_OK then do {
         s \<leftarrow> get_s a;
         if can_take s then do {
           prepare a;
           upd_s a (\<lambda>s. s\<lparr>s_in_use := True\<rparr>);
           _ \<leftarrow> p11prov_mutex_unlock E (LkSession a);
           ret (r, Some a) }
         else do {
           _ \<leftarrow> p11prov_mutex_unlock E (LkSession a);
           take_scan E test can_take prepare r as } }
       else take_scan E test can_take prepare r as } }"

definition idle :: "session \<Rightarrow> bool" where
  "idle s \<longleftrightarrow> \<not> s_in_use s \<and> \<not> s_is_login s \<and> \<not> s_is_broken s"

definition recyclable :: "session \<Rightarrow> bool" where
  "recyclable s \<longleftrightarrow> \<not> s_in_use s \<and> s_is_broken s \<and> s_refcnt s = 0"

definition scan_step ::
    "'e p11env \<Rightarrow> (session \<Rightarrow> bool) \<Rightarrow> (session \<Rightarrow> bool) \<Rightarrow> (addr \<Rightarrow> ('e world, unit) state) \<Rightarrow>
     addr list \<Rightarrow> CK_RV \<times> addr option \<Rightarrow> ('e world, CK_RV \<times> addr option) state" where
  "scan_step E test can_take prepare as y =
     (case y of (r, Some a) \<Rightarrow> ret y | (r, None) \<Rightarrow> take_scan E test can_take prepare r as)"

definition usable :: "session \<Rightarrow> bool" where
  "usable s \<longleftrightarrow> \<not> s_is_login s \<and> \<not> s_is_broken s"

definition cached_with :: "CK_FLAGS \<Rightarrow> session \<Rightarrow> bool" where
  "cached_with flags s \<longleftrightarrow> usable s \<and> s_flags s = flags \<and> s_session s \<noteq> CK_INVALID_HANDLE"

text \<open>
  After the search for a login session: a cached and referenced session, a cached one, any idle
  one, a broken one to recycle, and at last a new one.
\<close>

definition fetch_free ::
    "'e p11env \<Rightarrow> addr \<Rightarrow> CK_FLAGS \<Rightarrow> addr list \<Rightarrow> CK_RV \<Rightarrow> ('e world, CK_RV \<times> addr option) state" where
  "fetch_free E p flags as r = do {
     y \<leftarrow> scan_step E (\<lambda>s. cached_with flags s \<and> s_refcnt s \<noteq> 0) idle (\<lambda>_. ret ()) as (r, None);
     y \<leftarrow> scan_step E (cached_with flags) idle (\<lambda>_. ret ()) as y;
     y \<leftarrow> scan_step E usable idle (\<lambda>_. ret ()) as y;
     y \<leftarrow> scan_step E s_is_broken recyclable (token_session_close E) as y;
     case y of (r, Some a) \<Rightarrow> ret y | (r, None) \<Rightarrow> session_new E p }"

definition fetch_session ::
    "'e p11env \<Rightarrow> addr \<Rightarrow> CK_FLAGS \<Rightarrow> bool \<Rightarrow> ('e world, CK_RV \<times> addr option) state" where
  "fetch_session E p flags login_session = do {
     r \<leftarrow> p11prov_mutex_lock E (LkPool p);
     if r \<noteq> CKR_OK then ret (r, None)
     else do {
       pool \<leftarrow> get_p p;
       let as = sp_sessions pool;
       (r, x, goto_done) \<leftarrow> (if login_session then login_scan E r as else ret (r, None, False));
       (r, x) \<leftarrow> (if goto_done then ret (r, x) else fetch_free E p flags as r);
       _ \<leftarrow> p11prov_mutex_unlock E (LkPool p);
       ret (if r = CKR_OK then (r, x) else (r, None)) } }"

definition p11prov_session_set_callback :: "addr \<Rightarrow> nat option \<Rightarrow> ('e world, unit) state" where
  "p11prov_session_set_callback a cb = upd_s a (\<lambda>s. s\<lparr>s_cb := cb\<rparr>)"

definition p11prov_session_mark_broken :: "addr option \<Rightarrow> ('e world, unit) state" where
  "p11prov_session_mark_broken x =
     (case x of None \<Rightarrow> ret () | Some a \<Rightarrow> upd_s a (\<lambda>s. s\<lparr>s_is_broken := True\<rparr>))"

definition count_open :: "addr \<Rightarrow> ('e world, nat) state" where
  "count_open p = gets (\<lambda>w. length (filter (\<lambda>a. s_session (h_cells (w_sess w) a) \<noteq> CK_INVALID_HANDLE)
     (sp_sessions (h_cells (w_pools w) p))))"

definition p11prov_return_session :: "'e p11env \<Rightarrow> addr option \<Rightarrow> ('e world, unit) state" where
  "p11prov_return_session E x =
     (case x of
        None \<Rightarrow> ret ()
      | Some a \<Rightarrow> do {
          p11prov_session_set_callback a None;
          s \<leftarrow> get_s a;
          let has_ref = s_refcnt s > 0;
          let pool = s_pool s;
            (if \<not> has_ref then do {
              close_session \<leftarrow>
                (if s_is_broken s then ret True
                 else (case pool of
                   None \<Rightarrow> ret False
                 | Some p \<Rightarrow> do {
                     r \<leftarrow> p11prov_mutex_lock E (LkPool p);
                     open_sessions \<leftarrow>
                       (if r = CKR_OK then do {
                          n \<leftarrow> count_open p;
                          _ \<leftarrow> p11prov_mutex_unlock E (LkPool p);
                          ret n }
                        else ret 0);
                     q \<leftarrow> get_p p;
                     ret (of_nat open_sessions \<ge> sp_max_cached_sessions q) }));
              if close_session then token_session_close E a else ret () }
            else ret ());
            r \<leftarrow> p11prov_mutex_lock E (LkSession a);
            if r = CKR_OK then do {
              upd_s a (\<lambda>s. s\<lparr>s_in_use := False\<rparr>);
              _ \<leftarrow> p11prov_mutex_unlock E (LkSession a);
              if pool = None then session_free E (Some a) else ret () }
            else ret () })"

section \<open>Frames\<close>

text \<open>
  \<open>sess_frame A w w'\<close>: going from \<open>w\<close> to \<open>w'\<close> nothing changed but the environment, the held locks
  and the contents of the sessions in \<open>A\<close>. \<open>same_admin\<close>: only what the module knows of a session (its
  handle, flags and state) changed.
\<close>

definition sess_frame :: "addr set \<Rightarrow> 'e world \<Rightarrow> 'e world \<Rightarrow> bool" where
  "sess_frame A w w' \<longleftrightarrow> w_ctx w' = w_ctx w \<and> w_pools w' = w_pools w \<and> w_objs w' = w_objs w \<and>
     w_opools w' = w_opools w \<and> w_slots w' = w_slots w \<and>
     h_live (w_sess w') = h_live (w_sess w) \<and> h_brk (w_sess w') = h_brk (w_sess w) \<and>
     (\<forall>b. b \<notin> A \<longrightarrow> h_cells (w_sess w') b = h_cells (w_sess w) b)"

definition same_admin :: "session \<Rightarrow> session \<Rightarrow> bool" where
  "same_admin s s' \<longleftrightarrow> s_pool s' = s_pool s \<and> s_slotid s' = s_slotid s \<and> s_in_use s' = s_in_use s \<and>
     s_cb s' = s_cb s \<and> s_refcnt s' = s_refcnt s \<and> s_is_login s' = s_is_login s \<and>
     s_is_broken s' = s_is_broken s"

lemma sess_frame_refl [simp]: "sess_frame A w w"
  by (simp add: sess_frame_def)

lemma sess_frame_trans: "sess_frame A w w1 \<Longrightarrow> sess_frame A w1 w2 \<Longrightarrow> sess_frame A w w2"
  by (simp add: sess_frame_def)

lemma sess_frame_mono: "sess_frame A w w' \<Longrightarrow> A \<subseteq> B \<Longrightarrow> sess_frame B w w'"
  by (auto simp: sess_frame_def)

lemma same_admin_refl [simp]: "same_admin s s"
  by (simp add: same_admin_def)

lemma same_admin_trans: "same_admin s t \<Longrightarrow> same_admin t u \<Longrightarrow> same_admin s u"
  by (simp add: same_admin_def)

lemma sess_frame_steps [simp]:
  "sess_frame A w (w'\<lparr>w_env := e\<rparr>) = sess_frame A w w'"
  "sess_frame A w (w'\<lparr>w_held := l\<rparr>) = sess_frame A w w'"
  "sess_frame A w (w'\<lparr>w_env := e, w_held := l\<rparr>) = sess_frame A w w'"
  "sess_frame A (w\<lparr>w_env := e\<rparr>) w' = sess_frame A w w'"
  "sess_frame A (w\<lparr>w_held := l\<rparr>) w' = sess_frame A w w'"
  "sess_frame A (w\<lparr>w_env := e, w_held := l\<rparr>) w' = sess_frame A w w'"
  by (simp_all add: sess_frame_def)

lemma sess_frame_upd: "a \<in> A \<Longrightarrow> sess_frame A w w' \<Longrightarrow> sess_frame A w (w'\<lparr>w_sess := hupd a f (w_sess w')\<rparr>)"
  by (auto simp: sess_frame_def)

lemma same_admin_upd [simp]:
  "same_admin s (s'\<lparr>s_session := h\<rparr>) = same_admin s s'" "same_admin s (s'\<lparr>s_flags := f\<rparr>) = same_admin s s'"
  "same_admin s (s'\<lparr>s_state := st\<rparr>) = same_admin s s'" "same_admin s (set_closed s') = same_admin s s'"
  by (simp_all add: same_admin_def set_closed_def)

abbreviation cell :: "'e world \<Rightarrow> addr \<Rightarrow> session" where
  "cell w a \<equiv> h_cells (w_sess w) a"

abbreviation pcell :: "'e world \<Rightarrow> addr \<Rightarrow> session_pool" where
  "pcell w p \<equiv> h_cells (w_pools w) p"

lemma wp_cyclewait:
  "(\<And>again st e. Q (again, st) (w\<lparr>w_env := e\<rparr>)) \<Longrightarrow> wp (cyclewait_with_timeout E mw d st) Q w"
  by (auto simp: cyclewait_with_timeout_def wp_simps wp_case_option split: prod.split option.split)

lemma wp_retry:
  assumes "I w" and "\<And>w. I w \<Longrightarrow> wp attempt (\<lambda>r w'. I w' \<and> P r w') w"
    and "\<And>w e. I w \<Longrightarrow> I (w\<lparr>w_env := e\<rparr>)" and "\<And>r w e. P r w \<Longrightarrow> P r (w\<lparr>w_env := e\<rparr>)"
  shows "wp (retry E n d attempt stop st) (\<lambda>r w'. I w' \<and> P r w') w"
  using assms(1)
proof (induction n arbitrary: w st)
  case 0
  show ?case
    by (subst retry.simps) (rule wp_seq [OF assms(2) [OF 0]],
      auto simp: wp_simps intro!: wp_cyclewait assms(3,4) wp_seq [where P = "\<lambda>_ w. I w \<and> P _ w"])
next
  case (Suc n)
  show ?case
    by (subst retry.simps) (rule wp_seq [OF assms(2) [OF Suc.prems]],
      auto simp: wp_simps intro!: wp_cyclewait assms(3,4) Suc.IH)
qed

text \<open>The module never gives out the invalid handle for a session it opened.\<close>

definition opens_valid :: "'e p11env \<Rightarrow> bool" where
  "opens_valid E \<longleftrightarrow> (\<forall>slot fl cb e h e'. E_OpenSession E slot fl cb e = ((CKR_OK, h), e') \<longrightarrow> h \<noteq> CK_INVALID_HANDLE)"

lemma opens_validD:
  "opens_valid E \<Longrightarrow> E_OpenSession E slot fl cb e = ((CKR_OK, h), e') \<Longrightarrow> h \<noteq> CK_INVALID_HANDLE"
  unfolding opens_valid_def by blast

lemma wp_token_session_open:
  "wp (token_session_open E a flags)
     (\<lambda>r w'. sess_frame {a} w w' \<and> same_admin (cell w a) (cell w' a) \<and>
        (opens_valid E \<longrightarrow> r = CKR_OK \<longrightarrow> s_session (cell w' a) \<noteq> CK_INVALID_HANDLE)) w"
proof -
  let ?I = "\<lambda>w'. sess_frame {a} w w' \<and> same_admin (cell w a) (cell w' a)"
  let ?P = "\<lambda>r w'. opens_valid E \<longrightarrow> r = CKR_OK \<longrightarrow> s_session (cell w' a) \<noteq> CK_INVALID_HANDLE"
  have att: "wp (open_attempt E a flags) (\<lambda>r w'. ?I w' \<and> ?P r w') v" if "?I v" for v
    using that 
    by (auto simp: open_attempt_def wp_simps sess_frame_def split: prod.split dest: opens_validD)
  show ?thesis
    unfolding token_session_open_def
    by (rule wp_seq [OF wp_retry [where I = ?I and P = ?P]])
      (use att in \<open>auto simp: wp_simps sess_frame_def set_closed_def split: prod.split\<close>)
qed

lemma wp_token_session_close:
  "wp (token_session_close E a)
     (\<lambda>_ w'. sess_frame {a} w w' \<and> s_session (cell w' a) = CK_INVALID_HANDLE \<and>
        same_admin (cell w a) ((cell w' a)\<lparr>s_is_broken := s_is_broken (cell w a)\<rparr>) \<and>
        (s_is_broken (cell w' a) \<longrightarrow> s_is_broken (cell w a))) w"
  by (auto simp: token_session_close_def wp_simps sess_frame_def set_closed_def same_admin_def split: prod.split)


section \<open>The pool invariant\<close>

text \<open>
  The sessions of a pool are distinct allocated blocks that belong to the pool and to its slot,
  and there are at most \<open>max_sessions\<close> of them.
\<close>

definition pool_inv :: "addr \<Rightarrow> 'e world \<Rightarrow> bool" where
  "pool_inv p w \<longleftrightarrow> heap_ok (w_sess w) \<and> distinct (sp_sessions (pcell w p)) \<and>
     length (sp_sessions (pcell w p)) \<le> unat (sp_max_sessions (pcell w p)) \<and>
     (\<forall>a \<in> set (sp_sessions (pcell w p)). h_live (w_sess w) a \<and> s_pool (cell w a) = Some p \<and>
        s_slotid (cell w a) = sp_slotid (pcell w p))"

text \<open>
  \<open>taken p w a w'\<close>: session \<open>a\<close> of the pool, which was not in use, was taken; no other session and
  nothing else changed.
\<close>

definition taken :: "addr \<Rightarrow> 'e world \<Rightarrow> addr \<Rightarrow> 'e world \<Rightarrow> bool" where
  "taken p w a w' \<longleftrightarrow> a \<in> set (sp_sessions (pcell w p)) \<and> sess_frame {a} w w' \<and>
     \<not> s_in_use (cell w a) \<and> s_in_use (cell w' a) \<and>
     s_pool (cell w' a) = s_pool (cell w a) \<and> s_slotid (cell w' a) = s_slotid (cell w a) \<and>
     s_refcnt (cell w' a) = s_refcnt (cell w a) \<and> s_is_login (cell w' a) = s_is_login (cell w a) \<and>
     (s_session (cell w' a) = s_session (cell w a) \<or>
        s_is_broken (cell w a) \<and> s_refcnt (cell w a) = 0)"

lemma wp_login_scan:
  assumes "sess_frame {} w0 w" and "set as \<subseteq> set (sp_sessions (pcell w0 p))"
  shows "wp (login_scan E r as) (\<lambda>(r', x, goto_done) w'.
     (case x of None \<Rightarrow> sess_frame {} w0 w' \<and> (goto_done \<longrightarrow> r' \<noteq> CKR_OK)
      | Some a \<Rightarrow> goto_done \<and> r' = CKR_OK \<and> taken p w0 a w' \<and> s_is_login (cell w0 a))) w"
  using assms
proof (induction as arbitrary: w r)
  case Nil
  then show ?case by (simp add: wp_simps)
next
  case (Cons a as)
  have "wp (login_scan E r' as) (\<lambda>(r', x, goto_done) w'.
     (case x of None \<Rightarrow> sess_frame {} w0 w' \<and> (goto_done \<longrightarrow> r' \<noteq> CKR_OK)
      | Some a \<Rightarrow> goto_done \<and> r' = CKR_OK \<and> taken p w0 a w' \<and> s_is_login (cell w0 a))) v"
    if "sess_frame {} w0 v" for v r' using Cons.IH [OF that] Cons.prems(2) by simp
  then show ?case
    using Cons.prems
    by (auto simp: wp_simps taken_def sess_frame_def split: prod.split)
qed

lemma wp_take_scan:
  assumes "sess_frame {} w0 w" and "set as \<subseteq> set (sp_sessions (pcell w0 p))"
    and "\<And>s. can_take s \<Longrightarrow> \<not> s_in_use s"
    and "\<And>a w. wp (prepare a) (\<lambda>_ w'. sess_frame {a} w w' \<and>
           same_admin (cell w a) ((cell w' a)\<lparr>s_is_broken := s_is_broken (cell w a)\<rparr>) \<and>
           (s_session (cell w' a) = s_session (cell w a) \<or> \<not> can_take (cell w a) \<or>
              s_is_broken (cell w a) \<and> s_refcnt (cell w a) = 0)) w"
  shows "wp (take_scan E test can_take prepare r as) (\<lambda>(r', x) w'.
     (case x of None \<Rightarrow> sess_frame {} w0 w' | Some a \<Rightarrow> r' = CKR_OK \<and> taken p w0 a w')) w"
  using assms(1,2)
proof (induction as arbitrary: w r)
  case Nil
  then show ?case by (simp add: wp_simps)
next
  case (Cons a as)
  let ?Q = "\<lambda>(r', x) w'. (case x of None \<Rightarrow> sess_frame {} w0 w' | Some a \<Rightarrow> r' = CKR_OK \<and> taken p w0 a w')"
  have IH: "wp (take_scan E test can_take prepare r' as) ?Q v"
    if "sess_frame {} w0 v" for v r' using Cons.IH [OF that] Cons.prems(2) by simp
  show ?case
    using Cons.prems assms(3)
    by (auto simp: wp_simps taken_def sess_frame_def same_admin_def split: prod.split
        intro!: IH wp_mono [OF assms(4)])
qed

lemma wp_session_free_idle:
  assumes "\<not> s_in_use (cell w a)" and "s_session (cell w a) = CK_INVALID_HANDLE"
  shows "wp (session_free E (Some a)) (\<lambda>_ w'. w_ctx w' = w_ctx w \<and> w_pools w' = w_pools w \<and>
     w_objs w' = w_objs w \<and> w_opools w' = w_opools w \<and> w_slots w' = w_slots w \<and>
     h_brk (w_sess w') = h_brk (w_sess w) \<and> (\<forall>b. b \<noteq> a \<longrightarrow> cell w' b = cell w b) \<and>
     (\<forall>b. b \<noteq> a \<longrightarrow> h_live (w_sess w') b = h_live (w_sess w) b) \<and>
     (h_live (w_sess w') a \<longrightarrow> h_live (w_sess w) a)) w"
  using assms by (auto simp: session_free_def token_session_close_def wp_simps split: prod.split)

text \<open>
  \<open>grown p w a w'\<close>: the new session \<open>a\<close> was appended to the pool and is in use; \<open>untouched w w'\<close>:
  no session that was allocated before and nothing else changed.
\<close>

definition untouched :: "'e world \<Rightarrow> 'e world \<Rightarrow> bool" where
  "untouched w w' \<longleftrightarrow> w_ctx w' = w_ctx w \<and> w_objs w' = w_objs w \<and> w_opools w' = w_opools w \<and>
     w_slots w' = w_slots w \<and> h_brk (w_sess w) \<le> h_brk (w_sess w') \<and>
     (\<forall>b < h_brk (w_sess w). cell w' b = cell w b \<and> h_live (w_sess w') b = h_live (w_sess w) b)"

definition grown :: "addr \<Rightarrow> 'e world \<Rightarrow> addr \<Rightarrow> 'e world \<Rightarrow> bool" where
  "grown p w a w' \<longleftrightarrow> untouched w w' \<and> a = h_brk (w_sess w) \<and> h_live (w_sess w') a \<and>
     w_pools w' = hupd p (\<lambda>pool. pool\<lparr>sp_sessions := sp_sessions pool @ [a]\<rparr>) (w_pools w) \<and>
     of_nat (length (sp_sessions (pcell w p))) < sp_max_sessions (pcell w p) \<and>
     s_in_use (cell w' a) \<and> s_pool (cell w' a) = Some p \<and> s_slotid (cell w' a) = sp_slotid (pcell w p) \<and>
     s_session (cell w' a) = CK_INVALID_HANDLE \<and> s_refcnt (cell w' a) = 0 \<and> \<not> s_is_login (cell w' a) \<and>
     \<not> s_is_broken (cell w' a) \<and> heap_ok (w_sess w') = heap_ok (w_sess w)"

lemma wp_session_new:
  assumes "heap_ok (w_sess w)"
  shows "wp (session_new E p) (\<lambda>(r, x) w'.
     (case x of None \<Rightarrow> r \<noteq> CKR_OK \<and> untouched w w' \<and> w_pools w' = w_pools w \<and> heap_ok (w_sess w')
      | Some a \<Rightarrow> r = CKR_OK \<and> grown p w a w')) w"
  using assms
  by (auto simp: session_new_def session_new_bare_def session_free_def token_session_close_def wp_simps
      wp_case_option set_closed_def zero_session_def grown_def untouched_def heap_ok_def
      split: prod.split option.split)


lemma sess_frame_empty:
  assumes "sess_frame {} w w1"
  shows "untouched w1 w' \<Longrightarrow> untouched w w'" and "grown p w1 a w' \<Longrightarrow> grown p w a w'"
    and "w_pools w1 = w_pools w" and "heap_ok (w_sess w1) = heap_ok (w_sess w)"
  using assms by (auto simp: sess_frame_def untouched_def grown_def heap_ok_def)

definition fetched :: "addr \<Rightarrow> 'e world \<Rightarrow> CK_RV \<times> addr option \<Rightarrow> 'e world \<Rightarrow> bool" where
  "fetched p w rx w' = (case rx of
     (r, None) \<Rightarrow> r \<noteq> CKR_OK \<and> untouched w w' \<and> w_pools w' = w_pools w \<and> heap_ok (w_sess w')
   | (r, Some a) \<Rightarrow> r = CKR_OK \<and> (taken p w a w' \<or> grown p w a w'))"

lemma unobs_fetched [simp]:
  "fetched p w rx (w'\<lparr>w_env := e\<rparr>) = fetched p w rx w'"
  "fetched p w rx (w'\<lparr>w_held := l\<rparr>) = fetched p w rx w'"
  "fetched p w rx (w'\<lparr>w_env := e, w_held := l\<rparr>) = fetched p w rx w'"
  by (auto simp: fetched_def untouched_def taken_def grown_def split: prod.split option.split)

lemma fetched_frame: "sess_frame {} w w1 \<Longrightarrow> fetched p w1 rx w' \<Longrightarrow> heap_ok (w_sess w) \<Longrightarrow> fetched p w rx w'"
  by (auto simp: fetched_def sess_frame_def untouched_def taken_def grown_def heap_ok_def split: prod.splits option.splits)

lemma wp_session_new_fetched: "heap_ok (w_sess w) \<Longrightarrow> wp (session_new E p) (fetched p w) w"
  by (rule wp_mono [OF wp_session_new]) (auto simp: fetched_def split: prod.splits option.splits)

definition scanned :: "addr \<Rightarrow> 'e world \<Rightarrow> CK_RV \<times> addr option \<Rightarrow> 'e world \<Rightarrow> bool" where
  "scanned p w y w' = (case snd y of
     None \<Rightarrow> sess_frame {} w w' | Some a \<Rightarrow> fst y = CKR_OK \<and> taken p w a w')"

lemma wp_scan_step:
  assumes "scanned p w0 y w"
    and "\<And>s. can_take s \<Longrightarrow> \<not> s_in_use s"
    and "\<And>a w. wp (prepare a) (\<lambda>_ w'. sess_frame {a} w w' \<and>
           same_admin (cell w a) ((cell w' a)\<lparr>s_is_broken := s_is_broken (cell w a)\<rparr>) \<and>
           (s_session (cell w' a) = s_session (cell w a) \<or> \<not> can_take (cell w a) \<or>
              s_is_broken (cell w a) \<and> s_refcnt (cell w a) = 0)) w"
  shows "wp (scan_step E test can_take prepare (sp_sessions (pcell w0 p)) y) (scanned p w0) w"
proof (cases y)
  case (Pair r x)
  show ?thesis
  proof (cases x)
    case None
    have "wp (take_scan E test can_take prepare r (sp_sessions (pcell w0 p))) (\<lambda>(r', x) w'.
       (case x of None \<Rightarrow> sess_frame {} w0 w' | Some a \<Rightarrow> r' = CKR_OK \<and> taken p w0 a w')) w"
      by (rule wp_take_scan) (use assms Pair None in \<open>auto simp: scanned_def\<close>)
    then show ?thesis
      unfolding scan_step_def Pair None prod.case option.case
      by (rule wp_mono) (auto simp: scanned_def split: prod.splits option.splits)
  next
    case (Some a)
    then show ?thesis using assms(1) by (simp add: Pair wp_simps scan_step_def)
  qed
qed

lemma wp_fetch_free:
  assumes "heap_ok (w_sess w)" and "sess_frame {} w v"
  shows "wp (fetch_free E p flags (sp_sessions (pcell w p)) r) (fetched p w) v"
proof -
  have idle: "wp (scan_step E test idle (\<lambda>_. ret ()) (sp_sessions (pcell w p)) y) (scanned p w) v"
    if "scanned p w y v" for y v test
    by (rule wp_scan_step [OF that]) (auto simp: wp_simps same_admin_def idle_def)
  have close: "wp (scan_step E test recyclable (token_session_close E) (sp_sessions (pcell w p)) y) (scanned p w) v"
    if "scanned p w y v" for y v test
    by (rule wp_scan_step [OF that _ wp_mono [OF wp_token_session_close]]) (auto simp: recyclable_def)
  have new: "wp (case y of (r, Some a) \<Rightarrow> ret y | (r, None) \<Rightarrow> session_new E p) (fetched p w) v"
    if "scanned p w y v" for y v
  proof (cases "snd y")
    case None
    then have f: "sess_frame {} w v" using that by (simp add: scanned_def)
    have "heap_ok (w_sess v)" using sess_frame_empty(4) [OF f] assms(1) by simp
    then have "wp (session_new E p) (fetched p w) v"
      by (intro wp_mono [OF wp_session_new_fetched]) (auto intro: fetched_frame [OF f _ assms(1)])
    then show ?thesis using None by (cases y) simp
  next
    case (Some a)
    then show ?thesis using that by (cases y) (simp add: scanned_def wp_simps fetched_def)
  qed
  show ?thesis
    unfolding fetch_free_def
    by (rule wp_seq [OF idle], simp add: scanned_def assms(2), rule wp_seq [OF idle], assumption,
        rule wp_seq [OF idle], assumption, rule wp_seq [OF close], assumption, rule new, assumption)
qed

lemma fetched_None: "sess_frame {} w w' \<Longrightarrow> heap_ok (w_sess w) \<Longrightarrow> r \<noteq> CKR_OK \<Longrightarrow> fetched p w (r, None) w'"
  by (auto simp: fetched_def sess_frame_def untouched_def heap_ok_def)

lemma fetched_Some: "taken p w a w' \<Longrightarrow> fetched p w (CKR_OK, Some a) w'"
  by (simp add: fetched_def)

lemma wp_fetch_session:
  assumes "heap_ok (w_sess w)"
  shows "wp (fetch_session E p flags login) (fetched p w) w"
proof -
  have login: "wp (if login then login_scan E r (sp_sessions (pcell w p)) else ret (r, None, False))
     (\<lambda>(r', x, goto_done) w'. if goto_done then fetched p w (if r' = CKR_OK then (r', x) else (r', None)) w'
        else sess_frame {} w w') v" if "sess_frame {} w v" for v r
    by (cases login)
      (use that assms in
        \<open>auto simp: wp_simps intro!: fetched_None fetched_Some wp_mono [OF wp_login_scan [OF that, where p = p]] split: option.splits\<close>)
  have fin: "wp (do { (r, x) \<leftarrow> (if goto_done then ret (r, x) else fetch_free E p flags (sp_sessions (pcell w p)) r);
       _ \<leftarrow> p11prov_mutex_unlock E (LkPool p); ret (if r = CKR_OK then (r, x) else (r, None)) }) (fetched p w) v"
    if "if goto_done then fetched p w (if r = CKR_OK then (r, x) else (r, None)) v else sess_frame {} w v"
    for v r x goto_done
  proof (cases goto_done)
    case True
    then show ?thesis using that by (auto simp: wp_simps split: prod.split)
  next
    case False
    then have "wp (fetch_free E p flags (sp_sessions (pcell w p)) r) (fetched p w) v"
      using that wp_fetch_free [OF assms] by simp
    then show ?thesis using False
      by (simp add: wp_simps) (erule wp_mono, auto simp: fetched_def split: prod.splits option.splits)
  qed
  have body: "wp (do { (r, x, goto_done) \<leftarrow> (if login then login_scan E r (sp_sessions (pcell w p)) else ret (r, None, False));
       (r, x) \<leftarrow> (if goto_done then ret (r, x) else fetch_free E p flags (sp_sessions (pcell w p)) r);
       _ \<leftarrow> p11prov_mutex_unlock E (LkPool p); ret (if r = CKR_OK then (r, x) else (r, None)) }) (fetched p w) v"
    if "sess_frame {} w v" for r v
    by (rule wp_seq [OF login [OF that]], clarify, rule fin, simp)
  show ?thesis
    unfolding fetch_session_def Let_def
  proof (rule wp_seq [where P = "\<lambda>_. sess_frame {} w"])
    fix r v
    assume v: "sess_frame {} w v"
    show "wp (if r \<noteq> CKR_OK then ret (r, None) else do { pool \<leftarrow> get_p p;
        (r, x, goto_done) \<leftarrow> (if login then login_scan E r (sp_sessions pool) else ret (r, None, False));
        (r, x) \<leftarrow> (if goto_done then ret (r, x) else fetch_free E p flags (sp_sessions pool) r);
        _ \<leftarrow> p11prov_mutex_unlock E (LkPool p); ret (if r = CKR_OK then (r, x) else (r, None)) }) (fetched p w) v"
      using body [OF v, of r] fetched_None [OF v assms, of r p] sess_frame_empty(3) [OF v]
      by (cases "r = CKR_OK") (simp_all only: wp_bind [of "gets _"] wp_gets wp_return if_True if_False simp_thms)
  qed (simp add: wp_simps split: prod.split)
qed

text \<open>
  C3. \<open>fetch_session\<close> gives out a session exclusively: when it returns \<open>CKR_OK\<close> the session is
  either one of the pool that was not in use and is now marked in use, or a new one appended to
  the pool while the pool is below its maximum; no other session changes. A session that is
  taken keeps its handle and its references, unless it was broken and unreferenced. When it
  fails, no session has changed.
\<close>

theorem fetch_session_exclusive:
  assumes "heap_ok (w_sess w)"
  shows "wp (fetch_session E p flags login) (\<lambda>(r, x) w'.
     (case x of None \<Rightarrow> r \<noteq> CKR_OK \<and> untouched w w' \<and> w_pools w' = w_pools w
      | Some a \<Rightarrow> r = CKR_OK \<and> (taken p w a w' \<or> grown p w a w'))) w"
  by (rule wp_mono [OF wp_fetch_session [OF assms]]) (auto simp: fetched_def split: option.splits)

lemma fetched_taken_or_grown:
  "fetched p w (r, Some a) w' \<Longrightarrow> r = CKR_OK \<and> (taken p w a w' \<or> grown p w a w')"
  by (simp add: fetched_def)

lemma pool_inv_frame:
  assumes "pool_inv p w" and "sess_frame A w w'"
    and "\<And>a. a \<in> A \<Longrightarrow> s_pool (cell w' a) = s_pool (cell w a) \<and> s_slotid (cell w' a) = s_slotid (cell w a)"
  shows "pool_inv p w'"
proof -
  have "s_pool (cell w' a) = s_pool (cell w a) \<and> s_slotid (cell w' a) = s_slotid (cell w a)" for a
    using assms(2,3) by (cases "a \<in> A") (auto simp: sess_frame_def)
  then show ?thesis using assms(1,2) by (auto simp: pool_inv_def sess_frame_def heap_ok_def)
qed

lemma pool_inv_taken: "pool_inv p w \<Longrightarrow> taken p w a w' \<Longrightarrow> pool_inv p w'"
  by (rule pool_inv_frame [where A = "{a}"]) (auto simp: taken_def)

lemma pool_inv_grown:
  assumes "pool_inv p w" and "grown p w a w'"
  shows "pool_inv p w'"
proof -
  let ?n = "length (sp_sessions (pcell w p))"
  have "?n < 2 ^ 64"
    using assms(1) unat_64_less [of "sp_max_sessions (pcell w p)"] by (simp add: pool_inv_def)
  then have "?n < unat (sp_max_sessions (pcell w p))"
    using assms(2) by (simp add: grown_def word_less_nat_alt unsigned_of_nat take_bit_nat_eq_self)
  moreover have "a \<notin> set (sp_sessions (pcell w p))"
    using assms by (auto simp: pool_inv_def grown_def heap_ok_def)
  ultimately show ?thesis
    using assms by (auto simp: pool_inv_def grown_def untouched_def heap_ok_def)
qed

lemma pool_inv_untouched:
  "pool_inv p w \<Longrightarrow> untouched w w' \<Longrightarrow> w_pools w' = w_pools w \<Longrightarrow> heap_ok (w_sess w') \<Longrightarrow> pool_inv p w'"
  unfolding pool_inv_def untouched_def heap_ok_def by simp

lemma pool_inv_fetched: "pool_inv p w \<Longrightarrow> fetched p w (r, x) w' \<Longrightarrow> pool_inv p w'"
  by (cases x) (auto simp: fetched_def intro: pool_inv_taken pool_inv_grown pool_inv_untouched)

lemma wp_session_check:
  "wp (session_check E (Some a) flags)
     (\<lambda>r w'. sess_frame {a} w w' \<and> same_admin (cell w a) (cell w' a) \<and> s_flags (cell w' a) = s_flags (cell w a) \<and>
        (s_session (cell w' a) = s_session (cell w a) \<or> s_session (cell w' a) = CK_INVALID_HANDLE) \<and>
        (r = CKR_OK \<longrightarrow> s_in_use (cell w a) \<and> s_session (cell w' a) = s_session (cell w a)) \<and>
        (r = CKR_SESSION_READ_ONLY \<longrightarrow> s_refcnt (cell w a) \<noteq> 0 \<or> s_session (cell w' a) = CK_INVALID_HANDLE)) w"
  by (auto simp: session_check_def wp_simps sess_frame_def same_admin_def split: prod.split)

text \<open>
  C16. Returning a session: with working locks the session is released, its callback is removed, its references and
  its login mark are kept, and nothing else changes. A session with references keeps its handle;
  one without references is closed exactly when it is broken or when at least
  \<open>max_cached_sessions\<close> sessions of the pool are open.
\<close>

theorem return_session_spec:
  assumes "s_pool (cell w a) = Some p" and "\<And>l e. fst (E_lock E l e)"
  shows "wp (p11prov_return_session E (Some a)) (\<lambda>_ w'. sess_frame {a} w w' \<and>
      \<not> s_in_use (cell w' a) \<and> s_cb (cell w' a) = None \<and> s_pool (cell w' a) = Some p \<and>
      s_slotid (cell w' a) = s_slotid (cell w a) \<and>
      s_refcnt (cell w' a) = s_refcnt (cell w a) \<and> s_is_login (cell w' a) = s_is_login (cell w a) \<and>
      s_session (cell w' a) =
        (if s_refcnt (cell w a) > 0 then s_session (cell w a)
         else if s_is_broken (cell w a) \<or>
            of_nat (length (filter (\<lambda>b. s_session (cell w b) \<noteq> CK_INVALID_HANDLE) (sp_sessions (pcell w p))))
              \<ge> sp_max_cached_sessions (pcell w p)
         then CK_INVALID_HANDLE else s_session (cell w a))) w"
proof -
  have l: "E_lock E l e = (b, e') \<Longrightarrow> b" for l e b e' using assms(2) [of l e] by simp
  have eq: "filter (\<lambda>b. (b = a \<longrightarrow> s_session (cell w a) \<noteq> 0) \<and> (b \<noteq> a \<longrightarrow> s_session (cell w b) \<noteq> 0)) xs =
     filter (\<lambda>b. s_session (cell w b) \<noteq> 0) xs" for xs
    by (rule filter_cong) auto
  note model = p11prov_return_session_def p11prov_session_set_callback_def token_session_close_def
    count_open_def wp_simps sess_frame_def set_closed_def eq
  consider "s_refcnt (cell w a) > 0" | "\<not> s_refcnt (cell w a) > 0" "s_is_broken (cell w a)"
    | "\<not> s_refcnt (cell w a) > 0" "\<not> s_is_broken (cell w a)" by blast
  then show ?thesis
  proof cases
    case 1
    then show ?thesis using assms(1) by (auto simp: model split: prod.split dest!: l)
  next
    case 2
    then show ?thesis using assms(1) by (auto simp: model split: prod.split dest!: l)
  next
    case 3
    then show ?thesis using assms(1) by (auto simp: model if_distrib split: prod.split dest!: l)
  qed
qed


section \<open>Clients of a pool\<close>

text \<open>
  Any number of clients use one pool. The state is the world and the list of sessions that
  clients hold: one enters it when \<open>fetch_session\<close> returns it and leaves it when it is returned.
  While it holds a session a client may open, check, reference, dereference or mark it broken.
  Each operation is one step: it holds the pool's or the session's mutex while it works on
  what other clients can see.
\<close>

inductive client_step :: "'e p11env \<Rightarrow> addr \<Rightarrow> 'e world \<times> addr list \<Rightarrow> 'e world \<times> addr list \<Rightarrow> bool"
  for E p where
  fetch: "run_state (fetch_session E p flags login) w = ((r, Some a), w') \<Longrightarrow>
    client_step E p (w, owned) (w', a # owned)"
| fetch_fails: "run_state (fetch_session E p flags login) w = ((r, None), w') \<Longrightarrow>
    client_step E p (w, owned) (w', owned)"
| return: "a \<in> set owned \<Longrightarrow> run_state (p11prov_return_session E (Some a)) w = ((), w') \<Longrightarrow>
    client_step E p (w, owned) (w', remove1 a owned)"
| reopen: "a \<in> set owned \<Longrightarrow> run_state (token_session_open E a flags) w = (r, w') \<Longrightarrow>
    client_step E p (w, owned) (w', owned)"
| check: "a \<in> set owned \<Longrightarrow> run_state (session_check E (Some a) flags) w = (r, w') \<Longrightarrow>
    client_step E p (w, owned) (w', owned)"
| ref: "a \<in> set owned \<Longrightarrow> run_state (p11prov_session_ref (Some a)) w = ((), w') \<Longrightarrow>
    client_step E p (w, owned) (w', owned)"
| deref: "run_state (p11prov_session_deref (Some a)) w = ((), w') \<Longrightarrow>
    client_step E p (w, owned) (w', owned)"
| broken: "a \<in> set owned \<Longrightarrow> run_state (p11prov_session_mark_broken (Some a)) w = ((), w') \<Longrightarrow>
    client_step E p (w, owned) (w', owned)"

inductive_cases client_stepE: "client_step E p x y"

definition clients_inv :: "addr \<Rightarrow> 'e world \<times> addr list \<Rightarrow> bool" where
  "clients_inv p x \<longleftrightarrow> (case x of (w, owned) \<Rightarrow> pool_inv p w \<and> distinct owned \<and>
     (\<forall>a \<in> set owned. a \<in> set (sp_sessions (pcell w p)) \<and> s_in_use (cell w a)))"

lemma clients_inv_frame:
  assumes "clients_inv p (w, owned)" and "sess_frame {a} w w'"
    and "s_pool (cell w' a) = s_pool (cell w a) \<and> s_slotid (cell w' a) = s_slotid (cell w a)"
    and "a \<in> set owned' \<Longrightarrow> s_in_use (cell w' a)"
    and "distinct owned'" "set owned' \<subseteq> insert a (set owned)" "a \<in> set owned' \<Longrightarrow> a \<in> set (sp_sessions (pcell w p))"
  shows "clients_inv p (w', owned')"
proof -
  have "pool_inv p w'"
    using assms(1-3) by (auto simp: clients_inv_def intro: pool_inv_frame [where A = "{a}"])
  moreover have "b \<in> set (sp_sessions (pcell w' p)) \<and> s_in_use (cell w' b)" if "b \<in> set owned'" for b
    using that assms by (cases "b = a") (auto simp: clients_inv_def sess_frame_def)
  ultimately show ?thesis using assms(5) by (simp add: clients_inv_def)
qed

lemma clients_inv_frame_same:
  assumes "clients_inv p (w, owned)" and "sess_frame {a} w w'"
    and "s_pool (cell w' a) = s_pool (cell w a)" "s_slotid (cell w' a) = s_slotid (cell w a)"
    and "s_in_use (cell w' a) = s_in_use (cell w a)"
  shows "clients_inv p (w', owned)"
  by (rule clients_inv_frame [OF assms(1,2)]) (use assms in \<open>auto simp: clients_inv_def\<close>)

lemma clients_inv_fetch:
  assumes "clients_inv p (w, owned)" and "run_state (fetch_session E p flags login) w = ((r, x), w')"
  shows "clients_inv p (w', (case x of None \<Rightarrow> owned | Some a \<Rightarrow> a # owned))"
proof -
  have inv: "pool_inv p w" and own: "distinct owned"
    "\<And>a. a \<in> set owned \<Longrightarrow> a \<in> set (sp_sessions (pcell w p)) \<and> s_in_use (cell w a)"
    using assms(1) by (auto simp: clients_inv_def)
  have f: "fetched p w (r, x) w'"
    using wp_run [OF wp_fetch_session assms(2)] inv by (simp add: pool_inv_def)
  have inv': "pool_inv p w'" by (rule pool_inv_fetched [OF inv f])
  have below: "a \<in> set owned \<Longrightarrow> a < h_brk (w_sess w)" for a
    using own(2) inv by (auto simp: pool_inv_def heap_ok_def)
  show ?thesis
  proof (cases x)
    case None
    then show ?thesis using f inv' own below by (auto simp: fetched_def clients_inv_def untouched_def)
  next
    case (Some a)
    then consider "taken p w a w'" | "grown p w a w'" using f by (auto simp: fetched_def)
    then show ?thesis
    proof cases
      case 1
      then have "a \<notin> set owned" using own(2) by (auto simp: taken_def)
      then show ?thesis using 1 Some own(1) assms(1)
        by (auto simp: taken_def intro!: clients_inv_frame [where a = a and w = w and owned = owned])
    next
      case 2
      then have "a \<notin> set owned" using below by (auto simp: grown_def)
      then show ?thesis using 2 Some own below inv'
        by (auto simp: clients_inv_def grown_def untouched_def)
    qed
  qed
qed

lemma wp_return_session_frame:
  assumes "s_pool (cell w a) = Some p"
  shows "wp (p11prov_return_session E (Some a)) (\<lambda>_ w'. sess_frame {a} w w' \<and>
      s_pool (cell w' a) = Some p \<and> s_slotid (cell w' a) = s_slotid (cell w a)) w"
  using assms
  by (auto simp: p11prov_return_session_def p11prov_session_set_callback_def token_session_close_def
       count_open_def wp_simps sess_frame_def set_closed_def split: prod.split)

lemma client_step_inv:
  assumes "client_step E p x y" and "clients_inv p x"
  shows "clients_inv p y"
  using assms
proof (cases rule: client_step.cases)
  case (return a owned w w')
  have inv: "clients_inv p (w, owned)" using return(1) assms(2) by simp
  have po: "s_pool (cell w a) = Some p" using inv return(3) by (simp add: clients_inv_def pool_inv_def)
  have d: "set (remove1 a owned) = set owned - {a}" "distinct (remove1 a owned)"
    using inv by (simp_all add: clients_inv_def set_remove1_eq)
  have f: "sess_frame {a} w w' \<and> s_pool (cell w' a) = Some p \<and> s_slotid (cell w' a) = s_slotid (cell w a)"
    by (rule wp_run [OF wp_return_session_frame [OF po] return(4)])
  show ?thesis
    unfolding return(2)
    by (rule clients_inv_frame [OF inv, of a]) (simp_all only: f po d simp_thms, auto)
next
  case (reopen a owned flags w r w')
  have "sess_frame {a} w w' \<and> same_admin (cell w a) (cell w' a)"
    using wp_run [OF wp_token_session_open reopen(4)] by simp
  then show ?thesis
    unfolding reopen(2)
    by (intro clients_inv_frame_same [OF assms(2) [unfolded reopen(1)], of a]) (simp_all add: same_admin_def)
next
  case (check a owned flags w r w')
  have "sess_frame {a} w w' \<and> same_admin (cell w a) (cell w' a)"
    using wp_run [OF wp_session_check check(4)] by simp
  then show ?thesis
    unfolding check(2)
    by (intro clients_inv_frame_same [OF assms(2) [unfolded check(1)], of a]) (simp_all add: same_admin_def)
next
  case (fetch flags login w r a w' owned)
  then show ?thesis using clients_inv_fetch [OF _ fetch(3)] assms(2) by simp
next
  case (fetch_fails flags login w r w' owned)
  then show ?thesis using clients_inv_fetch [OF _ fetch_fails(3)] assms(2) by simp
next
  case (ref a owned w w')
  then show ?thesis
    unfolding ref(2)
    by (intro clients_inv_frame_same [OF assms(2) [unfolded ref(1)], of a])
      (auto simp: p11prov_session_ref_def sess_frame_def)
next
  case (deref a w w' owned)
  then show ?thesis
    unfolding deref(2)
    by (intro clients_inv_frame_same [OF assms(2) [unfolded deref(1)], of a])
      (auto simp: p11prov_session_deref_def sess_frame_def)
next
  case (broken a owned w w')
  then show ?thesis
    unfolding broken(2)
    by (intro clients_inv_frame_same [OF assms(2) [unfolded broken(1)], of a])
      (auto simp: p11prov_session_mark_broken_def sess_frame_def)
qed

text \<open>
  C15. Mutual exclusion: whatever the clients of a pool do, no session is ever held twice, every
  session that is held belongs to the pool and is marked in use, and the pool never has more
  sessions than its maximum.
\<close>

theorem clients_never_share:
  assumes "(client_step E p)\<^sup>*\<^sup>* (w0, []) (w, owned)" and "pool_inv p w0"
  shows "distinct owned \<and> set owned \<subseteq> set (sp_sessions (pcell w p)) \<and> pool_inv p w \<and>
     (\<forall>a \<in> set owned. s_in_use (cell w a))"
proof -
  have "clients_inv p (w, owned)"
    using assms(1)
  proof (induction rule: rtranclp_induct)
    case base
    then show ?case using assms(2) by (simp add: clients_inv_def)
  next
    case (step y z)
    then show ?case by (blast intro: client_step_inv)
  qed
  then show ?thesis by (auto simp: clients_inv_def)
qed

section \<open>A pool in the simulated environment\<close>

definition sim_pool_world :: "sim world" where
  "sim_pool_world = snd (run_state (p11prov_session_pool_init sim_env (sim_token sim_init) 7) sim_world)"

lemma sim_pool_world_simps:
  "w_env sim_pool_world = sim_init" "w_held sim_pool_world = []" "w_ctx sim_pool_world = sim_ctx"
  "w_sess sim_pool_world = hempty zero_session"
  "pcell sim_pool_world 0 = \<lparr>sp_slotid = 7, sp_max_sessions = 1024, sp_max_cached_sessions = 5, sp_sessions = []\<rparr>"
  by (simp_all add: sim_pool_world_def p11prov_session_pool_init_def p11prov_mutex_init_def ecall_def
      sim_env_def sim_world_def sim_init_def zero_pool_def MAX_CONCURRENT_SESSIONS_def sim_ctx_def hempty_def Let_def)

lemma sim_fetch:
  "wp (fetch_session sim_env 0 CKF_SERIAL_SESSION False)
     (\<lambda>rx w'. rx = (CKR_OK, Some 0) \<and> s_pool (cell w' 0) = Some 0) sim_pool_world"
  by (simp add: fetch_session_def fetch_free_def scan_step_def session_new_def session_new_bare_def
      wp_simps sim_env_def sim_pool_world_simps set_closed_def hempty_def)

lemma sim_fetch_run:
  "run_state (fetch_session sim_env 0 CKF_SERIAL_SESSION False) sim_pool_world =
     ((CKR_OK, Some 0), snd (run_state (fetch_session sim_env 0 CKF_SERIAL_SESSION False) sim_pool_world))"
  using sim_fetch by (simp add: wp_def prod_eq_iff split: prod.splits)

lemma sim_pool_inv: "pool_inv 0 sim_pool_world"
  by (simp add: pool_inv_def sim_pool_world_simps heap_ok_def hempty_def)

theorem fetch_session_exclusive_witness:
  "wp (fetch_session sim_env 0 CKF_SERIAL_SESSION True) (\<lambda>(r, x) w'.
     (case x of None \<Rightarrow> r \<noteq> CKR_OK \<and> untouched sim_pool_world w' \<and> w_pools w' = w_pools sim_pool_world
      | Some a \<Rightarrow> r = CKR_OK \<and> (taken 0 sim_pool_world a w' \<or> grown 0 sim_pool_world a w'))) sim_pool_world"
  by (rule fetch_session_exclusive) (simp add: sim_pool_world_simps heap_ok_def hempty_def)

theorem clients_never_share_witness:
  "let w = snd (run_state (fetch_session sim_env 0 CKF_SERIAL_SESSION False) sim_pool_world) in
   (client_step sim_env 0)\<^sup>*\<^sup>* (sim_pool_world, []) (w, [0]) \<and> [0] \<noteq> [] \<and> distinct [0::addr] \<and> pool_inv 0 w"
proof -
  let ?w = "snd (run_state (fetch_session sim_env 0 CKF_SERIAL_SESSION False) sim_pool_world)"
  have "client_step sim_env 0 (sim_pool_world, []) (?w, [0])"
    by (rule client_step.fetch [OF sim_fetch_run])
  then have "(client_step sim_env 0)\<^sup>*\<^sup>* (sim_pool_world, []) (?w, [0])" by simp
  with clients_never_share [OF this sim_pool_inv] show ?thesis by (simp add: Let_def)
qed

theorem return_session_spec_witness:
  "let w = snd (run_state (fetch_session sim_env 0 CKF_SERIAL_SESSION False) sim_pool_world) in
   wp (p11prov_return_session sim_env (Some 0)) (\<lambda>_ w'. \<not> s_in_use (cell w' 0)) w"
proof -
  let ?w = "snd (run_state (fetch_session sim_env 0 CKF_SERIAL_SESSION False) sim_pool_world)"
  have "s_pool (cell ?w 0) = Some 0" using sim_fetch by (simp add: wp_def split: prod.splits)
  moreover have "fst (E_lock sim_env l e)" for l e by (simp add: sim_env_def)
  ultimately show ?thesis
    unfolding Let_def by (rule wp_mono [OF return_session_spec]) simp
qed

text \<open>
  C18. A new pool is empty, belongs to the slot, allows at least one session, and caches at most
  as many sessions as it may have and as many as configured.
\<close>

theorem pool_init_bounds:
  "wp (p11prov_session_pool_init E token slotid) (\<lambda>(r, x) w'.
     (case x of None \<Rightarrow> r \<noteq> CKR_OK
      | Some p \<Rightarrow> r = CKR_OK \<and> h_live (w_pools w') p \<and> sp_slotid (pcell w' p) = slotid \<and>
          sp_sessions (pcell w' p) = [] \<and> 0 < sp_max_sessions (pcell w' p) \<and>
          sp_max_cached_sessions (pcell w' p) \<le> sp_max_sessions (pcell w' p) \<and>
          sp_max_cached_sessions (pcell w' p) \<le> cx_cache_sessions (w_ctx w))) w"
proof -
  have a: "mx - 1 \<le> mx \<and> mx - 1 \<le> mc" if "mx < mc" "mx \<noteq> 0" for mx mc :: CK_ULONG
  proof -
    have "unat mx \<noteq> 0" using that(2) by (simp add: unat_eq_0)
    then have "unat (mx - 1) = unat mx - 1" by (simp add: unat_sub_if_size)
    then show ?thesis using that(1) by (simp add: word_le_nat_alt word_less_nat_alt)
  qed
  show ?thesis
    by (auto simp: p11prov_session_pool_init_def wp_simps zero_pool_def MAX_CONCURRENT_SESSIONS_def word_gt_0 not_less
      split: prod.split dest: a)
qed


section \<open>Fork and shutdown\<close>

definition forked :: "session \<Rightarrow> session" where
  "forked s = (set_closed s)\<lparr>s_in_use := False, s_cb := None, s_is_login := False\<rparr>"

lemma forked_idem [simp]: "forked (forked s) = forked s"
  by (simp add: forked_def set_closed_def)

lemma wp_fork_reset_sessions:
  assumes "\<And>l e. fst (E_mutex_init E l e)"
  shows "wp (for_each (fork_reset_session E p) as) (\<lambda>_ w'. sess_frame (set as) w w' \<and>
     (\<forall>a \<in> set as. cell w' a = forked (cell w a))) w"
proof (induction as arbitrary: w)
  case Nil
  then show ?case by (simp add: wp_simps)
next
  case (Cons a as)
  have m: "E_mutex_init E l e = (b, e') \<Longrightarrow> b" for l e b e' using assms [of l e] by simp
  have "wp (fork_reset_session E p a) (\<lambda>_ w'. sess_frame {a} w w' \<and> cell w' a = forked (cell w a)) w"
    by (auto simp: fork_reset_session_def wp_simps sess_frame_def forked_def split: prod.split dest: m)
  then show ?case
    unfolding for_each.simps
  proof (rule wp_seq)
    fix u w1
    assume 1: "sess_frame {a} w w1 \<and> cell w1 a = forked (cell w a)"
    then have "cell w1 b = (if b = a then forked (cell w a) else cell w b)" for b
      by (simp add: sess_frame_def)
    with 1 show "wp (for_each (fork_reset_session E p) as) (\<lambda>_ w'. sess_frame (set (a # as)) w w' \<and>
     (\<forall>a \<in> set (a # as). cell w' a = forked (cell w a))) w1"
      by (intro wp_mono [OF Cons.IH [of w1]]) (cases "a \<in> set as"; auto simp: sess_frame_def)
  qed
qed

lemma wp_fork_reset:
  assumes "\<And>l e. fst (E_lock E l e)" and "\<And>l e. fst (E_mutex_init E l e)"
  shows "wp (p11prov_session_pool_fork_reset E (Some p)) (\<lambda>_ w'.
     sess_frame (set (sp_sessions (pcell w p))) w w' \<and>
     (\<forall>a \<in> set (sp_sessions (pcell w p)). cell w' a = forked (cell w a))) w"
proof -
  have l: "E_lock E l e = (b, e') \<Longrightarrow> b" for l e b e' using assms(1) [of l e] by simp
  let ?as = "sp_sessions (pcell w p)"
  have each: "wp (for_each (fork_reset_session E p) ?as) (\<lambda>_ w'. sess_frame (set ?as) w w' \<and>
     (\<forall>a \<in> set ?as. cell w' a = forked (cell w a))) (w\<lparr>w_env := e, w_held := h\<rparr>)" for e h
    by (rule wp_mono [OF wp_fork_reset_sessions [OF assms(2)]]) simp
  show ?thesis
    unfolding p11prov_session_pool_fork_reset_def
    by (auto simp: wp_simps split: prod.split dest!: l intro!: wp_mono [OF each])
qed

text \<open>
  C17. After a fork, with working locks, every session of the pool is closed, idle, without
  callback and not a login session, and the pool invariant still holds, so the child never
  uses a handle of its parent. The reference count and the broken mark are kept.
\<close>

theorem fork_reset_invalidates:
  assumes "pool_inv p w" and "\<And>l e. fst (E_lock E l e)" and "\<And>l e. fst (E_mutex_init E l e)"
  shows "wp (p11prov_session_pool_fork_reset E (Some p)) (\<lambda>_ w'. pool_inv p w' \<and> w_pools w' = w_pools w \<and>
     (\<forall>a \<in> set (sp_sessions (pcell w p)). s_session (cell w' a) = CK_INVALID_HANDLE \<and>
        \<not> s_in_use (cell w' a) \<and> s_cb (cell w' a) = None \<and> \<not> s_is_login (cell w' a) \<and>
        s_refcnt (cell w' a) = s_refcnt (cell w a) \<and> s_is_broken (cell w' a) = s_is_broken (cell w a))) w"
proof (rule wp_mono [OF wp_fork_reset [OF assms(2,3)]])
  fix u v
  assume v: "sess_frame (set (sp_sessions (pcell w p))) w v \<and>
     (\<forall>a \<in> set (sp_sessions (pcell w p)). cell v a = forked (cell w a))"
  have "pool_inv p v"
    by (rule pool_inv_frame [OF assms(1) conjunct1 [OF v]]) (use v in \<open>simp add: forked_def set_closed_def\<close>)
  then show "pool_inv p v \<and> w_pools v = w_pools w \<and> (\<forall>a \<in> set (sp_sessions (pcell w p)). s_session (cell v a) = CK_INVALID_HANDLE \<and>
        \<not> s_in_use (cell v a) \<and> s_cb (cell v a) = None \<and> \<not> s_is_login (cell v a) \<and>
        s_refcnt (cell v a) = s_refcnt (cell w a) \<and> s_is_broken (cell v a) = s_is_broken (cell w a))"
    using v by (simp add: forked_def set_closed_def sess_frame_def)
qed

theorem fork_reset_invalidates_witness:
  "wp (p11prov_session_pool_fork_reset sim_env (Some 0)) (\<lambda>_ w'. pool_inv 0 w') sim_pool_world"
  by (rule wp_mono [OF fork_reset_invalidates [OF sim_pool_inv]]) (simp_all add: sim_env_def)

text \<open>
  When the mutex of a session cannot be initialised again in the child, the replacement session
  is not stored in the pool: the pool keeps the old one, which no longer knows its pool, and the
  next time it is returned it is freed while the pool still points to it.
\<close>

lemma wp_return_orphan:
  assumes "\<And>l e. fst (E_lock E l e)" and "s_pool (cell w a) = None" and "s_session (cell w a) = CK_INVALID_HANDLE"
  shows "wp (p11prov_return_session E (Some a)) (\<lambda>_ w'. w_pools w' = w_pools w \<and> \<not> h_live (w_sess w') a) w"
proof -
  have l: "E_lock E l e = (b, e') \<Longrightarrow> b" for l e b e' using assms(1) [of l e] by simp
  show ?thesis
    using assms(2,3)
    by (auto simp: p11prov_return_session_def session_free_def p11prov_session_set_callback_def
        token_session_close_def wp_simps split: prod.split dest: l)
qed

lemma fork_reset_dangling:
  assumes "\<And>l e. fst (E_lock E l e)" and "\<And>n e. fst (E_malloc E n e)"
    and "\<And>l e. fst (E_mutex_init E l e) = (l \<noteq> LkSession a)" and "a \<in> set (sp_sessions (pcell w p))"
    and "heap_ok (w_sess w)" and "h_live (w_sess w) a"
  shows "wp (do { fork_reset_session E p a; p11prov_return_session E (Some a) })
     (\<lambda>_ w'. a \<in> set (sp_sessions (pcell w' p)) \<and> \<not> h_live (w_sess w') a) w"
proof (rule wp_seq)
  have m: "E_malloc E n e = (b, e') \<Longrightarrow> b" for n e b e' using assms(2) [of n e] by simp
  have i: "E_mutex_init E l e = (b, e') \<Longrightarrow> b = (l \<noteq> LkSession a)" for l e b e' using assms(3) [of l e] by simp
  have "a \<noteq> h_brk (w_sess w)" using assms(5,6) by (auto simp: heap_ok_def)
  then show "wp (fork_reset_session E p a) (\<lambda>_ w'. w_pools w' = w_pools w \<and> s_pool (cell w' a) = None \<and>
      s_session (cell w' a) = CK_INVALID_HANDLE) w"
    by (auto simp: fork_reset_session_def session_new_bare_def set_closed_def wp_simps
        split: prod.split dest!: m i)
next
  fix u and v :: "'a world"
  assume "w_pools v = w_pools w \<and> s_pool (cell v a) = None \<and> s_session (cell v a) = CK_INVALID_HANDLE"
  then show "wp (p11prov_return_session E (Some a)) (\<lambda>_ w'. a \<in> set (sp_sessions (pcell w' p)) \<and> \<not> h_live (w_sess w') a) v"
    using assms(4) by (intro wp_mono [OF wp_return_orphan [OF assms(1)]]) auto
qed

end
