(* ===== verification/P11_Slot.thy ===== *)
theory P11_Slot
  imports P11_Session
begin

text \<open>
  Access to the slots (\<^verbatim>\<open>src/src/slot.c\<close> from \<open>p11prov_take_slots\<close> on). The slots context is
  \<open>w_slots\<close>; a slot is named by its index in the array. The read-write lock of the context is
  \<open>LkSlots\<close>; like the mutexes, any error of it becomes \<open>CKR_CANT_LOCK\<close>. Building and freeing the
  array is in \<open>P11_Slots\<close>.
\<close>

section \<open>Model\<close>

definition slots_list :: "'e world \<Rightarrow> p11prov_slot list" where
  "slots_list w = (case w_slots w of None \<Rightarrow> [] | Some c \<Rightarrow> sc_slots c)"

abbreviation get_slot :: "nat \<Rightarrow> ('e world, p11prov_slot) state" where
  "get_slot i \<equiv> gets (\<lambda>w. slots_list w ! i)"

definition upd_slot :: "nat \<Rightarrow> (p11prov_slot \<Rightarrow> p11prov_slot) \<Rightarrow> ('e world, unit) state" where
  "upd_slot i f = modify (\<lambda>w. w\<lparr>w_slots := map_option (\<lambda>c. c\<lparr>sc_slots := (sc_slots c)[i := f (sc_slots c ! i)]\<rparr>) (w_slots w)\<rparr>)"

definition p11prov_take_slots :: "'e p11env \<Rightarrow> ('e world, CK_RV) state" where
  "p11prov_take_slots E = do {
     sctx \<leftarrow> gets w_slots;
     case sctx of
       None \<Rightarrow> ret CKR_GENERAL_ERROR
     | Some _ \<Rightarrow> p11prov_mutex_lock E LkSlots }"

definition p11prov_return_slots :: "'e p11env \<Rightarrow> ('e world, unit) state" where
  "p11prov_return_slots E = do { _ \<leftarrow> p11prov_mutex_unlock E LkSlots; ret () }"

definition p11prov_fetch_slot :: "int \<Rightarrow> ('e world, nat option \<times> int) state" where
  "p11prov_fetch_slot idx = do {
     slots \<leftarrow> gets slots_list;
     if idx < 0 \<or> idx \<ge> int (length slots) then ret (None, idx)
     else ret (Some (nat idx), idx + 1) }"

fun index_of :: "('a \<Rightarrow> bool) \<Rightarrow> 'a list \<Rightarrow> nat option" where
  "index_of P [] = None"
| "index_of P (x # xs) = (if P x then Some 0 else map_option Suc (index_of P xs))"

definition p11prov_get_slot_by_id :: "CK_SLOT_ID \<Rightarrow> ('e world, nat option) state" where
  "p11prov_get_slot_by_id slotid = gets (\<lambda>w. index_of (\<lambda>s. sl_id s = slotid) (slots_list w))"

definition slot_mechs :: "p11prov_slot \<Rightarrow> CK_MECHANISM_TYPE list" where
  "slot_mechs s = (case sl_mechs s of None \<Rightarrow> [] | Some ms \<Rightarrow> take (sl_nmechs s) ms)"

definition p11prov_slot_get_mechanisms :: "p11prov_slot option \<Rightarrow> nat \<times> CK_MECHANISM_TYPE list option" where
  "p11prov_slot_get_mechanisms x = (case x of None \<Rightarrow> (0, None) | Some s \<Rightarrow> (sl_nmechs s, sl_mechs s))"

fun mech_loop :: "CK_MECHANISM_TYPE \<Rightarrow> CK_SLOT_ID \<Rightarrow> p11prov_slot list \<Rightarrow> CK_RV \<Rightarrow> CK_RV" where
  "mech_loop mechtype slotid [] r = r"
| "mech_loop mechtype slotid (s # ss) r =
     mech_loop mechtype slotid ss
       (if sl_id s \<noteq> slotid then r else if mechtype \<in> set (slot_mechs s) then CKR_OK else r)"

definition p11prov_check_mechanism ::
    "'e p11env \<Rightarrow> CK_SLOT_ID \<Rightarrow> CK_MECHANISM_TYPE \<Rightarrow> ('e world, CK_RV) state" where
  "p11prov_check_mechanism E slotid mechtype = do {
     r \<leftarrow> p11prov_take_slots E;
     if r \<noteq> CKR_OK then ret r
     else do {
       slots \<leftarrow> gets slots_list;
       let r = mech_loop mechtype slotid slots CKR_MECHANISM_INVALID;
       p11prov_return_slots E;
       ret r } }"

definition p11prov_slot_get_obj_pool ::
    "'e p11env \<Rightarrow> CK_SLOT_ID \<Rightarrow> ('e world, CK_RV \<times> addr option) state" where
  "p11prov_slot_get_obj_pool E slotid = do {
     r \<leftarrow> p11prov_take_slots E;
     if r \<noteq> CKR_OK then ret (r, None)
     else do {
       slots \<leftarrow> gets slots_list;
       let res = (case find (\<lambda>s. sl_id s = slotid) slots of
                    None \<Rightarrow> (CKR_SLOT_ID_INVALID, None)
                  | Some s \<Rightarrow> (case sl_objects s of
                                Some p \<Rightarrow> (CKR_OK, Some p)
                              | None \<Rightarrow> (CKR_GENERAL_ERROR, None)));
       p11prov_return_slots E;
       ret res } }"

fun find_pool_loop :: "(addr \<Rightarrow> ('e world, bool) state) \<Rightarrow> p11prov_slot list \<Rightarrow> ('e world, unit) state" where
  "find_pool_loop cb [] = ret ()"
| "find_pool_loop cb (s # ss) = do {
     found \<leftarrow> (case sl_objects s of Some p \<Rightarrow> cb p | None \<Rightarrow> ret False);
     if found then ret () else find_pool_loop cb ss }"

definition p11prov_slot_find_obj_pool ::
    "'e p11env \<Rightarrow> (addr \<Rightarrow> ('e world, bool) state) \<Rightarrow> ('e world, CK_RV) state" where
  "p11prov_slot_find_obj_pool E cb = do {
     r \<leftarrow> p11prov_take_slots E;
     if r \<noteq> CKR_OK then ret r
     else do {
       slots \<leftarrow> gets slots_list;
       find_pool_loop cb slots;
       p11prov_return_slots E;
       ret CKR_OK } }"

text \<open>
  Both PIN setters free the old string first and then store a copy of the new one; when the copy
  fails nothing is stored.
\<close>

definition p11prov_slot_set_bad_pin :: "'e p11env \<Rightarrow> nat \<Rightarrow> string \<Rightarrow> ('e world, CK_RV) state" where
  "p11prov_slot_set_bad_pin E i bad_pin = do {
     ok \<leftarrow> ecall (E_malloc E (length bad_pin + 1));
     upd_slot i (\<lambda>s. s\<lparr>sl_bad_pin := (if ok then Some bad_pin else None)\<rparr>);
     ret (if ok then CKR_OK else CKR_HOST_MEMORY) }"

definition p11prov_slot_set_cached_pin :: "'e p11env \<Rightarrow> nat \<Rightarrow> string \<Rightarrow> ('e world, CK_RV) state" where
  "p11prov_slot_set_cached_pin E i cached_pin = do {
     ok \<leftarrow> ecall (E_malloc E (length cached_pin + 1));
     upd_slot i (\<lambda>s. s\<lparr>sl_cached_pin := (if ok then Some cached_pin else None)\<rparr>);
     ret (if ok then CKR_OK else CKR_HOST_MEMORY) }"

definition p11prov_slot_check_req_login :: "p11prov_slot \<Rightarrow> bool" where
  "p11prov_slot_check_req_login s = has_flag (ti_flags (sl_token s)) CKF_LOGIN_REQUIRED"

definition p11prov_get_default_slot :: "slots_ctx \<Rightarrow> CK_SLOT_ID" where
  "p11prov_get_default_slot c = sc_default_slot c"

section \<open>Properties\<close>

lemma mech_loop_iff:
  "mech_loop mechtype slotid ss r =
     (if \<exists>s \<in> set ss. sl_id s = slotid \<and> mechtype \<in> set (slot_mechs s) then CKR_OK else r)"
  by (induction ss arbitrary: r) auto

lemma index_of_Some:
  "index_of P xs = Some i \<longleftrightarrow> i < length xs \<and> P (xs ! i) \<and> (\<forall>j < i. \<not> P (xs ! j))"
proof (induction xs arbitrary: i)
  case Nil
  then show ?case by simp
next
  case (Cons x xs)
  show ?case
  proof (cases i)
    case 0
    then show ?thesis by auto
  next
    case (Suc j)
    then show ?thesis using Cons [of j] by (auto simp: All_less_Suc2)
  qed
qed

lemma index_of_None: "index_of P xs = None \<longleftrightarrow> (\<forall>x \<in> set xs. \<not> P x)"
  by (induction xs) auto

lemma wp_take_slots [wp_simps]:
  "wp (p11prov_take_slots E) Q = (\<lambda>w. case w_slots w of None \<Rightarrow> Q CKR_GENERAL_ERROR w
     | Some _ \<Rightarrow> wp (p11prov_mutex_lock E LkSlots) Q w)"
  by (simp add: p11prov_take_slots_def wp_bind wp_gets wp_case_option wp_return fun_eq_iff split: option.split)

lemma wp_return_slots [wp_simps]:
  "wp (p11prov_return_slots E) Q = wp (p11prov_mutex_unlock E LkSlots) (\<lambda>_. Q ())"
  by (simp add: p11prov_return_slots_def wp_bind wp_return)

text \<open>
  C21. A mechanism check succeeds exactly when some slot with the identifier offers the mechanism;
  otherwise it reports an invalid mechanism. It leaves the slots and, with working unlocks, the
  set of held locks as they were.
\<close>

theorem check_mechanism_iff:
  assumes "w_slots w \<noteq> None" and "\<And>l e. fst (E_lock E l e)" and "\<And>l e. fst (E_unlock E l e)"
  shows "wp (p11prov_check_mechanism E slotid mechtype) (\<lambda>r w'.
     r = (if \<exists>s \<in> set (slots_list w). sl_id s = slotid \<and> mechtype \<in> set (slot_mechs s)
          then CKR_OK else CKR_MECHANISM_INVALID) \<and>
     w_slots w' = w_slots w \<and> w_held w' = w_held w) w"
proof -
  have l: "E_lock E l e = (b, e') \<Longrightarrow> b" for l e b e' using assms(2) [of l e] by simp
  have u: "E_unlock E l e = (b, e') \<Longrightarrow> b" for l e b e' using assms(3) [of l e] by simp
  show ?thesis
    using assms(1)
    by (auto simp: p11prov_check_mechanism_def wp_simps mech_loop_iff slots_list_def split: prod.split option.split dest: l u)
qed

section \<open>A slot in the simulated environment\<close>

definition sim_slot :: p11prov_slot where
  "sim_slot = \<lparr>sl_id = 7, sl_slot = \<lparr>si_slotDescription = ''slot'', si_manufacturerID = ''maker'', si_flags = CKF_TOKEN_PRESENT\<rparr>,
     sl_token = sim_token sim_init, sl_login_info = Some ''Slot 7'', sl_cached_pin = None, sl_bad_pin = None,
     sl_pool = Some 0, sl_objects = Some 0, sl_mechs = Some [1], sl_mechs_live = True, sl_nmechs = 1, sl_profiles = [0, 0, 0, 0, 0]\<rparr>"

definition sim_slots_world :: "sim world" where
  "sim_slots_world = sim_pool_world\<lparr>w_slots := Some \<lparr>sc_slots = [sim_slot], sc_default_slot = 7\<rparr>,
     w_opools := halloc (zero_obj_pool\<lparr>op_slotid := 7\<rparr>) (hempty zero_obj_pool)\<rparr>"

theorem check_mechanism_iff_witness:
  "wp (p11prov_check_mechanism sim_env 7 1) (\<lambda>r _. r = CKR_OK) sim_slots_world \<and>
   wp (p11prov_check_mechanism sim_env 7 2) (\<lambda>r _. r = CKR_MECHANISM_INVALID) sim_slots_world"
proof -
  have "w_slots sim_slots_world \<noteq> None" by (simp add: sim_slots_world_def)
  moreover have "fst (E_lock sim_env l e)" "fst (E_unlock sim_env l e)" for l e by (simp_all add: sim_env_def)
  ultimately show ?thesis
    by (intro conjI; intro wp_mono [OF check_mechanism_iff])
      (auto simp: sim_slots_world_def slots_list_def sim_slot_def slot_mechs_def)
qed

end
