(* ===== verification/P11_ObjPool.thy ===== *)
theory P11_ObjPool
  imports P11_Slot
begin

text \<open>
  The object pool of a slot (\<^verbatim>\<open>src/src/obj/pool.c\<close>): a growing array of object pointers with a
  count and a hint where to look for a free entry. \<open>pool_grow\<close>, \<open>pool_fix_hint\<close>, \<open>pool_put\<close> and \<open>pool_clear\<close> are the
  updates of the array that \<open>obj_add_to_pool\<close> and \<open>obj_rm_from_pool\<close> make while they hold the lock.
\<close>

section \<open>Model\<close>

definition POOL_ALLOC_SIZE :: nat where "POOL_ALLOC_SIZE = 32"
definition POOL_MAX_SIZE :: nat where "POOL_MAX_SIZE = POOL_ALLOC_SIZE * 2 ^ 16"
definition sizeof_obj_pool :: nat where "sizeof_obj_pool = 80"

definition p11prov_obj_pool_init :: "'e p11env \<Rightarrow> CK_SLOT_ID \<Rightarrow> ('e world, CK_RV \<times> addr option) state" where
  "p11prov_obj_pool_init E slotid = do {
     ok \<leftarrow> ecall (E_malloc E sizeof_obj_pool);
     if \<not> ok then ret (CKR_HOST_MEMORY, None)
     else do {
       p \<leftarrow> gets (\<lambda>w. h_brk (w_opools w));
       modify (\<lambda>w. w\<lparr>w_opools := halloc (zero_obj_pool\<lparr>op_slotid := slotid\<rparr>) (w_opools w)\<rparr>);
       r \<leftarrow> p11prov_mutex_init E (LkObjPool p);
       if r \<noteq> CKR_OK then do { modify (\<lambda>w. w\<lparr>w_opools := hfree p (w_opools w)\<rparr>); ret (r, None) }
       else ret (CKR_OK, Some p) } }"

definition p11prov_obj_pool_free :: "'e p11env \<Rightarrow> addr option \<Rightarrow> ('e world, unit) state" where
  "p11prov_obj_pool_free E x =
     (case x of
        None \<Rightarrow> ret ()
      | Some p \<Rightarrow> do {
          r \<leftarrow> p11prov_mutex_lock E (LkObjPool p);
          if r = CKR_OK then do {
            upd_op p (\<lambda>pool. pool\<lparr>op_objects := []\<rparr>);
            _ \<leftarrow> p11prov_mutex_unlock E (LkObjPool p);
            _ \<leftarrow> p11prov_mutex_destroy E (LkObjPool p);
            modify (\<lambda>w. w\<lparr>w_opools := hfree p (w_opools w)\<rparr>) }
          else ret () })"

definition fork_reset_obj :: "addr option \<Rightarrow> ('e world, unit) state" where
  "fork_reset_obj x =
     (case x of
        None \<Rightarrow> ret ()
      | Some a \<Rightarrow> upd_o a (\<lambda>ob. ob\<lparr>o_raf := True, o_handle := CK_INVALID_HANDLE, o_cached := CK_INVALID_HANDLE\<rparr>))"

definition p11prov_obj_pool_fork_reset :: "'e p11env \<Rightarrow> addr option \<Rightarrow> ('e world, unit) state" where
  "p11prov_obj_pool_fork_reset E x =
     (case x of
        None \<Rightarrow> ret ()
      | Some p \<Rightarrow> do {
          r \<leftarrow> p11prov_mutex_lock E (LkObjPool p);
          if r = CKR_OK then do {
            pool \<leftarrow> get_op p;
            for_each fork_reset_obj (op_objects pool);
            _ \<leftarrow> p11prov_mutex_unlock E (LkObjPool p);
            ret () }
          else ret () })"

definition pool_grow :: "obj_pool \<Rightarrow> obj_pool" where
  "pool_grow pool = pool\<lparr>op_objects := op_objects pool @ replicate POOL_ALLOC_SIZE None\<rparr>"

definition pool_fix_hint :: "obj_pool \<Rightarrow> obj_pool" where
  "pool_fix_hint pool =
     (if op_first_free pool \<ge> int (length (op_objects pool)) then pool\<lparr>op_first_free := 0\<rparr> else pool)"

definition pool_put :: "obj_pool \<Rightarrow> addr \<Rightarrow> (obj_pool \<times> nat) option" where
  "pool_put pool a =
     (let sz = length (op_objects pool);
          idx = (\<lambda>i. nat ((int i + op_first_free pool) mod int sz))
      in case find (\<lambda>i. op_objects pool ! idx i = None) [0..<sz] of
           None \<Rightarrow> None
         | Some i \<Rightarrow> Some (pool\<lparr>op_objects := (op_objects pool)[idx i := Some a],
                               op_num := op_num pool + 1, op_first_free := int (idx i) + 1\<rparr>, idx i))"

definition pool_clear :: "obj_pool \<Rightarrow> nat \<Rightarrow> obj_pool" where
  "pool_clear pool i = pool\<lparr>op_objects := (op_objects pool)[i := None], op_num := op_num pool - 1,
     op_first_free := (if op_first_free pool > int i then int i else op_first_free pool)\<rparr>"

definition obj_add_to_pool :: "'e p11env \<Rightarrow> addr \<Rightarrow> ('e world, CK_RV) state" where
  "obj_add_to_pool E a = do {
     ob \<leftarrow> get_o a;
     (r, x) \<leftarrow> p11prov_slot_get_obj_pool E (o_slotid ob);
     case x of
       None \<Rightarrow> ret r
     | Some p \<Rightarrow> do {
         r \<leftarrow> p11prov_mutex_lock E (LkObjPool p);
         if r \<noteq> CKR_OK then ret r
         else do {
           pool \<leftarrow> get_op p;
           r \<leftarrow> (if op_num pool \<ge> int (length (op_objects pool)) then
                   if length (op_objects pool) \<ge> POOL_MAX_SIZE then ret CKR_HOST_MEMORY
                   else do {
                     ok \<leftarrow> ecall (E_malloc E ((length (op_objects pool) + POOL_ALLOC_SIZE) * 8));
                     if \<not> ok then ret CKR_HOST_MEMORY
                     else do { upd_op p pool_grow; ret CKR_OK } }
                 else ret CKR_OK);
           r \<leftarrow> (if r \<noteq> CKR_OK then ret r
                 else do {
                   upd_op p pool_fix_hint;
                   pool \<leftarrow> get_op p;
                   case pool_put pool a of
                     None \<Rightarrow> ret CKR_GENERAL_ERROR
                   | Some (pool', i) \<Rightarrow> do {
                       upd_op p (\<lambda>_. pool');
                       upd_o a (\<lambda>ob. ob\<lparr>o_poolid := int i\<rparr>);
                       ret CKR_OK } });
           _ \<leftarrow> p11prov_mutex_unlock E (LkObjPool p);
           ret r } } }"

definition obj_rm_from_pool :: "'e p11env \<Rightarrow> addr \<Rightarrow> ('e world, unit) state" where
  "obj_rm_from_pool E a = do {
     ob \<leftarrow> get_o a;
     if o_poolid ob = - 1 then ret ()
     else do {
       (r, x) \<leftarrow> p11prov_slot_get_obj_pool E (o_slotid ob);
       case x of
         None \<Rightarrow> ret ()
       | Some p \<Rightarrow> do {
           r \<leftarrow> p11prov_mutex_lock E (LkObjPool p);
           if r \<noteq> CKR_OK then ret ()
           else do {
             pool \<leftarrow> get_op p;
             (if o_poolid ob \<ge> int (length (op_objects pool)) then ret ()
              else if op_objects pool ! nat (o_poolid ob) \<noteq> Some a then ret ()
              else do {
                upd_op p (\<lambda>pool. pool_clear pool (nat (o_poolid ob)));
                upd_o a (\<lambda>ob. ob\<lparr>o_poolid := - 1\<rparr>) });
             _ \<leftarrow> p11prov_mutex_unlock E (LkObjPool p);
             ret () } } } }"

text \<open>
  \<open>p11prov_obj_get_attr\<close> gives the first attribute of the type; \<open>memcmp\<close> compares the first
  \<open>ulValueLen\<close> bytes of the two values.
\<close>

definition p11prov_obj_get_attr :: "p11prov_obj option \<Rightarrow> CK_ATTRIBUTE_TYPE \<Rightarrow> ck_attribute option" where
  "p11prov_obj_get_attr x ty = (case x of None \<Rightarrow> None | Some ob \<Rightarrow> find (\<lambda>a. ca_type a = ty) (o_attrs ob))"

definition attr_bytes :: "ck_attribute \<Rightarrow> bytes" where
  "attr_bytes a = (case ca_pValue a of None \<Rightarrow> [] | Some v \<Rightarrow> take (unat (ca_ulValueLen a)) v)"

definition obj_match_attrs :: "p11prov_obj \<Rightarrow> ck_attribute list \<Rightarrow> bool" where
  "obj_match_attrs ob attrs = list_all (\<lambda>a.
     case p11prov_obj_get_attr (Some ob) (ca_type a) of
       None \<Rightarrow> False
     | Some x \<Rightarrow> ca_ulValueLen x = ca_ulValueLen a \<and> attr_bytes x = attr_bytes a) attrs"

definition obj_matches ::
    "CK_OBJECT_CLASS \<Rightarrow> CK_KEY_TYPE \<Rightarrow> CK_ULONG \<Rightarrow> CK_ULONG \<Rightarrow> ck_attribute list \<Rightarrow> p11prov_obj \<Rightarrow> bool" where
  "obj_matches cls ty param_set bit_size attrs ob =
     (if o_class ob \<noteq> cls then False
      else if ty \<noteq> CK_UNAVAILABLE_INFORMATION \<and> k_type (o_key ob) \<noteq> ty then False
      else if param_set \<noteq> CK_UNAVAILABLE_INFORMATION \<and> k_param_set (o_key ob) \<noteq> param_set then False
      else if bit_size \<noteq> CK_UNAVAILABLE_INFORMATION \<and> k_bit_size (o_key ob) \<noteq> bit_size then False
      else obj_match_attrs ob attrs)"

text \<open>The loop runs up to \<open>num\<close>, the number of objects, and not to the size of the array.\<close>

definition pool_search :: "(p11prov_obj \<Rightarrow> bool) \<Rightarrow> (addr \<Rightarrow> p11prov_obj) \<Rightarrow> obj_pool \<Rightarrow> addr option" where
  "pool_search P objs pool =
     Option.bind (find (\<lambda>x. case x of None \<Rightarrow> False | Some a \<Rightarrow> P (objs a)) (take (nat (op_num pool)) (op_objects pool))) id"

definition p11prov_obj_pool_find ::
    "'e p11env \<Rightarrow> addr option \<Rightarrow> CK_OBJECT_CLASS \<Rightarrow> CK_KEY_TYPE \<Rightarrow> CK_ULONG \<Rightarrow> CK_ULONG \<Rightarrow> ck_attribute list \<Rightarrow>
     ('e world, addr option) state" where
  "p11prov_obj_pool_find E x cls ty param_set bit_size attrs =
     (case x of
        None \<Rightarrow> ret None
      | Some p \<Rightarrow> do {
          r \<leftarrow> p11prov_mutex_lock E (LkObjPool p);
          if r = CKR_OK then do {
            pool \<leftarrow> get_op p;
            objs \<leftarrow> gets (\<lambda>w. h_cells (w_objs w));
            let found = pool_search (obj_matches cls ty param_set bit_size attrs) objs pool;
            _ \<leftarrow> p11prov_mutex_unlock E (LkObjPool p);
            ret found }
          else ret None })"

section \<open>The array as a table\<close>

text \<open>
  The count is the number of occupied entries, the size is bounded and a multiple of the growth,
  and every entry below the hint is occupied.
\<close>

definition opool_inv :: "obj_pool \<Rightarrow> bool" where
  "opool_inv pool \<longleftrightarrow> op_num pool = int (length (filter (\<lambda>x. x \<noteq> None) (op_objects pool))) \<and>
     0 \<le> op_first_free pool \<and> op_first_free pool \<le> int (length (op_objects pool)) \<and>
     length (op_objects pool) \<le> POOL_MAX_SIZE \<and> length (op_objects pool) mod POOL_ALLOC_SIZE = 0 \<and>
     (\<forall>i < length (op_objects pool). int i < op_first_free pool \<longrightarrow> op_objects pool ! i \<noteq> None)"

definition has_room :: "obj_pool \<Rightarrow> bool" where
  "has_room pool \<longleftrightarrow> op_num pool < int (length (op_objects pool))"

definition pool_look :: "obj_pool \<Rightarrow> nat \<Rightarrow> addr option" where
  "pool_look pool i = (if i < length (op_objects pool) then op_objects pool ! i else None)"

lemma length_filter_update:
  "i < length xs \<Longrightarrow> length (filter P (xs[i := v])) + (if P (xs ! i) then 1 else 0) =
     length (filter P xs) + (if P v then 1 else 0)"
proof (induction xs arbitrary: i)
  case Nil
  then show ?case by simp
next
  case (Cons x xs)
  then show ?case using Cons.IH [of "i - 1"] by (cases i) (auto split: if_splits)
qed

text \<open>The least free index, and that the cyclic search of \<open>pool_put\<close> finds it.\<close>

definition free_index :: "obj_pool \<Rightarrow> nat \<Rightarrow> bool" where
  "free_index pool i \<longleftrightarrow> i < length (op_objects pool) \<and> op_objects pool ! i = None \<and>
     (\<forall>j < i. op_objects pool ! j \<noteq> None)"

lemma free_index_exists:
  assumes "opool_inv pool" and "has_room pool"
  shows "\<exists>i. free_index pool i"
proof -
  have "\<exists>i. i < length (op_objects pool) \<and> op_objects pool ! i = None"
  proof (rule ccontr)
    assume "\<nexists>i. i < length (op_objects pool) \<and> op_objects pool ! i = None"
    then have "filter (\<lambda>x. x \<noteq> None) (op_objects pool) = op_objects pool"
      by (auto simp: filter_id_conv in_set_conv_nth)
    then show False using assms by (simp add: opool_inv_def has_room_def)
  qed
  then obtain n where n: "n < length (op_objects pool) \<and> op_objects pool ! n = None" ..
  define i where "i = (LEAST i. i < length (op_objects pool) \<and> op_objects pool ! i = None)"
  have "i < length (op_objects pool) \<and> op_objects pool ! i = None"
    unfolding i_def by (rule LeastI) (rule n)
  moreover have "op_objects pool ! j \<noteq> None" if "j < i" for j
    using not_less_Least [OF that [unfolded i_def]] that calculation by simp
  ultimately show ?thesis unfolding free_index_def by blast
qed

lemma pool_put_least:
  assumes "opool_inv pool" and "free_index pool i"
  shows "pool_put pool a = Some (pool\<lparr>op_objects := (op_objects pool)[i := Some a],
     op_num := op_num pool + 1, op_first_free := int i + 1\<rparr>, i)"
proof -
  let ?sz = "length (op_objects pool)" and ?ff = "op_first_free pool"
  let ?idx = "\<lambda>k. nat ((int k + ?ff) mod int ?sz)"
  have ff: "0 \<le> ?ff" and hint: "\<And>j. j < ?sz \<Longrightarrow> int j < ?ff \<Longrightarrow> op_objects pool ! j \<noteq> None"
    using assms(1) by (auto simp: opool_inv_def)
  have i: "i < ?sz" "op_objects pool ! i = None" "\<And>j. j < i \<Longrightarrow> op_objects pool ! j \<noteq> None"
    using assms(2) by (auto simp: free_index_def)
  have le: "nat ?ff \<le> i" using hint [of i] i by (metis le_nat_iff ff nat_le_iff not_less)
  define k where "k = i - nat ?ff"
  have idx: "?idx m = m + nat ?ff" if "m \<le> k" for m
    using that le i(1) ff unfolding k_def by (simp add: nat_add_distrib)
  have "find (\<lambda>m. op_objects pool ! ?idx m = None) [0..<?sz] = Some k"
    unfolding find_Some_iff
  proof (intro exI [of _ k] conjI)
    show "k < length [0..<?sz]" "k = [0..<?sz] ! k" using i(1) unfolding k_def by auto
    show "op_objects pool ! ?idx ([0..<?sz] ! k) = None"
      using idx [of k] le i(1,2) unfolding k_def by simp
    show "\<forall>j<k. op_objects pool ! ?idx ([0..<?sz] ! j) \<noteq> None"
      using idx le i unfolding k_def by auto
  qed
  moreover have "?idx k = i" using idx [of k] le unfolding k_def by simp
  ultimately show ?thesis by (simp add: pool_put_def Let_def)
qed

lemma opool_inv_put:
  assumes "opool_inv pool" and "free_index pool i"
  shows "opool_inv (pool\<lparr>op_objects := (op_objects pool)[i := Some a], op_num := op_num pool + 1, op_first_free := int i + 1\<rparr>)"
  using assms length_filter_update [of i "op_objects pool" "\<lambda>x. x \<noteq> None" "Some a"]
  by (auto simp: opool_inv_def free_index_def nth_list_update less_Suc_eq)

lemma opool_inv_clear:
  assumes "opool_inv pool" and "pool_look pool i \<noteq> None"
  shows "opool_inv (pool_clear pool i)" and "has_room (pool_clear pool i)"
proof -
  have i: "i < length (op_objects pool)" "op_objects pool ! i \<noteq> None"
    using assms(2) by (auto simp: pool_look_def split: if_splits)
  then show "opool_inv (pool_clear pool i)"
    using assms(1) length_filter_update [of i "op_objects pool" "\<lambda>x. x \<noteq> None" None]
    by (auto simp: opool_inv_def pool_clear_def nth_list_update)
  have "op_num pool \<le> int (length (op_objects pool))"
    using assms(1) length_filter_le by (simp add: opool_inv_def)
  then show "has_room (pool_clear pool i)" using i by (simp add: has_room_def pool_clear_def)
qed

text \<open>
  The contract of a table with automatic indices, and what follows from it for any table.
\<close>

locale object_table =
  fixes inv :: "'t \<Rightarrow> bool" and room :: "'t \<Rightarrow> bool" and put :: "'t \<Rightarrow> 'a \<Rightarrow> ('t \<times> nat) option"
    and clear :: "'t \<Rightarrow> nat \<Rightarrow> 't" and look :: "'t \<Rightarrow> nat \<Rightarrow> 'a option"
  assumes put_ok: "inv t \<Longrightarrow> room t \<Longrightarrow> \<exists>t' i. put t a = Some (t', i) \<and> inv t' \<and> look t i = None \<and> look t' = (look t)(i := Some a)"
    and clear_ok: "inv t \<Longrightarrow> look t i \<noteq> None \<Longrightarrow> inv (clear t i) \<and> room (clear t i) \<and> look (clear t i) = (look t)(i := None)"
begin

lemma putE:
  assumes "inv t" and "room t"
  obtains t' i where "put t a = Some (t', i)" and "inv t'" and "look t i = None" and "look t' = (look t)(i := Some a)"
  using put_ok [OF assms, of a] by blast

lemma put_clear:
  assumes "inv t" and "room t" and "put t a = Some (t', i)"
  shows "inv (clear t' i) \<and> room (clear t' i) \<and> look (clear t' i) = look t"
proof -
  obtain t1 j where "put t a = Some (t1, j)" "inv t1" "look t j = None" "look t1 = (look t)(j := Some a)"
    by (rule putE [OF assms(1,2)])
  then have "inv t'" "look t i = None" "look t' = (look t)(i := Some a)" using assms(3) by auto
  then show ?thesis using clear_ok [of t' i] by (auto simp: fun_upd_idem)
qed

lemma put_put:
  assumes "inv t" and "room t" and "put t a = Some (t1, i)" and "room t1" and "put t1 b = Some (t2, j)"
  shows "i \<noteq> j \<and> look t2 i = Some a \<and> look t2 j = Some b"
proof -
  have 1: "inv t1" "look t1 = (look t)(i := Some a)" using putE [OF assms(1,2), of a] assms(3) by (metis option.inject prod.inject)+
  have "look t1 j = None" "look t2 = (look t1)(j := Some b)"
    using putE [OF 1(1) assms(4), of b] assms(5) by (metis option.inject prod.inject)+
  then show ?thesis using 1(2) by auto
qed

end

interpretation opool: object_table opool_inv has_room pool_put pool_clear pool_look
proof
  fix t :: obj_pool and a
  assume "opool_inv t" "has_room t"
  then obtain i where "free_index t i" using free_index_exists by blast
  then show "\<exists>t' i. pool_put t a = Some (t', i) \<and> opool_inv t' \<and> pool_look t i = None \<and> pool_look t' = (pool_look t)(i := Some a)"
    using pool_put_least [OF \<open>opool_inv t\<close>] opool_inv_put [OF \<open>opool_inv t\<close>]
    by (auto simp: pool_look_def free_index_def fun_eq_iff)
next
  fix t :: obj_pool and i
  assume "opool_inv t" "pool_look t i \<noteq> None"
  then show "opool_inv (pool_clear t i) \<and> has_room (pool_clear t i) \<and> pool_look (pool_clear t i) = (pool_look t)(i := None)"
    using opool_inv_clear by (auto simp: pool_look_def pool_clear_def fun_eq_iff)
qed


section \<open>The operations\<close>

lemma opool_inv_grow:
  assumes "opool_inv pool" and "length (op_objects pool) < POOL_MAX_SIZE"
  shows "opool_inv (pool_grow pool)" and "has_room (pool_grow pool)" and "pool_look (pool_grow pool) = pool_look pool"
proof -
  let ?n = "length (op_objects pool)"
  have "?n + POOL_ALLOC_SIZE \<le> POOL_MAX_SIZE"
  proof -
    have "?n mod 32 = 0" "?n < 2097152" using assms by (simp_all add: opool_inv_def POOL_ALLOC_SIZE_def POOL_MAX_SIZE_def)
    then have "?n + 32 \<le> 2097152" by presburger
    then show ?thesis by (simp add: POOL_ALLOC_SIZE_def POOL_MAX_SIZE_def)
  qed
  then show "opool_inv (pool_grow pool)"
    using assms(1) by (auto simp: opool_inv_def pool_grow_def nth_append)
  have "op_num pool \<le> int ?n" using assms(1) length_filter_le by (simp add: opool_inv_def)
  then show "has_room (pool_grow pool)" by (simp add: has_room_def pool_grow_def POOL_ALLOC_SIZE_def)
  show "pool_look (pool_grow pool) = pool_look pool"
    by (auto simp: pool_look_def pool_grow_def nth_append fun_eq_iff)
qed

lemma pool_fix_hint_id: "opool_inv pool \<Longrightarrow> has_room pool \<Longrightarrow> pool_fix_hint pool = pool"
proof -
  assume a: "opool_inv pool" "has_room pool"
  then obtain i where "free_index pool i" using free_index_exists by blast
  then show ?thesis using a by (auto simp: pool_fix_hint_def opool_inv_def free_index_def)
qed

abbreviation ocell :: "'e world \<Rightarrow> addr \<Rightarrow> p11prov_obj" where
  "ocell w a \<equiv> h_cells (w_objs w) a"

abbreviation opcell :: "'e world \<Rightarrow> addr \<Rightarrow> obj_pool" where
  "opcell w p \<equiv> h_cells (w_opools w) p"

text \<open>The pool of an object is the pool of the first slot with the object's slot identifier.\<close>

definition pool_of :: "'e world \<Rightarrow> CK_SLOT_ID \<Rightarrow> addr option" where
  "pool_of w slotid = Option.bind (find (\<lambda>s. sl_id s = slotid) (slots_list w)) sl_objects"

lemma wp_get_obj_pool:
  assumes "pool_of w slotid = Some p" and "\<And>l e. fst (E_lock E l e)"
    and "\<And>e l. Q (CKR_OK, Some p) (w\<lparr>w_env := e, w_held := l\<rparr>)"
  shows "wp (p11prov_slot_get_obj_pool E slotid) Q w"
proof -
  have l: "E_lock E l e = (b, e') \<Longrightarrow> b" for l e b e' using assms(2) [of l e] by simp
  obtain s where s: "find (\<lambda>s. sl_id s = slotid) (slots_list w) = Some s" "sl_objects s = Some p"
    using assms(1) by (auto simp: pool_of_def bind_eq_Some_conv)
  then have "w_slots w \<noteq> None" by (auto simp: slots_list_def split: option.splits)
  moreover have "Q (CKR_OK, Some p) (w\<lparr>w_env := e\<rparr>)" for e using assms(3) [where e = e and l = "w_held w"] by simp
  moreover have "Q (CKR_OK, Some p) (w\<lparr>w_held := l\<rparr>)" for l using assms(3) [where e = "w_env w" and l = l] by simp
  moreover have "Q (CKR_OK, Some p) (w\<lparr>w_held := l, w_env := e\<rparr>)" for l e
    using assms(3) [where e = e and l = l] by (cases w) simp
  ultimately show ?thesis
    using s assms(3)
    by (auto simp: p11prov_slot_get_obj_pool_def wp_simps slots_list_def split: prod.split option.split dest: l)
qed

definition added :: "addr \<Rightarrow> addr \<Rightarrow> 'e world \<Rightarrow> 'e world \<Rightarrow> bool" where
  "added p a w w' \<longleftrightarrow> (\<exists>i. pool_look (opcell w p) i = None \<and> (\<forall>j < i. pool_look (opcell w p) j \<noteq> None) \<and>
     pool_look (opcell w' p) = (pool_look (opcell w p))(i := Some a) \<and>
     w_objs w' = hupd a (\<lambda>ob. ob\<lparr>o_poolid := int i\<rparr>) (w_objs w)) \<and>
     opool_inv (opcell w' p) \<and> (\<forall>q. q \<noteq> p \<longrightarrow> opcell w' q = opcell w q) \<and>
     w_sess w' = w_sess w \<and> w_pools w' = w_pools w \<and> w_slots w' = w_slots w \<and> w_ctx w' = w_ctx w"

lemma added_intro:
  assumes "opool_inv pool" and "free_index pool i" and "pool_look pool = pool_look (opcell w p)"
    and "w_opools w' = hupd p (\<lambda>_. pool\<lparr>op_objects := (op_objects pool)[i := Some a], op_num := op_num pool + 1, op_first_free := int i + 1\<rparr>) h"
    and "\<And>q. q \<noteq> p \<Longrightarrow> h_cells h q = opcell w q"
    and "w_objs w' = hupd a (\<lambda>ob. ob\<lparr>o_poolid := int i\<rparr>) (w_objs w)"
    and "w_sess w' = w_sess w \<and> w_pools w' = w_pools w \<and> w_slots w' = w_slots w \<and> w_ctx w' = w_ctx w"
  shows "added p a w w'"
proof -
  have i: "i < length (op_objects pool)" "op_objects pool ! i = None" "\<And>j. j < i \<Longrightarrow> op_objects pool ! j \<noteq> None"
    using assms(2) by (auto simp: free_index_def)
  have look: "pool_look (opcell w' p) = (pool_look pool)(i := Some a)"
    using i(1) by (auto simp: assms(4) pool_look_def fun_eq_iff)
  have "pool_look pool i = None" and "\<forall>j < i. pool_look pool j \<noteq> None"
    using i by (auto simp: pool_look_def)
  moreover have "opool_inv (opcell w' p)"
    using opool_inv_put [OF assms(1,2)] by (simp add: assms(4))
  ultimately show ?thesis
    using look assms(5-7) unfolding added_def assms(3) by (auto simp: assms(4))
qed

lemma no_room_iff: "int (length (op_objects pool)) \<le> op_num pool \<longleftrightarrow> \<not> has_room pool"
  by (auto simp: has_room_def)

lemma wp_obj_add:
  assumes "pool_of w (o_slotid (ocell w a)) = Some p" and "opool_inv (opcell w p)"
    and "length (op_objects (opcell w p)) < POOL_MAX_SIZE"
    and "\<And>l e. fst (E_lock E l e)" and "\<And>n e. fst (E_malloc E n e)"
  shows "wp (obj_add_to_pool E a) (\<lambda>r w'. r = CKR_OK \<and> added p a w w') w"
proof -
  have l: "E_lock E l e = (b, e') \<Longrightarrow> b" for l e b e' using assms(4) [of l e] by simp
  have m: "E_malloc E n e = (b, e') \<Longrightarrow> b" for n e b e' using assms(5) [of n e] by simp
  define pool where "pool = (if has_room (opcell w p) then opcell w p else pool_grow (opcell w p))"
  have inv: "opool_inv pool" "has_room pool" "pool_look pool = pool_look (opcell w p)"
    using assms(2) opool_inv_grow [OF assms(2,3)] by (auto simp: pool_def)
  obtain i where i: "free_index pool i" using free_index_exists [OF inv(1,2)] by blast
  note put = pool_put_least [OF inv(1) i, of a] and fix_hint = pool_fix_hint_id [OF inv(1,2)]
  note add = added_intro [OF inv(1) i inv(3), of _ a]
  have room: ?thesis if "has_room (opcell w p)"
    using that put fix_hint unfolding obj_add_to_pool_def pool_def
    by (auto simp: wp_simps no_room_iff split: prod.split dest!: l intro!: wp_get_obj_pool [OF assms(1,4)] add [unfolded pool_def])
  have grow: ?thesis if "\<not> has_room (opcell w p)"
    using that put fix_hint assms(3) unfolding obj_add_to_pool_def pool_def
    by (auto simp: wp_simps no_room_iff not_le split: prod.split dest!: l m intro!: wp_get_obj_pool [OF assms(1,4)] add [unfolded pool_def])
  show ?thesis using room grow by blast
qed

text \<open>
  C6. Adding an object to the pool of its slot succeeds when locks and memory are available and
  the pool is below its maximal size: the object goes to the lowest free index, its pool index is
  recorded in it, no other entry changes, and the array stays consistent, so the report of an
  inconsistent pool is never reached.
\<close>

theorem obj_add_spec:
  assumes "pool_of w (o_slotid (ocell w a)) = Some p" and "opool_inv (opcell w p)"
    and "length (op_objects (opcell w p)) < POOL_MAX_SIZE"
    and "\<And>l e. fst (E_lock E l e)" and "\<And>n e. fst (E_malloc E n e)"
  shows "wp (obj_add_to_pool E a) (\<lambda>r w'. r = CKR_OK \<and> added p a w w') w"
  using assms by (rule wp_obj_add)


definition removed :: "addr \<Rightarrow> nat \<Rightarrow> addr \<Rightarrow> 'e world \<Rightarrow> 'e world \<Rightarrow> bool" where
  "removed p i a w w' \<longleftrightarrow> pool_look (opcell w' p) = (pool_look (opcell w p))(i := None) \<and>
     opool_inv (opcell w' p) \<and> (\<forall>q. q \<noteq> p \<longrightarrow> opcell w' q = opcell w q) \<and>
     w_objs w' = hupd a (\<lambda>ob. ob\<lparr>o_poolid := - 1\<rparr>) (w_objs w) \<and> w_slots w' = w_slots w"

lemma wp_obj_rm:
  assumes "pool_of w (o_slotid (ocell w a)) = Some p" and "opool_inv (opcell w p)"
    and "o_poolid (ocell w a) = int i" and "pool_look (opcell w p) i = Some a"
    and "\<And>l e. fst (E_lock E l e)"
  shows "wp (obj_rm_from_pool E a) (\<lambda>_ w'. removed p i a w w') w"
proof -
  have l: "E_lock E l e = (b, e') \<Longrightarrow> b" for l e b e' using assms(5) [of l e] by simp
  have i: "i < length (op_objects (opcell w p))" "op_objects (opcell w p) ! i = Some a"
    using assms(4) by (auto simp: pool_look_def split: if_splits)
  have c: "opool_inv (pool_clear (opcell w p) i) \<and> has_room (pool_clear (opcell w p) i) \<and>
      pool_look (pool_clear (opcell w p) i) = (pool_look (opcell w p))(i := None)"
    by (rule opool.clear_ok [OF assms(2)]) (simp add: assms(4))
  show ?thesis
    using assms(3) i c unfolding obj_rm_from_pool_def
    by (auto simp: wp_simps removed_def split: prod.split dest!: l intro!: wp_get_obj_pool [OF assms(1,5)])
qed

text \<open>
  C20. Removing an object that was just added restores the contents of the pool.
\<close>

theorem obj_add_rm_roundtrip:
  assumes "pool_of w (o_slotid (ocell w a)) = Some p" and "opool_inv (opcell w p)"
    and "length (op_objects (opcell w p)) < POOL_MAX_SIZE"
    and "\<And>l e. fst (E_lock E l e)" and "\<And>n e. fst (E_malloc E n e)"
  shows "wp (do { r \<leftarrow> obj_add_to_pool E a; obj_rm_from_pool E a })
     (\<lambda>_ w'. pool_look (opcell w' p) = pool_look (opcell w p) \<and> opool_inv (opcell w' p) \<and>
        o_poolid (ocell w' a) = - 1) w"
proof (rule wp_seq [OF wp_obj_add [OF assms]])
  fix r and v :: "'a world"
  assume "r = CKR_OK \<and> added p a w v"
  then obtain i where i: "pool_look (opcell w p) i = None" "pool_look (opcell v p) = (pool_look (opcell w p))(i := Some a)"
      "w_objs v = hupd a (\<lambda>ob. ob\<lparr>o_poolid := int i\<rparr>) (w_objs w)" "opool_inv (opcell v p)" "w_slots v = w_slots w"
    by (auto simp: added_def)
  have "wp (obj_rm_from_pool E a) (\<lambda>_ w'. removed p i a v w') v"
    by (rule wp_obj_rm) (use i assms in \<open>auto simp: pool_of_def slots_list_def\<close>)
  then show "wp (obj_rm_from_pool E a) (\<lambda>_ w'. pool_look (opcell w' p) = pool_look (opcell w p) \<and>
      opool_inv (opcell w' p) \<and> o_poolid (ocell w' a) = - 1) v"
    by (rule wp_mono) (use i in \<open>auto simp: removed_def fun_eq_iff\<close>)
qed

text \<open>What a search finds is in the pool and matches.\<close>

lemma pool_search_sound:
  "pool_search P objs pool = Some a \<Longrightarrow> Some a \<in> set (op_objects pool) \<and> P (objs a)"
  by (auto simp: pool_search_def bind_eq_Some_conv find_Some_iff split: option.splits)
    (metis in_set_takeD nth_mem)

text \<open>
  In a pool without holes the search finds an object exactly when some object of the pool
  matches.
\<close>

lemma pool_search_compact:
  assumes "opool_inv pool" and "\<And>i. i < length (op_objects pool) \<Longrightarrow> op_num pool \<le> int i \<Longrightarrow> op_objects pool ! i = None"
  shows "(\<exists>a. pool_search P objs pool = Some a) \<longleftrightarrow> (\<exists>a. Some a \<in> set (op_objects pool) \<and> P (objs a))"
proof
  assume "\<exists>a. Some a \<in> set (op_objects pool) \<and> P (objs a)"
  then obtain a i where a: "i < length (op_objects pool)" "op_objects pool ! i = Some a" "P (objs a)"
    by (auto simp: in_set_conv_nth)
  have "0 \<le> op_num pool" using assms(1) by (simp add: opool_inv_def)
  then have "i < nat (op_num pool)" using assms(2) [of i] a by (cases "op_num pool \<le> int i") auto
  then have "Some a \<in> set (take (nat (op_num pool)) (op_objects pool))"
    using a by (metis in_set_conv_nth length_take min_less_iff_conj nth_take)
  then have "find (\<lambda>x. case x of None \<Rightarrow> False | Some a \<Rightarrow> P (objs a)) (take (nat (op_num pool)) (op_objects pool)) \<noteq> None"
    using a(3) by (auto simp: find_None_iff)
  then obtain y where y: "find (\<lambda>x. case x of None \<Rightarrow> False | Some a \<Rightarrow> P (objs a)) (take (nat (op_num pool)) (op_objects pool)) = Some y"
    by blast
  then have "y \<noteq> None" by (cases y) (auto simp: find_Some_iff dest!: sym [of None])
  then show "\<exists>a. pool_search P objs pool = Some a" using y by (auto simp: pool_search_def)
qed (auto dest: pool_search_sound)

text \<open>
  With a hole the search stops too early: here the only object is at index 1, and the search looks
  at index 0 only.
\<close>

lemma pool_search_misses:
  "pool_search (\<lambda>_. True) objs \<lparr>op_slotid = 7, op_objects = [None, Some a], op_num = 1, op_first_free = 0\<rparr> = None"
  by (simp add: pool_search_def)


section \<open>An object in the simulated environment\<close>

definition sim_obj_world :: "sim world" where
  "sim_obj_world = sim_slots_world\<lparr>w_objs := halloc (zero_obj\<lparr>o_slotid := 7, o_refcnt := 1, o_poolid := - 1\<rparr>) (hempty zero_obj)\<rparr>"

lemma sim_obj_world_hyps:
  "pool_of sim_obj_world (o_slotid (ocell sim_obj_world 0)) = Some 0"
  "opool_inv (opcell sim_obj_world 0)" "length (op_objects (opcell sim_obj_world 0)) < POOL_MAX_SIZE"
  "fst (E_lock sim_env l e)" "fst (E_malloc sim_env n e)"
  by (simp_all add: sim_obj_world_def sim_slots_world_def pool_of_def slots_list_def sim_slot_def hempty_def
      zero_obj_pool_def opool_inv_def POOL_MAX_SIZE_def POOL_ALLOC_SIZE_def sim_env_def)

theorem obj_add_spec_witness:
  "wp (obj_add_to_pool sim_env 0) (\<lambda>r w'. r = CKR_OK \<and> added 0 0 sim_obj_world w') sim_obj_world"
  by (rule obj_add_spec [OF sim_obj_world_hyps])

theorem obj_add_rm_roundtrip_witness:
  "wp (do { r \<leftarrow> obj_add_to_pool sim_env 0; obj_rm_from_pool sim_env 0 })
     (\<lambda>_ w'. pool_look (opcell w' 0) = pool_look (opcell sim_obj_world 0)) sim_obj_world"
  by (rule wp_mono [OF obj_add_rm_roundtrip [OF sim_obj_world_hyps]]) simp

lemma pool_search_compact_example:
  "(\<exists>a. pool_search (\<lambda>_. True) (\<lambda>_. zero_obj)
     \<lparr>op_slotid = 7, op_objects = Some 3 # replicate 31 None, op_num = 1, op_first_free = 1\<rparr> = Some a) \<longleftrightarrow>
   (\<exists>a. Some a \<in> set (Some (3::addr) # replicate 31 None))"
  using pool_search_compact [of "\<lparr>op_slotid = 7, op_objects = Some 3 # replicate 31 None, op_num = 1, op_first_free = 1\<rparr>"
      "\<lambda>_. True" "\<lambda>_. zero_obj"]
  by (auto simp: opool_inv_def POOL_MAX_SIZE_def POOL_ALLOC_SIZE_def nth_Cons split: nat.splits)

end
