(* ===== verification/P11_Slots.thy ===== *)
theory P11_Slots
  imports P11_ObjPool
begin

text \<open>
  Building and freeing the slots context (\<^verbatim>\<open>src/src/slot.c\<close> up to \<open>p11prov_free_slots\<close>) and its fork
  handlers. The context under construction is a value; \<open>major\<close> is the major version of the
  module's interface.
\<close>

section \<open>Model\<close>

abbreviation CKO_PROFILE :: CK_OBJECT_CLASS where "CKO_PROFILE \<equiv> 9"
abbreviation CKA_PROFILE_ID :: CK_ATTRIBUTE_TYPE where "CKA_PROFILE_ID \<equiv> 0x601"

definition sizeof_slot :: nat where "sizeof_slot = 448"
definition sizeof_slots_ctx :: nat where "sizeof_slots_ctx = 88"

text \<open>A profile is stored at the next index of an array of five; more than five objects are not asked for.\<close>

fun profiles_loop :: "'e p11env \<Rightarrow> CK_SESSION_HANDLE \<Rightarrow> CK_OBJECT_HANDLE list \<Rightarrow> nat \<Rightarrow> CK_ULONG list \<Rightarrow>
    ('e world, CK_ULONG list) state" where
  "profiles_loop E session [] index profiles = ret profiles"
| "profiles_loop E session (ob # obs) index profiles = do {
     (rv, attrs) \<leftarrow> ecall (E_GetAttributeValue E session ob
        [\<lparr>ca_type = CKA_PROFILE_ID, ca_pValue = Some (ulong_bytes CK_UNAVAILABLE_INFORMATION), ca_ulValueLen = 8\<rparr>]);
     let value = (case attrs of a # _ \<Rightarrow> bytes_ulong (attr_bytes a) | [] \<Rightarrow> CK_UNAVAILABLE_INFORMATION);
     if rv_int rv \<noteq> CKR_OK \<or> value = CK_UNAVAILABLE_INFORMATION then profiles_loop E session obs index profiles
     else profiles_loop E session obs (Suc index) (profiles[index := value]) }"

definition get_slot_profiles :: "'e p11env \<Rightarrow> p11prov_slot \<Rightarrow> ('e world, p11prov_slot) state" where
  "get_slot_profiles E slot = do {
     (rv, session) \<leftarrow> ecall (E_OpenSession E (sl_id slot) CKF_SERIAL_SESSION None);
     if rv_int rv \<noteq> CKR_OK then ret slot
     else do {
       rv \<leftarrow> ecall (E_FindObjectsInit E session
          [\<lparr>ca_type = CKA_TOKEN, ca_pValue = Some [CHR 0x01], ca_ulValueLen = 1\<rparr>,
           \<lparr>ca_type = CKA_CLASS, ca_pValue = Some (ulong_bytes CKO_PROFILE), ca_ulValueLen = 8\<rparr>]);
       slot \<leftarrow> (if rv_int rv \<noteq> CKR_OK then ret slot
         else do {
           (rv, obs) \<leftarrow> ecall (E_FindObjects E session 5);
           _ \<leftarrow> ecall (E_FindObjectsFinal E session);
           if rv_int rv \<noteq> CKR_OK \<or> obs = [] then ret slot
           else do {
             profiles \<leftarrow> profiles_loop E session obs 0 (sl_profiles slot);
             ret (slot\<lparr>sl_profiles := profiles\<rparr>) } });
       _ \<leftarrow> ecall (E_CloseSession E session);
       ret slot } }"

text \<open>When the second call fails the block is freed but the pointer to it stays in the slot.\<close>

definition get_slot_mechanisms :: "'e p11env \<Rightarrow> p11prov_slot \<Rightarrow> ('e world, p11prov_slot) state" where
  "get_slot_mechanisms E slot = do {
     (rv, mechs_num) \<leftarrow> ecall (E_GetMechanismCount E (sl_id slot));
     if rv_int rv \<noteq> CKR_OK then ret slot
     else do {
       ok \<leftarrow> ecall (E_malloc E (mechs_num * 8));
       if \<not> ok then ret slot
       else do {
         (rv, mechs) \<leftarrow> ecall (E_GetMechanismList E (sl_id slot) mechs_num);
         if rv_int rv \<noteq> CKR_OK then ret (slot\<lparr>sl_mechs := Some [], sl_mechs_live := False\<rparr>)
         else ret (slot\<lparr>sl_mechs := Some mechs, sl_mechs_live := True, sl_nmechs := length mechs\<rparr>) } } }"

text \<open>
  \<open>p11prov_free_slots\<close>; the result says that no block was freed twice.
\<close>

fun free_slots_loop :: "'e p11env \<Rightarrow> p11prov_slot list \<Rightarrow> ('e world, bool) state" where
  "free_slots_loop E [] = ret True"
| "free_slots_loop E (s # ss) = do {
     p11prov_session_pool_free E (sl_pool s);
     p11prov_obj_pool_free E (sl_objects s);
     ok \<leftarrow> free_slots_loop E ss;
     ret ((sl_mechs s = None \<or> sl_mechs_live s) \<and> ok) }"

definition p11prov_free_slots :: "'e p11env \<Rightarrow> slots_ctx option \<Rightarrow> ('e world, bool) state" where
  "p11prov_free_slots E x =
     (case x of
        None \<Rightarrow> ret True
      | Some sctx \<Rightarrow> do {
          r \<leftarrow> p11prov_mutex_destroy E LkSlots;
          if r \<noteq> CKR_OK then ret True else free_slots_loop E (sc_slots sctx) })"

definition trim_slot :: "p11prov_slot \<Rightarrow> p11prov_slot" where
  "trim_slot slot = slot\<lparr>
     sl_slot := (sl_slot slot)\<lparr>si_slotDescription := trim_padded_field (si_slotDescription (sl_slot slot)),
                si_manufacturerID := trim_padded_field (si_manufacturerID (sl_slot slot))\<rparr>,
     sl_token := (sl_token slot)\<lparr>ti_label := trim_padded_field (ti_label (sl_token slot)),
                ti_manufacturerID := trim_padded_field (ti_manufacturerID (sl_token slot)),
                ti_model := trim_padded_field (ti_model (sl_token slot)),
                ti_serialNumber := trim_padded_field (ti_serialNumber (sl_token slot))\<rparr>\<rparr>"

text \<open>
  The text for PIN prompts. \<^verbatim>\<open>%s\<close> reads the description up to a NUL; a description without one
  continues into the manufacturer field that follows it in the structure.
\<close>

definition slot_login_info :: "p11prov_slot \<Rightarrow> string" where
  "slot_login_info slot = ''PKCS#11 Token (Slot '' @ dec_string (unat (sl_id slot)) @ '' - '' @
     c_str (si_slotDescription (sl_slot slot) @ si_manufacturerID (sl_slot slot)) @ '')''"

definition zero_slot :: p11prov_slot where
  "zero_slot = \<lparr>sl_id = 0, sl_slot = \<lparr>si_slotDescription = [], si_manufacturerID = [], si_flags = 0\<rparr>,
     sl_token = \<lparr>ti_label = [], ti_manufacturerID = [], ti_model = [], ti_serialNumber = [], ti_flags = 0, ti_ulMaxSessionCount = 0\<rparr>,
     sl_login_info = None, sl_cached_pin = None, sl_bad_pin = None, sl_pool = None, sl_objects = None,
     sl_mechs = None, sl_mechs_live = False, sl_nmechs = 0, sl_profiles = replicate 5 0\<rparr>"

text \<open>Everything after the slot was added to the array; an error ends the initialisation.\<close>

definition init_slot_rest :: "'e p11env \<Rightarrow> nat \<Rightarrow> p11prov_slot \<Rightarrow> ('e world, CK_RV \<times> p11prov_slot) state" where
  "init_slot_rest E major slot = do {
     mem \<leftarrow> gets (\<lambda>w n. fst (E_malloc E n (w_env w)));
     case p11prov_alloc_sprintf mem (30 + 20 + 64 + 1) (slot_login_info slot) of
       SpBuf s \<Rightarrow> do {
         let slot = slot\<lparr>sl_login_info := Some s\<rparr>;
         (r, p) \<leftarrow> p11prov_session_pool_init E (sl_token slot) (sl_id slot);
         if r \<noteq> CKR_OK then ret (r, slot)
         else do {
           let slot = slot\<lparr>sl_pool := p\<rparr>;
           (r, ob) \<leftarrow> p11prov_obj_pool_init E (sl_id slot);
           if r \<noteq> CKR_OK then ret (r, slot)
           else do {
             let slot = slot\<lparr>sl_objects := ob\<rparr>;
             slot \<leftarrow> (if major \<ge> 3 then get_slot_profiles E slot else ret slot);
             slot \<leftarrow> get_slot_mechanisms E slot;
             ret (CKR_OK, slot) } } }
     | _ \<Rightarrow> ret (CKR_HOST_MEMORY, slot) }"

definition default_candidate :: "p11prov_slot \<Rightarrow> bool" where
  "default_candidate slot \<longleftrightarrow> has_flag (ti_flags (sl_token slot)) CKF_LOGIN_REQUIRED \<and>
     has_flag (ti_flags (sl_token slot)) CKF_TOKEN_INITIALIZED \<and>
     \<not> has_flag (ti_flags (sl_token slot)) CKF_USER_PIN_LOCKED"

text \<open>
  The loop over the slot identifiers; \<open>r\<close> is the variable \<open>ret\<close>, which a skipped slot leaves at the
  value of the call that failed.
\<close>

fun init_slots_loop :: "'e p11env \<Rightarrow> nat \<Rightarrow> CK_SLOT_ID list \<Rightarrow> CK_RV \<Rightarrow> slots_ctx \<Rightarrow> ('e world, CK_RV \<times> slots_ctx) state" where
  "init_slots_loop E major [] r sctx = ret (r, sctx)"
| "init_slots_loop E major (slotid # ids) r sctx = do {
     ok \<leftarrow> ecall (E_malloc E sizeof_slot);
     if \<not> ok then ret (CKR_HOST_MEMORY, sctx)
     else do {
       (r, si) \<leftarrow> ecall (E_GetSlotInfo E slotid);
       if r \<noteq> CKR_OK \<or> \<not> has_flag (si_flags si) CKF_TOKEN_PRESENT then init_slots_loop E major ids r sctx
       else do {
         (r, ti) \<leftarrow> ecall (E_GetTokenInfo E slotid);
         if r \<noteq> CKR_OK then init_slots_loop E major ids r sctx
         else do {
           let slot = trim_slot (zero_slot\<lparr>sl_slot := si, sl_token := ti, sl_id := slotid\<rparr>);
           (r, slot) \<leftarrow> init_slot_rest E major slot;
           let sctx' = sctx\<lparr>sc_slots := sc_slots sctx @ [slot]\<rparr>;
           if r \<noteq> CKR_OK then ret (r, sctx')
           else init_slots_loop E major ids r
             (if sc_default_slot sctx' = CK_UNAVAILABLE_INFORMATION \<and> default_candidate slot
              then sctx'\<lparr>sc_default_slot := sl_id slot\<rparr> else sctx') } } } }"

definition p11prov_init_slots :: "'e p11env \<Rightarrow> nat \<Rightarrow> ('e world, CK_RV \<times> slots_ctx option) state" where
  "p11prov_init_slots E major = do {
     ok \<leftarrow> ecall (E_malloc E sizeof_slots_ctx);
     if \<not> ok then ret (CKR_HOST_MEMORY, None)
     else do {
       let sctx = \<lparr>sc_slots = [], sc_default_slot = 0\<rparr>;
       r \<leftarrow> p11prov_mutex_init E LkSlots;
       (r, sctx) \<leftarrow>
         (if r \<noteq> CKR_OK then ret (r, sctx)
          else do {
            (r, num) \<leftarrow> ecall (E_GetSlotCount E);
            if r \<noteq> CKR_OK then ret (r, sctx)
            else if num > 0x10000 then ret (CKR_GENERAL_ERROR, sctx)
            else do {
              ok \<leftarrow> ecall (E_malloc E (num * 8));
              if \<not> ok then ret (CKR_HOST_MEMORY, sctx)
              else do {
                (r, slotids) \<leftarrow> ecall (E_GetSlotList E num);
                if r \<noteq> CKR_OK then ret (r, sctx)
                else do {
                  ok \<leftarrow> ecall (E_malloc E (length slotids * 8));
                  if \<not> ok then ret (CKR_HOST_MEMORY, sctx)
                  else init_slots_loop E major slotids r
                    (sctx\<lparr>sc_default_slot := CK_UNAVAILABLE_INFORMATION\<rparr>) } } } });
       if r \<noteq> CKR_OK then do { _ \<leftarrow> p11prov_free_slots E (Some sctx); ret (r, None) }
       else ret (r, Some sctx) } }"

section \<open>Fork handlers\<close>

definition p11prov_slot_fork_prepare :: "'e p11env \<Rightarrow> ('e world, unit) state" where
  "p11prov_slot_fork_prepare E = do {
     r \<leftarrow> p11prov_mutex_lock E LkSlots;
     if r \<noteq> CKR_OK then do { _ \<leftarrow> p11prov_mutex_lock E LkSlots; ret () } else ret () }"

definition p11prov_slot_fork_release :: "'e p11env \<Rightarrow> ('e world, unit) state" where
  "p11prov_slot_fork_release E = do { _ \<leftarrow> p11prov_mutex_unlock E LkSlots; ret () }"

definition p11prov_slot_fork_reset :: "'e p11env \<Rightarrow> ('e world, unit) state" where
  "p11prov_slot_fork_reset E = do {
     modify (\<lambda>w. w\<lparr>w_held := filter (\<lambda>l. l \<noteq> LkSlots) (w_held w)\<rparr>);
     r \<leftarrow> p11prov_mutex_lock E LkSlots;
     if r \<noteq> CKR_OK then ret ()
     else do {
       slots \<leftarrow> gets slots_list;
       for_each (\<lambda>s. do {
         p11prov_session_pool_fork_reset E (sl_pool s);
         p11prov_obj_pool_fork_reset E (sl_objects s) }) slots;
       _ \<leftarrow> p11prov_mutex_unlock E LkSlots;
       ret () } }"

section \<open>Initialisation\<close>

text \<open>
  \<open>env_only w w'\<close>: nothing but the environment and the held locks changed.
\<close>

definition env_only :: "'e world \<Rightarrow> 'e world \<Rightarrow> bool" where
  "env_only w w' \<longleftrightarrow> (\<exists>e l. w' = w\<lparr>w_env := e, w_held := l\<rparr>)"

lemma env_only_simps:
  "env_only w w' \<Longrightarrow> w_pools w' = w_pools w \<and> w_opools w' = w_opools w \<and> w_sess w' = w_sess w \<and>
     w_objs w' = w_objs w \<and> w_slots w' = w_slots w \<and> w_ctx w' = w_ctx w"
  by (auto simp: env_only_def)

lemma env_only_env [simp]: "env_only w (w'\<lparr>w_env := e\<rparr>) = env_only w w'"
proof
  assume "env_only w (w'\<lparr>w_env := e\<rparr>)"
  then obtain e' l where "w'\<lparr>w_env := e\<rparr> = w\<lparr>w_env := e', w_held := l\<rparr>" by (auto simp: env_only_def)
  then have "w' = w\<lparr>w_env := w_env w', w_held := l\<rparr>" by (cases w; cases w') simp
  then show "env_only w w'" unfolding env_only_def by blast
next
  assume "env_only w w'"
  then obtain e' l where "w' = w\<lparr>w_env := e', w_held := l\<rparr>" by (auto simp: env_only_def)
  then have "w'\<lparr>w_env := e\<rparr> = w\<lparr>w_env := e, w_held := l\<rparr>" by simp
  then show "env_only w (w'\<lparr>w_env := e\<rparr>)" unfolding env_only_def by blast
qed

lemma env_only_refl [simp]: "env_only w w"
  unfolding env_only_def by (metis world.surjective world.update_convs(1,2))

lemma wp_profiles_loop: "env_only w0 w \<Longrightarrow> wp (profiles_loop E h obs i ps) (\<lambda>_. env_only w0) w"
  by (induction obs arbitrary: w i ps) (auto simp: wp_simps split: prod.split)

lemma wp_get_slot_profiles:
  "env_only w0 w \<Longrightarrow> wp (get_slot_profiles E slot) (\<lambda>s' w'. env_only w0 w' \<and> (\<exists>ps. s' = slot\<lparr>sl_profiles := ps\<rparr>)) w"
proof -
  have self: "\<exists>ps. slot = slot\<lparr>sl_profiles := ps\<rparr>" by (rule exI [of _ "sl_profiles slot"]) simp
  show "env_only w0 w \<Longrightarrow> ?thesis"
    using self
    by (auto simp: get_slot_profiles_def wp_simps split: prod.split intro!: wp_mono [OF wp_profiles_loop])
qed

lemma wp_get_slot_mechanisms:
  "env_only w0 w \<Longrightarrow> wp (get_slot_mechanisms E slot) (\<lambda>s' w'. env_only w0 w' \<and>
     (\<exists>ms lv n. s' = slot\<lparr>sl_mechs := ms, sl_mechs_live := lv, sl_nmechs := n\<rparr>)) w"
  by (auto simp: get_slot_mechanisms_def wp_simps split: prod.split)
    (metis p11prov_slot.surjective p11prov_slot.update_convs(9,10,11))+


text \<open>A slot that is ready for use: it has a token, a prompt, and live pools of its own that know the slot.\<close>

definition slot_ok :: "'e world \<Rightarrow> p11prov_slot \<Rightarrow> bool" where
  "slot_ok w s \<longleftrightarrow> has_flag (si_flags (sl_slot s)) CKF_TOKEN_PRESENT \<and> sl_login_info s \<noteq> None \<and>
     (\<exists>p. sl_pool s = Some p \<and> p < h_brk (w_pools w) \<and> h_live (w_pools w) p \<and>
        sp_slotid (pcell w p) = sl_id s \<and> sp_sessions (pcell w p) = []) \<and>
     (\<exists>q. sl_objects s = Some q \<and> q < h_brk (w_opools w) \<and> h_live (w_opools w) q \<and>
        op_slotid (opcell w q) = sl_id s \<and> op_objects (opcell w q) = [])"

text \<open>\<open>keeps_slots w w'\<close>: ready slots stay ready, and only the pools have changed.\<close>

definition same_rest :: "'e world \<Rightarrow> 'e world \<Rightarrow> bool" where
  "same_rest w w' \<longleftrightarrow> w_sess w' = w_sess w \<and> w_objs w' = w_objs w \<and> w_ctx w' = w_ctx w \<and> w_slots w' = w_slots w"

definition keeps_slots :: "'e world \<Rightarrow> 'e world \<Rightarrow> bool" where
  "keeps_slots w w' \<longleftrightarrow> (\<forall>s. slot_ok w s \<longrightarrow> slot_ok w' s) \<and> same_rest w w'"

lemma same_rest_simps [simp]:
  "same_rest w w" "same_rest (w\<lparr>w_env := e\<rparr>) w' = same_rest w w'" "same_rest w (w'\<lparr>w_env := e\<rparr>) = same_rest w w'"
  by (simp_all add: same_rest_def)

lemma same_rest_trans: "same_rest w w1 \<Longrightarrow> same_rest w1 w2 \<Longrightarrow> same_rest w w2"
  by (simp add: same_rest_def)

lemma env_only_keeps: "env_only w w' \<Longrightarrow> slot_ok w' s = slot_ok w s" "env_only w w' \<Longrightarrow> same_rest w w'"
  by (auto simp: env_only_def slot_ok_def same_rest_def)

lemma slot_ok_fields:
  "slot_ok w (s\<lparr>sl_profiles := ps\<rparr>) = slot_ok w s"
  "slot_ok w (s\<lparr>sl_mechs := ms, sl_mechs_live := lv, sl_nmechs := n\<rparr>) = slot_ok w s"
  by (simp_all add: slot_ok_def)

lemma wp_session_pool_init:
  "wp (p11prov_session_pool_init E token slotid) (\<lambda>(r, x) w'. same_rest w w' \<and> w_opools w' = w_opools w \<and>
     h_brk (w_pools w) \<le> h_brk (w_pools w') \<and>
     (\<forall>p < h_brk (w_pools w). pcell w' p = pcell w p \<and> h_live (w_pools w') p = h_live (w_pools w) p) \<and>
     (r = CKR_OK \<longrightarrow> (\<exists>p. x = Some p \<and> p < h_brk (w_pools w') \<and> h_live (w_pools w') p \<and>
        sp_slotid (pcell w' p) = slotid \<and> sp_sessions (pcell w' p) = []))) w"
  by (auto simp: p11prov_session_pool_init_def wp_simps zero_pool_def same_rest_def split: prod.split)

lemma wp_obj_pool_init:
  "wp (p11prov_obj_pool_init E slotid) (\<lambda>(r, x) w'. same_rest w w' \<and> w_pools w' = w_pools w \<and>
     h_brk (w_opools w) \<le> h_brk (w_opools w') \<and>
     (\<forall>p < h_brk (w_opools w). opcell w' p = opcell w p \<and> h_live (w_opools w') p = h_live (w_opools w) p) \<and>
     (r = CKR_OK \<longrightarrow> (\<exists>p. x = Some p \<and> p < h_brk (w_opools w') \<and> h_live (w_opools w') p \<and>
        op_slotid (opcell w' p) = slotid \<and> op_objects (opcell w' p) = []))) w"
  by (auto simp: p11prov_obj_pool_init_def wp_simps zero_obj_pool_def same_rest_def split: prod.split)

lemma wp_init_slot_tail:
  fixes major :: nat
  assumes "slot_ok w slot"
  shows "wp (do { slot \<leftarrow> (if major \<ge> 3 then get_slot_profiles E slot else ret slot);
       slot \<leftarrow> get_slot_mechanisms E slot; ret (CKR_OK, slot) })
     (\<lambda>(r, s') w'. keeps_slots w w' \<and> slot_ok w' s' \<and> sl_id s' = sl_id slot \<and> sl_token s' = sl_token slot) w"
proof (rule wp_seq [where P = "\<lambda>s' w'. env_only w w' \<and> (\<exists>ps. s' = slot\<lparr>sl_profiles := ps\<rparr>)"])
  have "\<exists>ps. slot = slot\<lparr>sl_profiles := ps\<rparr>" by (rule exI [of _ "sl_profiles slot"]) simp
  then show "wp (if major \<ge> 3 then get_slot_profiles E slot else ret slot)
      (\<lambda>s' w'. env_only w w' \<and> (\<exists>ps. s' = slot\<lparr>sl_profiles := ps\<rparr>)) w"
    using wp_get_slot_profiles [OF env_only_refl, of E slot w] by (cases "3 \<le> major") (simp_all add: wp_simps)
next
  fix s1 w1
  assume 1: "env_only w w1 \<and> (\<exists>ps. s1 = slot\<lparr>sl_profiles := ps\<rparr>)"
  show "wp (do { slot \<leftarrow> get_slot_mechanisms E s1; ret (CKR_OK, slot) })
     (\<lambda>(r, s') w'. keeps_slots w w' \<and> slot_ok w' s' \<and> sl_id s' = sl_id slot \<and> sl_token s' = sl_token slot) w1"
    by (rule wp_seq [OF wp_get_slot_mechanisms [OF conjunct1 [OF 1], of E s1]])
      (use 1 assms in \<open>auto simp: wp_simps keeps_slots_def env_only_keeps slot_ok_fields\<close>)
qed

lemma keeps_slots_trans: "keeps_slots w w1 \<Longrightarrow> keeps_slots w1 w2 \<Longrightarrow> keeps_slots w w2"
  by (auto simp: keeps_slots_def intro: same_rest_trans)

lemma keeps_slots_init:
  "same_rest w w' \<Longrightarrow> w_opools w' = w_opools w \<Longrightarrow> h_brk (w_pools w) \<le> h_brk (w_pools w') \<Longrightarrow>
   \<forall>p < h_brk (w_pools w). pcell w' p = pcell w p \<and> h_live (w_pools w') p = h_live (w_pools w) p \<Longrightarrow> keeps_slots w w'"
  "same_rest w w' \<Longrightarrow> w_pools w' = w_pools w \<Longrightarrow> h_brk (w_opools w) \<le> h_brk (w_opools w') \<Longrightarrow>
   \<forall>p < h_brk (w_opools w). opcell w' p = opcell w p \<and> h_live (w_opools w') p = h_live (w_opools w) p \<Longrightarrow> keeps_slots w w'"
  by (fastforce simp: keeps_slots_def slot_ok_def)+

lemma wp_init_slot_rest:
  assumes "has_flag (si_flags (sl_slot slot)) CKF_TOKEN_PRESENT"
  shows "wp (init_slot_rest E major slot) (\<lambda>(r, s') w'. keeps_slots w w' \<and>
     (r = CKR_OK \<longrightarrow> slot_ok w' s' \<and> sl_id s' = sl_id slot \<and> sl_token s' = sl_token slot)) w"
proof (cases "p11prov_alloc_sprintf (\<lambda>n. fst (E_malloc E n (w_env w))) (30 + 20 + 64 + 1) (slot_login_info slot)")
  case (SpBuf info)
  let ?Q = "\<lambda>(r, s') w'. keeps_slots w w' \<and>
     (r = CKR_OK \<longrightarrow> slot_ok w' s' \<and> sl_id s' = sl_id slot \<and> sl_token s' = sl_token slot)"
  let ?s = "\<lambda>p ob. slot\<lparr>sl_login_info := Some info, sl_pool := p, sl_objects := ob\<rparr>"
  have tail: "wp (do { slot \<leftarrow> (if major \<ge> 3 then get_slot_profiles E (?s p ob) else ret (?s p ob));
       slot \<leftarrow> get_slot_mechanisms E slot; ret (CKR_OK, slot) }) ?Q v"
    if "keeps_slots w v" "slot_ok v (?s p ob)" for p ob v
    by (rule wp_mono [OF wp_init_slot_tail [OF that(2)]]) (use that(1) in \<open>auto intro: keeps_slots_trans\<close>)
  have objs: "wp (do { (r, ob) \<leftarrow> p11prov_obj_pool_init E (sl_id slot);
       if r \<noteq> CKR_OK then ret (r, slot\<lparr>sl_login_info := Some info, sl_pool := Some p\<rparr>)
       else do { slot \<leftarrow> (if major \<ge> 3 then get_slot_profiles E (?s (Some p) ob) else ret (?s (Some p) ob));
         slot \<leftarrow> get_slot_mechanisms E slot; ret (CKR_OK, slot) } }) ?Q v"
    if v: "keeps_slots w v" "p < h_brk (w_pools v)" "h_live (w_pools v) p" "sp_slotid (pcell v p) = sl_id slot"
      "sp_sessions (pcell v p) = []" for p v
  proof (rule wp_seq [OF wp_obj_pool_init], clarify)
    fix r ob and v' :: "'a world"
    assume o: "same_rest v v'" "w_pools v' = w_pools v" "h_brk (w_opools v) \<le> h_brk (w_opools v')"
      "\<forall>p < h_brk (w_opools v). opcell v' p = opcell v p \<and> h_live (w_opools v') p = h_live (w_opools v) p"
      "r = CKR_OK \<longrightarrow> (\<exists>p. ob = Some p \<and> p < h_brk (w_opools v') \<and> h_live (w_opools v') p \<and>
        op_slotid (opcell v' p) = sl_id slot \<and> op_objects (opcell v' p) = [])"
    have k: "keeps_slots w v'" by (rule keeps_slots_trans [OF v(1) keeps_slots_init(2) [OF o(1-4)]])
    show "wp (if r \<noteq> CKR_OK then ret (r, slot\<lparr>sl_login_info := Some info, sl_pool := Some p\<rparr>)
       else do { slot \<leftarrow> (if major \<ge> 3 then get_slot_profiles E (?s (Some p) ob) else ret (?s (Some p) ob));
         slot \<leftarrow> get_slot_mechanisms E slot; ret (CKR_OK, slot) }) ?Q v'"
    proof (cases "r = CKR_OK")
      case True
      then have "slot_ok v' (?s (Some p) ob)" using o v assms by (auto simp: slot_ok_def)
      then show ?thesis using tail [OF k] True by simp
    next
      case False
      then show ?thesis using k by (simp add: wp_simps)
    qed
  qed
  have "wp (do { (r, p) \<leftarrow> p11prov_session_pool_init E (sl_token slot) (sl_id slot);
       if r \<noteq> CKR_OK then ret (r, slot\<lparr>sl_login_info := Some info\<rparr>)
       else do { (r, ob) \<leftarrow> p11prov_obj_pool_init E (sl_id slot);
       if r \<noteq> CKR_OK then ret (r, slot\<lparr>sl_login_info := Some info, sl_pool := p\<rparr>)
       else do { slot \<leftarrow> (if major \<ge> 3 then get_slot_profiles E (?s p ob) else ret (?s p ob));
         slot \<leftarrow> get_slot_mechanisms E slot; ret (CKR_OK, slot) } } }) ?Q w"
  proof (rule wp_seq [OF wp_session_pool_init], clarify)
    fix r x and v :: "'a world"
    assume o: "same_rest w v" "w_opools v = w_opools w" "h_brk (w_pools w) \<le> h_brk (w_pools v)"
      "\<forall>p < h_brk (w_pools w). pcell v p = pcell w p \<and> h_live (w_pools v) p = h_live (w_pools w) p"
      "r = CKR_OK \<longrightarrow> (\<exists>p. x = Some p \<and> p < h_brk (w_pools v) \<and> h_live (w_pools v) p \<and>
        sp_slotid (pcell v p) = sl_id slot \<and> sp_sessions (pcell v p) = [])"
    have k: "keeps_slots w v" by (rule keeps_slots_init(1) [OF o(1-4)])
    show "wp (if r \<noteq> CKR_OK then ret (r, slot\<lparr>sl_login_info := Some info\<rparr>)
       else do { (r, ob) \<leftarrow> p11prov_obj_pool_init E (sl_id slot);
       if r \<noteq> CKR_OK then ret (r, slot\<lparr>sl_login_info := Some info, sl_pool := x\<rparr>)
       else do { slot \<leftarrow> (if major \<ge> 3 then get_slot_profiles E (?s x ob) else ret (?s x ob));
         slot \<leftarrow> get_slot_mechanisms E slot; ret (CKR_OK, slot) } }) ?Q v"
    proof (cases "r = CKR_OK")
      case True
      then obtain p where p: "x = Some p" "p < h_brk (w_pools v)" "h_live (w_pools v) p" "sp_slotid (pcell v p) = sl_id slot"
        "sp_sessions (pcell v p) = []" using o by auto
      show ?thesis unfolding p(1) using objs [OF k p(2-5)] True by simp
    next
      case False
      then show ?thesis using k by (simp add: wp_simps)
    qed
  qed
  then show ?thesis
    using SpBuf unfolding init_slot_rest_def Let_def
    by (simp add: wp_bind [of "gets _"] wp_gets cong: if_cong)
qed (simp_all add: init_slot_rest_def wp_simps keeps_slots_def)


text \<open>The default slot is the first one that needs a login, is initialised and is not locked.\<close>

definition can_default :: "p11prov_slot \<Rightarrow> bool" where
  "can_default s \<longleftrightarrow> sl_id s \<noteq> CK_UNAVAILABLE_INFORMATION \<and> has_flag (ti_flags (sl_token s)) CKF_LOGIN_REQUIRED \<and>
     has_flag (ti_flags (sl_token s)) CKF_TOKEN_INITIALIZED \<and> \<not> has_flag (ti_flags (sl_token s)) CKF_USER_PIN_LOCKED"

definition default_of :: "p11prov_slot list \<Rightarrow> CK_SLOT_ID" where
  "default_of ss = (case find can_default ss of None \<Rightarrow> CK_UNAVAILABLE_INFORMATION | Some s \<Rightarrow> sl_id s)"

lemma can_default_iff: "can_default s \<longleftrightarrow> default_candidate s \<and> sl_id s \<noteq> CK_UNAVAILABLE_INFORMATION"
  by (auto simp: can_default_def default_candidate_def)

lemma find_append: "find P (xs @ ys) = (case find P xs of None \<Rightarrow> find P ys | Some x \<Rightarrow> Some x)"
  by (induction xs) auto

lemma default_of_snoc:
  "default_of (ss @ [s]) = (if default_of ss = CK_UNAVAILABLE_INFORMATION \<and> default_candidate s then sl_id s else default_of ss)"
proof (cases "find can_default ss")
  case None
  then show ?thesis by (simp add: default_of_def find_append can_default_iff)
next
  case (Some x)
  then have "sl_id x \<noteq> CK_UNAVAILABLE_INFORMATION" by (auto simp: find_Some_iff can_default_def)
  then show ?thesis using Some by (simp add: default_of_def find_append)
qed

definition sctx_ok :: "'e world \<Rightarrow> slots_ctx \<Rightarrow> bool" where
  "sctx_ok w sctx \<longleftrightarrow> (\<forall>s \<in> set (sc_slots sctx). slot_ok w s) \<and> sc_default_slot sctx = default_of (sc_slots sctx)"

lemma wp_init_slots_loop:
  "sctx_ok w sctx \<Longrightarrow> wp (init_slots_loop E major ids r sctx) (\<lambda>(r, sctx') w'. same_rest w w' \<and> (r = CKR_OK \<longrightarrow> sctx_ok w' sctx')) w"
proof (induction ids arbitrary: w r sctx)
  case Nil
  then show ?case by (simp add: wp_simps)
next
  case (Cons slotid ids)
  let ?Q = "\<lambda>(r, sctx') w'. same_rest w w' \<and> (r = CKR_OK \<longrightarrow> sctx_ok w' sctx')"
  have env: "sctx_ok (v\<lparr>w_env := e\<rparr>) c = sctx_ok v c" for v e and c by (simp add: sctx_ok_def slot_ok_def)
  have rest: "wp (do { (r, slot) \<leftarrow> init_slot_rest E major slot;
       let sctx' = sctx\<lparr>sc_slots := sc_slots sctx @ [slot]\<rparr>;
       if r \<noteq> CKR_OK then ret (r, sctx')
       else init_slots_loop E major ids r
         (if sc_default_slot sctx' = CK_UNAVAILABLE_INFORMATION \<and> default_candidate slot
          then sctx'\<lparr>sc_default_slot := sl_id slot\<rparr> else sctx') }) ?Q v"
    if v: "sctx_ok v sctx \<and> same_rest w v" "has_flag (si_flags (sl_slot slot)) CKF_TOKEN_PRESENT" for v slot
  proof (rule wp_seq [OF wp_init_slot_rest [OF v(2)]], clarify)
    fix r s' v'
    assume k: "keeps_slots v v'" "r = CKR_OK \<longrightarrow> slot_ok v' s' \<and> sl_id s' = sl_id slot \<and> sl_token s' = sl_token slot"
    show "wp (let sctx' = sctx\<lparr>sc_slots := sc_slots sctx @ [s']\<rparr>
       in if r \<noteq> CKR_OK then ret (r, sctx')
       else init_slots_loop E major ids r
         (if sc_default_slot sctx' = CK_UNAVAILABLE_INFORMATION \<and> default_candidate s'
          then sctx'\<lparr>sc_default_slot := sl_id s'\<rparr> else sctx')) ?Q v'"
    proof (cases "r = CKR_OK")
      case True
      have same: "same_rest w v'" using k(1) v(1) by (auto simp: keeps_slots_def intro: same_rest_trans)
      have "wp (init_slots_loop E major ids r c) ?Q v'" if "sctx_ok v' c" for c
        by (rule wp_mono [OF Cons.IH [OF that]]) (use same in \<open>auto intro: same_rest_trans\<close>)
      then show ?thesis
        using True k v(1) by (auto simp: Let_def sctx_ok_def keeps_slots_def default_of_snoc)
    next
      case False
      then show ?thesis using k(1) v(1) by (auto simp: Let_def wp_simps keeps_slots_def intro: same_rest_trans)
    qed
  qed
  have IH: "wp (init_slots_loop E major ids r' sctx) ?Q (w\<lparr>w_env := e\<rparr>)" for r' e
    by (rule wp_mono [OF Cons.IH]) (auto simp: env Cons.prems)
  have trim: "sl_slot (trim_slot s) = (sl_slot s)\<lparr>si_slotDescription := trim_padded_field (si_slotDescription (sl_slot s)),
      si_manufacturerID := trim_padded_field (si_manufacturerID (sl_slot s))\<rparr>" for s
    by (simp add: trim_slot_def)
  show ?case
    unfolding init_slots_loop.simps
    using IH rest Cons.prems
    by (auto simp: wp_bind [of "ecall _"] wp_ecall wp_if wp_return wp_case_prod wp_Let env trim
        split: prod.split simp del: init_slots_loop.simps)
qed

lemma wp_init_slots:
  "wp (p11prov_init_slots E major) (\<lambda>(r, x) w'.
     (case x of None \<Rightarrow> r \<noteq> CKR_OK | Some sctx \<Rightarrow> r = CKR_OK \<and> sctx_ok w' sctx \<and> same_rest w w')) w"
proof -
  have loop: "wp (init_slots_loop E major ids r \<lparr>sc_slots = [], sc_default_slot = CK_UNAVAILABLE_INFORMATION\<rparr>)
      (\<lambda>(r, sctx') w'. same_rest v w' \<and> (r = CKR_OK \<longrightarrow> sctx_ok w' sctx')) v" for ids r v
    by (rule wp_init_slots_loop) (simp add: sctx_ok_def default_of_def)
  show ?thesis
    unfolding p11prov_init_slots_def
    by (auto simp: wp_simps split: prod.split intro!: wp_mono [OF loop])
qed


text \<open>
  A slot is skipped when its information cannot be read, but when this happens for the last slot
  of the list the error of the skipped slot is the result of the whole initialisation.
\<close>

lemma init_slots_last_skipped:
  fixes lastid :: CK_SLOT_ID
  assumes "\<And>e. fst (fst (E_GetSlotInfo E lastid e)) \<noteq> CKR_OK"
  shows "wp (init_slots_loop E major (ids @ [lastid]) r sctx) (\<lambda>(r', _) _. r' \<noteq> CKR_OK) w"
proof (induction ids arbitrary: r sctx w)
  case (Nil r sctx w)
  have "E_GetSlotInfo E lastid e = ((r', si), e') \<Longrightarrow> r' \<noteq> CKR_OK" for e r' si e' using assms [of e] by simp
  then show ?case by (auto simp: wp_simps split: prod.split)
next
  case (Cons slotid ids r sctx w)
  have "wp (init_slot_rest E major slot) (\<lambda>p v. wp (case p of (r, slot) \<Rightarrow>
       let sctx' = sctx\<lparr>sc_slots := sc_slots sctx @ [slot]\<rparr> in
       if r \<noteq> CKR_OK then ret (r, sctx')
       else init_slots_loop E major (ids @ [lastid]) r
         (if sc_default_slot sctx' = CK_UNAVAILABLE_INFORMATION \<and> default_candidate slot
          then sctx'\<lparr>sc_default_slot := sl_id slot\<rparr> else sctx')) (\<lambda>(r', _) _. r' \<noteq> CKR_OK) v) w" for slot w
    by (rule wp_mono [OF wp_True]) (auto simp: wp_simps Cons.IH simp del: init_slots_loop.simps split: prod.split)
  then show ?case
    using Cons.IH
    by (auto simp: wp_bind wp_ecall wp_if wp_return wp_case_prod wp_Let split: prod.split)
qed

text \<open>
  When the mechanism list cannot be read after its size, the slot keeps a pointer to the freed
  block, and freeing the slots frees it again.
\<close>

lemma get_slot_mechanisms_dangling:
  assumes "\<And>e. fst (fst (E_GetMechanismCount E (sl_id slot) e)) = CKR_OK" and "\<And>n e. fst (E_malloc E n e)"
    and "\<And>n e. rv_int (fst (fst (E_GetMechanismList E (sl_id slot) n e))) \<noteq> CKR_OK"
  shows "wp (do { s \<leftarrow> get_slot_mechanisms E slot; free_slots_loop E [s] }) (\<lambda>ok _. \<not> ok) w"
proof -
  have m: "E_malloc E n e = (b, e') \<Longrightarrow> b" for n e b e' using assms(2) [of n e] by simp
  have c: "E_GetMechanismCount E (sl_id slot) e = ((r, n), e') \<Longrightarrow> r = CKR_OK" for e r n e' using assms(1) [of e] by simp
  have g: "E_GetMechanismList E (sl_id slot) n e = ((r, l), e') \<Longrightarrow> rv_int r \<noteq> CKR_OK" for n e r l e' using assms(3) [of n e] by simp
  show ?thesis
    by (auto simp: get_slot_mechanisms_def wp_simps split: prod.split dest!: m c dest: g intro: wp_mono [OF wp_True])
qed

section \<open>Fork\<close>

definition oforked :: "p11prov_obj \<Rightarrow> p11prov_obj" where
  "oforked ob = ob\<lparr>o_raf := True, o_handle := CK_INVALID_HANDLE, o_cached := CK_INVALID_HANDLE\<rparr>"

text \<open>\<open>reset_step w w'\<close>: every session and every object is either unchanged or reset.\<close>

definition reset_step :: "'e world \<Rightarrow> 'e world \<Rightarrow> bool" where
  "reset_step w w' \<longleftrightarrow> w_pools w' = w_pools w \<and> w_opools w' = w_opools w \<and> w_slots w' = w_slots w \<and> w_ctx w' = w_ctx w \<and>
     (\<forall>a. cell w' a = cell w a \<or> cell w' a = forked (cell w a)) \<and>
     (\<forall>b. ocell w' b = ocell w b \<or> ocell w' b = oforked (ocell w b))"

lemma oforked_idem [simp]: "oforked (oforked x) = oforked x"
  by (simp add: oforked_def)

lemma reset_step_refl [simp]: "reset_step w w"
  by (simp add: reset_step_def)

lemma reset_step_trans: "reset_step w w1 \<Longrightarrow> reset_step w1 w2 \<Longrightarrow> reset_step w w2"
  unfolding reset_step_def by (metis forked_idem oforked_idem)

definition session_reset :: "session \<Rightarrow> bool" where
  "session_reset s \<longleftrightarrow> s_session s = CK_INVALID_HANDLE \<and> \<not> s_in_use s \<and> \<not> s_is_login s \<and> s_cb s = None"

definition obj_reset :: "p11prov_obj \<Rightarrow> bool" where
  "obj_reset ob \<longleftrightarrow> o_raf ob \<and> o_handle ob = CK_INVALID_HANDLE \<and> o_cached ob = CK_INVALID_HANDLE"

definition slot_reset :: "'e world \<Rightarrow> p11prov_slot \<Rightarrow> bool" where
  "slot_reset w s \<longleftrightarrow> (\<forall>p a. sl_pool s = Some p \<longrightarrow> a \<in> set (sp_sessions (pcell w p)) \<longrightarrow> session_reset (cell w a)) \<and>
     (\<forall>q b. sl_objects s = Some q \<longrightarrow> Some b \<in> set (op_objects (opcell w q)) \<longrightarrow> obj_reset (ocell w b))"

lemma slot_reset_step:
  assumes "slot_reset w s" and "reset_step w w'"
  shows "slot_reset w' s"
proof -
  have "session_reset (cell w a) \<Longrightarrow> session_reset (cell w' a)" for a
    using assms(2) by (auto simp: reset_step_def session_reset_def forked_def set_closed_def dest: spec [of _ a])
  moreover have "obj_reset (ocell w b) \<Longrightarrow> obj_reset (ocell w' b)" for b
    using assms(2) by (auto simp: reset_step_def obj_reset_def oforked_def dest: spec [of _ b])
  ultimately show ?thesis using assms by (auto simp: slot_reset_def reset_step_def)
qed


lemma wp_fork_reset_objs:
  "wp (for_each fork_reset_obj xs) (\<lambda>_ w'. reset_step w w' \<and> w_sess w' = w_sess w \<and>
     (\<forall>b. Some b \<in> set xs \<longrightarrow> obj_reset (ocell w' b))) w"
proof (induction xs arbitrary: w)
  case Nil
  then show ?case by (simp add: wp_simps)
next
  case (Cons x xs)
  have 1: "wp (fork_reset_obj x) (\<lambda>_ w'. reset_step w w' \<and> w_sess w' = w_sess w \<and> (\<forall>b. x = Some b \<longrightarrow> obj_reset (ocell w' b))) w"
    by (cases x) (auto simp: fork_reset_obj_def wp_simps reset_step_def oforked_def obj_reset_def)
  have keep: "obj_reset (ocell v b) \<Longrightarrow> reset_step v v' \<Longrightarrow> obj_reset (ocell v' b)" for v v' :: "'a world" and b
    by (auto simp: reset_step_def obj_reset_def oforked_def dest: spec [of _ b])
  show ?case
    unfolding for_each.simps
    by (rule wp_seq [OF 1], rule wp_mono [OF Cons.IH]) (auto intro: reset_step_trans keep)
qed

lemma wp_obj_pool_fork_reset:
  assumes "\<And>l e. fst (E_lock E l e)"
  shows "wp (p11prov_obj_pool_fork_reset E x) (\<lambda>_ w'. reset_step w w' \<and>
     (\<forall>q b. x = Some q \<longrightarrow> Some b \<in> set (op_objects (opcell w q)) \<longrightarrow> obj_reset (ocell w' b))) w"
proof -
  have l: "E_lock E l e = (b, e') \<Longrightarrow> b" for l e b e' using assms [of l e] by simp
  have unobs: "reset_step w (v\<lparr>w_env := e\<rparr>) = reset_step w v" "reset_step (w\<lparr>w_env := e, w_held := h\<rparr>) v = reset_step w v"
    "reset_step w (v\<lparr>w_held := h\<rparr>) = reset_step w v" "reset_step w (v\<lparr>w_env := e, w_held := h\<rparr>) = reset_step w v" for v e h
    by (simp_all add: reset_step_def)
  show ?thesis
    unfolding p11prov_obj_pool_fork_reset_def
    by (auto simp: wp_simps unobs split: prod.split option.split dest!: l intro!: wp_mono [OF wp_fork_reset_objs])
qed

lemma wp_session_pool_fork_reset:
  assumes "\<And>l e. fst (E_lock E l e)" and "\<And>l e. fst (E_mutex_init E l e)"
  shows "wp (p11prov_session_pool_fork_reset E x) (\<lambda>_ w'. reset_step w w' \<and>
     (\<forall>p a. x = Some p \<longrightarrow> a \<in> set (sp_sessions (pcell w p)) \<longrightarrow> session_reset (cell w' a))) w"
proof (cases x)
  case None
  then show ?thesis by (simp add: p11prov_session_pool_fork_reset_def wp_simps)
next
  case (Some p)
  show ?thesis
    unfolding Some
    by (rule wp_mono [OF wp_fork_reset [OF assms]])
      (auto simp: reset_step_def sess_frame_def session_reset_def forked_def set_closed_def)
qed

lemma wp_slot_fork_reset:
  assumes "\<And>l e. fst (E_lock E l e)" and "\<And>l e. fst (E_mutex_init E l e)"
  shows "wp (p11prov_slot_fork_reset E) (\<lambda>_ w'. reset_step w w' \<and> (\<forall>s \<in> set (slots_list w). slot_reset w' s)) w"
proof -
  have l: "E_lock E l e = (b, e') \<Longrightarrow> b" for l e b e' using assms(1) [of l e] by simp
  let ?f = "\<lambda>s. do { p11prov_session_pool_fork_reset E (sl_pool s); p11prov_obj_pool_fork_reset E (sl_objects s) }"
  have one: "wp (?f s) (\<lambda>_ w'. reset_step v w' \<and> slot_reset w' s) v" for s v
  proof (rule wp_seq [OF wp_session_pool_fork_reset [OF assms]], rule wp_mono [OF wp_obj_pool_fork_reset [OF assms(1)]])
    fix u1 v1 u2 v2
    assume 1: "reset_step v v1 \<and> (\<forall>p a. sl_pool s = Some p \<longrightarrow> a \<in> set (sp_sessions (pcell v p)) \<longrightarrow> session_reset (cell v1 a))"
      and 2: "reset_step v1 v2 \<and> (\<forall>q b. sl_objects s = Some q \<longrightarrow> Some b \<in> set (op_objects (opcell v1 q)) \<longrightarrow> obj_reset (ocell v2 b))"
    have "session_reset (cell v1 a) \<Longrightarrow> session_reset (cell v2 a)" for a
      using 2 by (auto simp: reset_step_def session_reset_def forked_def set_closed_def dest: spec [of _ a])
    then show "reset_step v v2 \<and> slot_reset v2 s"
      using 1 2 reset_step_trans [of v v1 v2] by (auto simp: slot_reset_def reset_step_def)
  qed
  have each: "wp (for_each ?f ss) (\<lambda>_ w'. reset_step v w' \<and> (\<forall>s \<in> set ss. slot_reset w' s)) v" for ss v
  proof (induction ss arbitrary: v)
    case Nil
    then show ?case by (simp add: wp_simps)
  next
    case (Cons s ss)
    show ?case
      unfolding for_each.simps
      by (rule wp_seq [OF one], rule wp_mono [OF Cons.IH]) (auto intro: reset_step_trans slot_reset_step)
  qed
  have unobs: "reset_step w (v\<lparr>w_env := e\<rparr>) = reset_step w v" "reset_step (w\<lparr>w_env := e, w_held := h\<rparr>) v = reset_step w v"
    "reset_step w (v\<lparr>w_held := h\<rparr>) = reset_step w v" "reset_step w (v\<lparr>w_env := e, w_held := h\<rparr>) = reset_step w v"
    "slot_reset (v\<lparr>w_env := e\<rparr>) s = slot_reset v s" "slot_reset (v\<lparr>w_env := e, w_held := h\<rparr>) s = slot_reset v s"
    "reset_step (w\<lparr>w_held := h, w_env := e\<rparr>) v = reset_step w v"
    "slots_list (v\<lparr>w_env := e\<rparr>) = slots_list v"
    "slots_list (v\<lparr>w_held := h\<rparr>) = slots_list v" "slots_list (v\<lparr>w_env := e, w_held := h\<rparr>) = slots_list v"
    "slots_list (v\<lparr>w_held := h, w_env := e\<rparr>) = slots_list v" for v e h s
    by (simp_all add: reset_step_def slot_reset_def slots_list_def)
  show ?thesis
    unfolding p11prov_slot_fork_reset_def
    by (auto simp: wp_bind [of "modify _"] wp_bind [of "gets _"] wp_bind [of "p11prov_mutex_lock _ _"] wp_bind [of "for_each _ _"]
        wp_modify wp_gets wp_mutex_lock wp_if unobs split: prod.split dest!: l
        intro!: wp_mono [OF each]) (auto simp: wp_simps unobs split: prod.split)
qed

text \<open>
  C10. The fork handler of the child, with working locks, resets every slot: no session of any
  slot keeps a handle or an owner, and every object in any slot's pool is marked for a refresh
  and has no handle. Nothing else is changed.
\<close>

theorem slot_fork_reset_all:
  assumes "\<And>l e. fst (E_lock E l e)" and "\<And>l e. fst (E_mutex_init E l e)"
  shows "wp (p11prov_slot_fork_reset E) (\<lambda>_ w'. reset_step w w' \<and> (\<forall>s \<in> set (slots_list w). slot_reset w' s)) w"
  by (rule wp_slot_fork_reset [OF assms])

theorem slot_fork_reset_all_witness:
  "wp (p11prov_slot_fork_reset sim_env) (\<lambda>_ w'. slot_reset w' sim_slot) sim_slots_world"
  by (rule wp_mono [OF slot_fork_reset_all]) (auto simp: sim_env_def sim_slots_world_def slots_list_def)

end
