(* ===== verification/P11_Login.thy ===== *)
theory P11_Login
  imports P11_Slots
begin

text \<open>
  Login and the choice of a session (\<^verbatim>\<open>src/src/session.c\<close>): PIN selection and \<open>token_login\<close>,
  \<open>slot_login\<close>, \<open>p11prov_get_session\<close> with its search over the slots, \<open>p11prov_try_session_ref\<close> and
  \<open>p11prov_take_login_session\<close>. A passphrase callback is named by a number, \<open>None\<close> is a NULL
  callback. \<open>CK_RV\<close> and the session given back through a pointer are returned as a pair.
\<close>

section \<open>Model\<close>

abbreviation CKU_USER :: CK_ULONG where "CKU_USER \<equiv> 1"
abbreviation CKU_CONTEXT_SPECIFIC :: CK_ULONG where "CKU_CONTEXT_SPECIFIC \<equiv> 2"

definition p11prov_session_prompt_for_pin :: "'e p11env \<Rightarrow> string option \<Rightarrow> ('e world, int \<times> string) state" where
  "p11prov_session_prompt_for_pin E login_info = do {
     ui \<leftarrow> ecall (E_ui_new E);
     if \<not> ui then ret (0, [])
     else do {
       prompt \<leftarrow> ecall (E_ui_construct_prompt E login_info);
       case prompt of
         None \<Rightarrow> ret (0, [])
       | Some p \<Rightarrow> do {
           r \<leftarrow> ecall (E_ui_dup_input E p);
           if r \<le> 0 then ret (0, [])
           else do {
             (err, pin) \<leftarrow> ecall (E_ui_process E);
             if err \<noteq> 0 then ret (0, []) else ret (r, c_str pin) } } } }"

definition check_pin_flags_ok :: "'e p11env \<Rightarrow> CK_SLOT_ID \<Rightarrow> ('e world, CK_RV) state" where
  "check_pin_flags_ok E slotid = do {
     (r, token) \<leftarrow> ecall (E_GetTokenInfo E slotid);
     if r \<noteq> CKR_OK then ret r
     else if has_flag (ti_flags token) CKF_USER_PIN_FINAL_TRY then ret CKR_CANCEL
     else if has_flag (ti_flags token) CKF_USER_PIN_LOCKED then ret CKR_PIN_LOCKED
     else if has_flag (ti_flags token) CKF_USER_PIN_TO_BE_CHANGED then ret CKR_PIN_EXPIRED
     else ret CKR_OK }"

text \<open>The PIN of the URI, else the configured one, else the cached one, unless it is known to be bad.\<close>

definition stored_pin :: "p11prov_uri option \<Rightarrow> p11prov_ctx \<Rightarrow> p11prov_slot \<Rightarrow> string option" where
  "stored_pin uri ctx slot =
     (let pin = (case uri of None \<Rightarrow> None | Some u \<Rightarrow> u_pin u);
          pin = (case pin of None \<Rightarrow> cx_pin ctx | Some p \<Rightarrow> Some p);
          pin = (case pin of None \<Rightarrow> sl_cached_pin slot | Some p \<Rightarrow> Some p)
      in if pin \<noteq> None \<and> sl_bad_pin slot = pin then None else pin)"

text \<open>The callback, and the prompt of the provider when there is none or when it fails.\<close>

definition ask_pin :: "'e p11env \<Rightarrow> nat option \<Rightarrow> string option \<Rightarrow> ('e world, string option) state" where
  "ask_pin E pw_cb login_info = do {
     (ok, pin) \<leftarrow> (case pw_cb of None \<Rightarrow> ret (False, []) | Some cb \<Rightarrow> ecall (E_pw_cb E cb login_info));
     if ok then ret (Some pin)
     else do {
       (r, pin) \<leftarrow> p11prov_session_prompt_for_pin E login_info;
       ret (if r = 1 then Some pin else None) } }"

definition choose_pin ::
    "'e p11env \<Rightarrow> p11prov_uri option \<Rightarrow> nat option \<Rightarrow> p11prov_slot \<Rightarrow> ('e world, CK_RV + string option \<times> bool) state" where
  "choose_pin E uri pw_cb slot = do {
     ctx \<leftarrow> gets w_ctx;
     if has_flag (ti_flags (sl_token slot)) CKF_PROTECTED_AUTHENTICATION_PATH then ret (Inr (None, False))
     else (case stored_pin uri ctx slot of
       Some pin \<Rightarrow> ret (Inr (Some pin, False))
     | None \<Rightarrow> do {
         asked \<leftarrow> ask_pin E pw_cb (sl_login_info slot);
         case asked of
           None \<Rightarrow> ret (Inl CKR_GENERAL_ERROR)
         | Some pin \<Rightarrow> if pin = [] then ret (Inl CKR_CANCEL) else ret (Inr (Some pin, cx_cache_pins ctx)) }) }"

text \<open>What happens after \<open>C_Login\<close> returned.\<close>

definition login_result ::
    "'e p11env \<Rightarrow> addr \<Rightarrow> nat \<Rightarrow> CK_ULONG \<Rightarrow> string option \<Rightarrow> bool \<Rightarrow> CK_RV \<Rightarrow> ('e world, CK_RV) state" where
  "login_result E a i user_type pin cache r = do {
     r \<leftarrow> (if r = CKR_OK then
             if user_type = CKU_USER then do {
               p11prov_session_ref (Some a);
               upd_s a (\<lambda>s. s\<lparr>s_is_login := True\<rparr>);
               ret r }
             else ret r
           else if r = CKR_USER_ALREADY_LOGGED_IN then ret CKR_OK
           else (case pin of
             Some p \<Rightarrow> if r = CKR_PIN_INCORRECT then do { _ \<leftarrow> p11prov_slot_set_bad_pin E i p; ret r } else ret r
           | None \<Rightarrow> ret r));
     case pin of
       Some p \<Rightarrow> if r = CKR_OK \<and> cache then do { _ \<leftarrow> p11prov_slot_set_cached_pin E i p; ret r } else ret r
     | None \<Rightarrow> ret r }"

definition token_login ::
    "'e p11env \<Rightarrow> addr \<Rightarrow> p11prov_uri option \<Rightarrow> nat option \<Rightarrow> nat \<Rightarrow> CK_ULONG \<Rightarrow> ('e world, CK_RV) state" where
  "token_login E a uri pw_cb i user_type = do {
     slot \<leftarrow> get_slot i;
     chosen \<leftarrow> choose_pin E uri pw_cb slot;
     case chosen of
       Inl r \<Rightarrow> ret r
     | Inr pc \<Rightarrow> do {
         s \<leftarrow> get_s a;
         r \<leftarrow> check_pin_flags_ok E (s_slotid s);
         if r \<noteq> CKR_OK then ret r
         else do {
           r \<leftarrow> ecall (E_Login E (s_session s) user_type (fst pc));
           login_result E a i user_type (fst pc) (snd pc) r } } }"

definition p11prov_context_specific_login ::
    "'e p11env \<Rightarrow> addr \<Rightarrow> p11prov_uri option \<Rightarrow> nat option \<Rightarrow> ('e world, CK_RV) state" where
  "p11prov_context_specific_login E a uri pw_cb = do {
     r \<leftarrow> p11prov_take_slots E;
     if r \<noteq> CKR_OK then ret CKR_GENERAL_ERROR
     else do {
       s \<leftarrow> get_s a;
       x \<leftarrow> p11prov_get_slot_by_id (s_slotid s);
       r \<leftarrow> (case x of None \<Rightarrow> ret CKR_GENERAL_ERROR
             | Some i \<Rightarrow> token_login E a uri pw_cb i CKU_CONTEXT_SPECIFIC);
       p11prov_return_slots E;
       ret r } }"

definition check_slot ::
    "'e p11env \<Rightarrow> nat \<Rightarrow> p11prov_uri option \<Rightarrow> CK_MECHANISM_TYPE \<Rightarrow> bool \<Rightarrow> ('e world, CK_RV) state" where
  "check_slot E i uri mechtype rw = do {
     slot \<leftarrow> get_slot i;
     if \<not> has_flag (si_flags (sl_slot slot)) CKF_TOKEN_PRESENT then ret CKR_TOKEN_NOT_PRESENT
     else if \<not> has_flag (ti_flags (sl_token slot)) CKF_TOKEN_INITIALIZED then ret CKR_TOKEN_NOT_PRESENT
     else if rw \<and> has_flag (ti_flags (sl_token slot)) CKF_WRITE_PROTECTED then ret CKR_TOKEN_WRITE_PROTECTED
     else do {
       let r = (case uri of None \<Rightarrow> CKR_OK
                | Some u \<Rightarrow> p11prov_uri_match_token u (sl_id slot) (sl_slot slot) (sl_token slot));
       if r \<noteq> CKR_OK then ret r
       else if mechtype \<noteq> CK_UNAVAILABLE_INFORMATION then p11prov_check_mechanism E (sl_id slot) mechtype
       else ret CKR_OK } }"

text \<open>
  \<open>slot_login\<close> on the pool of the slot; \<open>want\<close> says that the caller asked for the session. The
  part after the session was acquired is \<open>login_on\<close>.
\<close>

definition login_on ::
    "'e p11env \<Rightarrow> addr \<Rightarrow> nat \<Rightarrow> p11prov_uri option \<Rightarrow> nat option \<Rightarrow> ('e world, CK_RV) state" where
  "login_on E a i uri pw_cb = do {
     s \<leftarrow> get_s a;
     r \<leftarrow> session_check E (Some a) (s_flags s);
     if r \<noteq> CKR_OK \<and> r \<noteq> CKR_SESSION_CLOSED then ret r
     else do {
       s \<leftarrow> get_s a;
       r \<leftarrow> (if s_session s = CK_INVALID_HANDLE then token_session_open E a DEFLT_SESSION_FLAGS else ret CKR_OK);
       if r \<noteq> CKR_OK then ret r
       else do {
         s \<leftarrow> get_s a;
         if is_login_state (s_state s) then ret CKR_OK
         else token_login E a uri pw_cb i CKU_USER } } }"

definition login_undo :: "addr \<Rightarrow> ('e world, unit) state" where
  "login_undo a = do {
     s \<leftarrow> get_s a;
     if s_is_login s then do {
       p11prov_session_deref (Some a);
       upd_s a (\<lambda>s. s\<lparr>s_is_login := False\<rparr>) }
     else ret () }"

definition login_finish ::
    "'e p11env \<Rightarrow> addr \<Rightarrow> nat \<Rightarrow> p11prov_uri option \<Rightarrow> nat option \<Rightarrow> bool \<Rightarrow> ('e world, CK_RV \<times> addr option) state" where
  "login_finish E a i uri pw_cb want = do {
     r \<leftarrow> login_on E a i uri pw_cb;
     if r = CKR_OK \<and> want then ret (r, Some a)
     else do {
       (if r = CKR_OK then ret () else login_undo a);
       p11prov_return_session E (Some a);
       ret (r, None) } }"

definition slot_login ::
    "'e p11env \<Rightarrow> addr \<Rightarrow> nat \<Rightarrow> p11prov_uri option \<Rightarrow> nat option \<Rightarrow> bool \<Rightarrow> bool \<Rightarrow> ('e world, CK_RV \<times> addr option) state" where
  "slot_login E p i uri pw_cb reqlogin want = do {
     (r, x) \<leftarrow> fetch_session E p DEFLT_SESSION_FLAGS True;
     if r = CKR_USER_ALREADY_LOGGED_IN \<and> \<not> want then ret (CKR_OK, None)
     else do {
       (r, x) \<leftarrow> (if r \<noteq> CKR_OK \<and> reqlogin
                  then retry E WAIT_FUEL LOCK_SLEEP (fetch_session E p DEFLT_SESSION_FLAGS True) (\<lambda>y. fst y = CKR_OK) 0
                  else ret (r, x));
       case x of
         None \<Rightarrow> ret (r, None)
       | Some a \<Rightarrow> login_finish E a i uri pw_cb want } }"

definition check_skip_login :: "p11prov_ctx \<Rightarrow> p11prov_slot \<Rightarrow> bool" where
  "check_skip_login ctx slot \<longleftrightarrow> cx_login_behavior ctx \<noteq> PUBKEY_LOGIN_ALWAYS \<and> \<not> p11prov_slot_check_req_login slot"

text \<open>
  The pool of a slot is never NULL once the slots are initialised (\<open>init_slots_ready\<close>).
\<close>

definition check_and_login ::
    "'e p11env \<Rightarrow> nat \<Rightarrow> p11prov_uri option \<Rightarrow> CK_MECHANISM_TYPE \<Rightarrow> nat option \<Rightarrow> bool \<Rightarrow> bool \<Rightarrow> ('e world, CK_RV) state" where
  "check_and_login E i uri mechtype pw_cb reqlogin rw = do {
     r \<leftarrow> check_slot E i uri mechtype rw;
     if r \<noteq> CKR_OK then ret r
     else do {
       slot \<leftarrow> get_slot i;
       ctx \<leftarrow> gets w_ctx;
       if reqlogin \<and> \<not> check_skip_login ctx slot \<or> cx_login_behavior ctx = PUBKEY_LOGIN_ALWAYS then do {
         (r, _) \<leftarrow> slot_login E (the (sl_pool slot)) i uri pw_cb reqlogin False;
         ret r }
       else ret CKR_OK } }"

fun cycle_slots ::
    "'e p11env \<Rightarrow> p11prov_uri option \<Rightarrow> CK_MECHANISM_TYPE \<Rightarrow> nat option \<Rightarrow> bool \<Rightarrow> bool \<Rightarrow> CK_SLOT_ID \<Rightarrow> CK_RV \<Rightarrow>
     nat list \<Rightarrow> ('e world, CK_RV \<times> nat option \<times> nat list) state" where
  "cycle_slots E uri mechtype pw_cb reqlogin rw sid r [] = ret (r, None, [])"
| "cycle_slots E uri mechtype pw_cb reqlogin rw sid r (i # is) = do {
     slot \<leftarrow> get_slot i;
     if sid \<noteq> CK_UNAVAILABLE_INFORMATION \<and> sid \<noteq> sl_id slot
     then cycle_slots E uri mechtype pw_cb reqlogin rw sid r is
     else do {
       r \<leftarrow> check_and_login E i uri mechtype pw_cb reqlogin rw;
       if r \<noteq> CKR_OK then cycle_slots E uri mechtype pw_cb reqlogin rw CK_UNAVAILABLE_INFORMATION r is
       else ret (r, Some i, is) } }"

text \<open>
  \<open>p11prov_get_session\<close>: the result is the code, the session, the slot identifier written back and the
  next identifier when the caller iterates (\<open>iter\<close>: \<open>next_slotid\<close> is not NULL).
\<close>

record gs_result =
  gs_rv :: CK_RV
  gs_session :: "addr option"
  gs_slotid :: CK_SLOT_ID
  gs_next :: CK_SLOT_ID

definition session_flags :: "bool \<Rightarrow> CK_FLAGS" where
  "session_flags rw = (if rw then DEFLT_SESSION_FLAGS OR CKF_RW_SESSION else DEFLT_SESSION_FLAGS)"

definition open_fetched :: "'e p11env \<Rightarrow> addr \<Rightarrow> CK_FLAGS \<Rightarrow> ('e world, CK_RV \<times> addr option) state" where
  "open_fetched E a flags = do {
     r \<leftarrow> session_check E (Some a) flags;
     if r \<noteq> CKR_OK \<and> r \<noteq> CKR_SESSION_CLOSED then ret (r, Some a)
     else do {
       s \<leftarrow> get_s a;
       if s_session s = CK_INVALID_HANDLE then do {
         r \<leftarrow> token_session_open E a flags;
         ret (r, Some a) }
       else ret (CKR_OK, Some a) } }"

definition open_in_pool :: "'e p11env \<Rightarrow> addr \<Rightarrow> bool \<Rightarrow> ('e world, CK_RV \<times> addr option) state" where
  "open_in_pool E p rw = do {
     let flags = session_flags rw;
     (r, x) \<leftarrow> fetch_session E p flags False;
     case x of
       None \<Rightarrow> ret (r, None)
     | Some a \<Rightarrow> open_fetched E a flags }"

text \<open>The slot with the given identifier, or the first one that passes the checks.\<close>

definition slot_with_id ::
    "'e p11env \<Rightarrow> CK_SLOT_ID \<Rightarrow> p11prov_uri option \<Rightarrow> CK_MECHANISM_TYPE \<Rightarrow> nat option \<Rightarrow> bool \<Rightarrow> bool \<Rightarrow>
     ('e world, CK_RV \<times> nat option \<times> CK_SLOT_ID \<times> CK_SLOT_ID) state" where
  "slot_with_id E slotid uri mechtype pw_cb reqlogin rw = do {
     x \<leftarrow> p11prov_get_slot_by_id slotid;
     case x of
       None \<Rightarrow> ret (CKR_SLOT_ID_INVALID, None, slotid, 0)
     | Some i \<Rightarrow> do {
         r \<leftarrow> check_and_login E i uri mechtype pw_cb reqlogin rw;
         ret (r, Some i, slotid, 0) } }"

definition next_slot ::
    "'e p11env \<Rightarrow> p11prov_slot list \<Rightarrow> CK_SLOT_ID \<Rightarrow> p11prov_uri option \<Rightarrow> CK_MECHANISM_TYPE \<Rightarrow> nat option \<Rightarrow> bool \<Rightarrow> bool \<Rightarrow>
     ('e world, CK_RV \<times> nat option \<times> CK_SLOT_ID \<times> CK_SLOT_ID) state" where
  "next_slot E slots slotid uri mechtype pw_cb reqlogin rw = do {
     (r, x, rest) \<leftarrow> cycle_slots E uri mechtype pw_cb reqlogin rw slotid CKR_CANCEL [0..<length slots];
     case x of
       Some i \<Rightarrow> ret (r, Some i, sl_id (slots ! i),
                   (case rest of [] \<Rightarrow> CK_UNAVAILABLE_INFORMATION | j # _ \<Rightarrow> sl_id (slots ! j)))
     | None \<Rightarrow> ret (r, None, slotid, CK_UNAVAILABLE_INFORMATION) }"

text \<open>The session from the pool of the chosen slot, or the error; the slots are released.\<close>

definition grant_session ::
    "'e p11env \<Rightarrow> p11prov_slot list \<Rightarrow> bool \<Rightarrow> CK_RV \<times> nat option \<times> CK_SLOT_ID \<times> CK_SLOT_ID \<Rightarrow> ('e world, gs_result) state" where
  "grant_session E slots rw chosen = (case chosen of (r, x, sid, nxt) \<Rightarrow> do {
     (r, s) \<leftarrow> (if r \<noteq> CKR_OK then ret (r, None)
                else open_in_pool E (the (sl_pool (slots ! the x))) rw);
     s \<leftarrow> (if r = CKR_OK then ret s else do { p11prov_return_session E s; ret None });
     p11prov_return_slots E;
     ret \<lparr>gs_rv = r, gs_session = s, gs_slotid = sid, gs_next = nxt\<rparr> })"

definition p11prov_get_session ::
    "'e p11env \<Rightarrow> CK_SLOT_ID \<Rightarrow> bool \<Rightarrow> p11prov_uri option \<Rightarrow> CK_MECHANISM_TYPE \<Rightarrow> nat option \<Rightarrow> bool \<Rightarrow> bool \<Rightarrow>
     ('e world, gs_result) state" where
  "p11prov_get_session E slotid iter uri mechtype pw_cb reqlogin rw = do {
     r \<leftarrow> p11prov_take_slots E;
     if r \<noteq> CKR_OK then ret \<lparr>gs_rv = r, gs_session = None, gs_slotid = slotid, gs_next = 0\<rparr>
     else do {
       slots \<leftarrow> gets slots_list;
       chosen \<leftarrow>
         (if slotid \<noteq> CK_UNAVAILABLE_INFORMATION \<and> \<not> iter
          then slot_with_id E slotid uri mechtype pw_cb reqlogin rw
          else next_slot E slots slotid uri mechtype pw_cb reqlogin rw);
       grant_session E slots rw chosen } }"

text \<open>The session an object refers to: taken, checked, and released again when it cannot be used.\<close>

definition ref_take :: "'e p11env \<Rightarrow> addr \<Rightarrow> ('e world, CK_RV) state" where
  "ref_take E a = do {
     r \<leftarrow> p11prov_mutex_lock E (LkSession a);
     s \<leftarrow> get_s a;
     r \<leftarrow> (if r \<noteq> CKR_OK then ret r
           else if s_in_use s \<or> s_is_broken s then ret CKR_CANT_LOCK
           else do { upd_s a (\<lambda>s. s\<lparr>s_in_use := True\<rparr>); ret r });
     _ \<leftarrow> p11prov_mutex_unlock E (LkSession a);
     ret r }"

definition ref_check :: "'e p11env \<Rightarrow> addr \<Rightarrow> CK_FLAGS \<Rightarrow> ('e world, CK_RV) state" where
  "ref_check E a flags = do {
     r \<leftarrow> session_check E (Some a) flags;
     if r \<noteq> CKR_OK \<and> r \<noteq> CKR_SESSION_READ_ONLY then token_session_open E a flags else ret r }"

definition ref_release :: "'e p11env \<Rightarrow> addr \<Rightarrow> ('e world, unit) state" where
  "ref_release E a = do {
     r \<leftarrow> p11prov_mutex_lock E (LkSession a);
     (if r = CKR_OK then upd_s a (\<lambda>s. s\<lparr>s_in_use := False\<rparr>) else ret ());
     _ \<leftarrow> p11prov_mutex_unlock E (LkSession a);
     ret () }"

definition try_ref :: "'e p11env \<Rightarrow> addr \<Rightarrow> bool \<Rightarrow> ('e world, bool) state" where
  "try_ref E a rw = do {
     r \<leftarrow> ref_take E a;
     if r \<noteq> CKR_OK then ret False
     else do {
       r \<leftarrow> ref_check E a (session_flags rw);
       if r = CKR_OK then ret True
       else do { ref_release E a; ret False } } }"

definition p11prov_try_session_ref ::
    "'e p11env \<Rightarrow> addr \<Rightarrow> CK_MECHANISM_TYPE \<Rightarrow> bool \<Rightarrow> bool \<Rightarrow> ('e world, CK_RV \<times> addr option) state" where
  "p11prov_try_session_ref E ob mechtype reqlogin rw = do {
     obj \<leftarrow> get_o ob;
     r \<leftarrow> (if mechtype \<noteq> CK_UNAVAILABLE_INFORMATION
           then p11prov_check_mechanism E (o_slotid obj) mechtype else ret CKR_OK);
     if r \<noteq> CKR_OK then ret (r, None)
     else do {
       taken_ref \<leftarrow> (case o_ref_session obj of None \<Rightarrow> ret False | Some a \<Rightarrow> try_ref E a rw);
       if taken_ref then ret (CKR_OK, o_ref_session obj)
       else do {
         g \<leftarrow> p11prov_get_session E (o_slotid obj) False (o_refresh_uri obj) mechtype None reqlogin rw;
         ret (gs_rv g, gs_session g) } } }"

definition p11prov_take_login_session :: "'e p11env \<Rightarrow> CK_SLOT_ID \<Rightarrow> ('e world, CK_RV \<times> addr option) state" where
  "p11prov_take_login_session E slotid = do {
     r \<leftarrow> p11prov_take_slots E;
     if r \<noteq> CKR_OK then ret (r, None)
     else do {
       x \<leftarrow> p11prov_get_slot_by_id slotid;
       slots \<leftarrow> gets slots_list;
       res \<leftarrow> (case x of
           None \<Rightarrow> ret (CKR_SLOT_ID_INVALID, None)
         | Some i \<Rightarrow> (case sl_pool (slots ! i) of
             None \<Rightarrow> ret (CKR_SLOT_ID_INVALID, None)
           | Some p \<Rightarrow> slot_login E p i None None False True));
       p11prov_return_slots E;
       ret res } }"

section \<open>Relations that functions keep\<close>

text \<open>
  \<open>keeps R m\<close>: running \<open>m\<close> relates the state before to the state after. For a preorder \<open>R\<close> that does
  not look at the environment and the held locks, \<open>keeps\<close> composes over the monad, so a function
  keeps \<open>R\<close> when the functions it calls do.
\<close>

definition keeps :: "('e world \<Rightarrow> 'e world \<Rightarrow> bool) \<Rightarrow> ('e world, 'a) state \<Rightarrow> bool" where
  "keeps R m \<longleftrightarrow> (\<forall>w. wp m (\<lambda>_ w'. R w w') w)"

lemma keepsI: "(\<And>w. wp m (\<lambda>_ w'. R w w') w) \<Longrightarrow> keeps R m"
  by (simp add: keeps_def)

lemma keepsD: "keeps R m \<Longrightarrow> wp m (\<lambda>_ w'. R w w') w"
  by (simp add: keeps_def)

locale world_preorder =
  fixes R :: "'e world \<Rightarrow> 'e world \<Rightarrow> bool"
  assumes rel_refl: "R w w"
    and rel_trans: "R w w1 \<Longrightarrow> R w1 w2 \<Longrightarrow> R w w2"
    and rel_env: "R w (w\<lparr>w_env := e\<rparr>)"
    and rel_held: "R w (w\<lparr>w_held := l\<rparr>)"
begin

lemma keeps_ret: "keeps R (ret a)"
  by (simp add: keeps_def wp_simps rel_refl)

lemma keeps_gets: "keeps R (gets f)"
  by (simp add: keeps_def wp_simps rel_refl)

lemma keeps_ecall: "keeps R (ecall f)"
  by (simp add: keeps_def wp_simps rel_env split: prod.split)

lemma keeps_modify: "(\<And>w. R w (f w)) \<Longrightarrow> keeps R (modify f)"
  by (simp add: keeps_def wp_simps)

lemma keeps_bind:
  assumes "keeps R m" and "\<And>a. keeps R (f a)"
  shows "keeps R (State_Monad.bind m f)"
proof (rule keepsI, rule wp_seq [OF keepsD [OF assms(1)]])
  fix a w w'
  assume "R w w'"
  then show "wp (f a) (\<lambda>_ w''. R w w'') w'"
    by (intro wp_mono [OF keepsD [OF assms(2)]]) (rule rel_trans)
qed

lemma keeps_if: "(b \<Longrightarrow> keeps R m) \<Longrightarrow> (\<not> b \<Longrightarrow> keeps R n) \<Longrightarrow> keeps R (if b then m else n)"
  by simp

lemma keeps_option: "(x = None \<Longrightarrow> keeps R m) \<Longrightarrow> (\<And>a. x = Some a \<Longrightarrow> keeps R (f a)) \<Longrightarrow>
    keeps R (case x of None \<Rightarrow> m | Some a \<Rightarrow> f a)"
  by (cases x) auto

lemma keeps_prod: "(\<And>a b. keeps R (f a b)) \<Longrightarrow> keeps R (case p of (a, b) \<Rightarrow> f a b)"
  by (cases p) auto

lemma keeps_sum: "(\<And>a. keeps R (f a)) \<Longrightarrow> (\<And>b. keeps R (g b)) \<Longrightarrow> keeps R (case x of Inl a \<Rightarrow> f a | Inr b \<Rightarrow> g b)"
  by (cases x) auto

lemma keeps_Let: "keeps R (f x) \<Longrightarrow> keeps R (Let x f)"
  by simp

lemma keeps_lock: "keeps R (p11prov_mutex_lock E l)"
  unfolding p11prov_mutex_lock_def by (intro keeps_bind keeps_if keeps_ret keeps_ecall keeps_modify rel_held)

lemma keeps_unlock: "keeps R (p11prov_mutex_unlock E l)"
  unfolding p11prov_mutex_unlock_def by (intro keeps_bind keeps_if keeps_ret keeps_ecall keeps_modify rel_held)

lemma keeps_take_slots: "keeps R (p11prov_take_slots E)"
  unfolding p11prov_take_slots_def by (intro keeps_bind keeps_gets keeps_option keeps_ret keeps_lock)

lemma keeps_return_slots: "keeps R (p11prov_return_slots E)"
  unfolding p11prov_return_slots_def by (intro keeps_bind keeps_unlock keeps_ret)

lemma keeps_cyclewait: "keeps R (cyclewait_with_timeout E mw d st)"
  unfolding cyclewait_with_timeout_def by (intro keeps_bind keeps_ecall keeps_option keeps_if keeps_ret)

lemma keeps_retry: "keeps R attempt \<Longrightarrow> keeps R (retry E n d attempt stop st)"
proof (induction n arbitrary: st)
  case 0
  then show ?case
    by (subst retry.simps) (auto intro!: keeps_bind keeps_if keeps_ret keeps_cyclewait keeps_prod)
next
  case (Suc n)
  then show ?case
    by (subst retry.simps) (auto intro!: keeps_bind keeps_if keeps_ret keeps_cyclewait keeps_prod)
qed

lemmas keeps_rules = keeps_ret keeps_gets keeps_ecall keeps_bind keeps_if keeps_option keeps_prod keeps_sum
  keeps_Let keeps_lock keeps_unlock keeps_take_slots keeps_return_slots keeps_retry

lemma keeps_prompt: "keeps R (p11prov_session_prompt_for_pin E info)"
  unfolding p11prov_session_prompt_for_pin_def by (intro keeps_rules)

lemma keeps_choose_pin: "keeps R (choose_pin E uri pw_cb slot)"
  unfolding choose_pin_def ask_pin_def by (intro keeps_rules keeps_prompt)

lemma keeps_check_pin_flags: "keeps R (check_pin_flags_ok E slotid)"
  unfolding check_pin_flags_ok_def by (intro keeps_rules)

lemma keeps_check_mechanism: "keeps R (p11prov_check_mechanism E slotid m)"
  unfolding p11prov_check_mechanism_def by (intro keeps_rules)

lemma keeps_check_slot: "keeps R (check_slot E i uri m rw)"
  unfolding check_slot_def by (intro keeps_rules keeps_check_mechanism)

lemma keeps_get_slot_by_id: "keeps R (p11prov_get_slot_by_id slotid)"
  unfolding p11prov_get_slot_by_id_def by (intro keeps_rules)

end

end
