(* ===== verification/P11_Access.thy ===== *)
theory P11_Access
  imports P11_Login
begin

text \<open>
  Correctness of the session interface of \<^verbatim>\<open>src/src/session.c\<close>: what \<open>p11prov_get_session\<close>,
  \<open>p11prov_try_session_ref\<close>, \<open>p11prov_take_login_session\<close>, \<open>p11prov_context_specific_login\<close> and
  \<open>p11prov_return_session\<close> do to the sessions of all slots, and how PINs are treated. The relation
  \<open>safe\<close> is kept by every function; a step relation over the five operations composes them.
\<close>

section \<open>Nobody else is affected\<close>

text \<open>
  \<open>safe A w w'\<close>: the pools keep their invariants and only grow, the slots and the context stay as
  they are but for the stored PINs, and no session that somebody else holds (in use and not in \<open>A\<close>)
  has changed.
\<close>

definition without_pins :: "p11prov_slot \<Rightarrow> p11prov_slot" where
  "without_pins s = s\<lparr>sl_bad_pin := None, sl_cached_pin := None\<rparr>"

definition in_hand :: "'e world \<Rightarrow> addr \<Rightarrow> bool" where
  "in_hand w a \<longleftrightarrow> h_live (w_sess w) a \<and> s_in_use (cell w a)"

definition safe :: "addr set \<Rightarrow> 'e world \<Rightarrow> 'e world \<Rightarrow> bool" where
  "safe A w w' \<longleftrightarrow> heap_ok (w_sess w) \<longrightarrow> heap_ok (w_sess w') \<and>
     (\<forall>q. pool_inv q w \<longrightarrow> pool_inv q w') \<and>
     (\<forall>q. \<exists>as. pcell w' q = (pcell w q)\<lparr>sp_sessions := sp_sessions (pcell w q) @ as\<rparr>) \<and>
     (\<forall>b. b \<notin> A \<longrightarrow> in_hand w b \<longrightarrow> in_hand w' b \<and> cell w' b = cell w b) \<and>
     w_ctx w' = w_ctx w \<and> map without_pins (slots_list w') = map without_pins (slots_list w) \<and>
     (w_slots w' = None \<longleftrightarrow> w_slots w = None)"

lemma pcell_same: "\<exists>as. pool = pool\<lparr>sp_sessions := sp_sessions pool @ as\<rparr>"
  by (rule exI [of _ "[]"]) simp

lemma pool_inv_unobs [simp]:
  "pool_inv q (w\<lparr>w_env := e\<rparr>) = pool_inv q w" "pool_inv q (w\<lparr>w_held := l\<rparr>) = pool_inv q w"
  by (simp_all add: pool_inv_def)

lemma slots_list_unobs [simp]:
  "slots_list (w\<lparr>w_env := e\<rparr>) = slots_list w" "slots_list (w\<lparr>w_held := l\<rparr>) = slots_list w"
  "slots_list (w\<lparr>w_sess := h\<rparr>) = slots_list w"
  by (simp_all add: slots_list_def)

lemma safe_refl [simp]: "safe A w w"
  by (simp add: safe_def pcell_same)

lemma safe_trans:
  assumes "safe A w w1" and "safe A w1 w2"
  shows "safe A w w2"
  unfolding safe_def
proof (intro impI conjI allI)
  assume ok: "heap_ok (w_sess w)"
  note 1 = assms(1) [unfolded safe_def, rule_format, OF ok]
  then have ok1: "heap_ok (w_sess w1)" by simp
  note 2 = assms(2) [unfolded safe_def, rule_format, OF ok1]
  show "\<exists>as. pcell w2 q = (pcell w q)\<lparr>sp_sessions := sp_sessions (pcell w q) @ as\<rparr>" for q
  proof -
    obtain as where as: "pcell w1 q = (pcell w q)\<lparr>sp_sessions := sp_sessions (pcell w q) @ as\<rparr>" using 1 by blast
    obtain bs where bs: "pcell w2 q = (pcell w1 q)\<lparr>sp_sessions := sp_sessions (pcell w1 q) @ bs\<rparr>" using 2 by blast
    show ?thesis by (rule exI [of _ "as @ bs"]) (simp add: as bs)
  qed
qed (use assms in \<open>auto simp: safe_def\<close>)

interpretation sf: world_preorder "safe A" for A
proof
  show "safe A w (w\<lparr>w_env := e\<rparr>)" for w :: "'a world" and e by (simp add: safe_def in_hand_def pcell_same)
  show "safe A w (w\<lparr>w_held := l\<rparr>)" for w :: "'a world" and l by (simp add: safe_def in_hand_def pcell_same)
qed (auto intro: safe_trans)

text \<open>The variant that also keeps the \<open>in_use\<close> mark of the session the function works on.\<close>

definition safe_on :: "addr \<Rightarrow> 'e world \<Rightarrow> 'e world \<Rightarrow> bool" where
  "safe_on a w w' \<longleftrightarrow> safe {a} w w' \<and> s_in_use (cell w' a) = s_in_use (cell w a) \<and>
     h_live (w_sess w') a = h_live (w_sess w) a"

interpretation so: world_preorder "safe_on a" for a
  by unfold_locales (auto simp: safe_on_def sf.rel_env sf.rel_held intro: safe_trans)

lemma safe_frame:
  assumes "sess_frame {a} w w'"
    and "s_pool (cell w' a) = s_pool (cell w a) \<and> s_slotid (cell w' a) = s_slotid (cell w a)"
  shows "safe {a} w w'"
  using assms pool_inv_frame [OF _ assms(1)]
  by (auto simp: safe_def sess_frame_def in_hand_def heap_ok_def slots_list_def intro: pcell_same)

lemma safe_on_frame: "sess_frame {a} w w' \<Longrightarrow> same_admin (cell w a) (cell w' a) \<Longrightarrow> safe_on a w w'"
  by (simp add: safe_on_def safe_frame same_admin_def sess_frame_def)

lemma keeps_upd_s:
  "(\<And>s. s_pool (f s) = s_pool s \<and> s_slotid (f s) = s_slotid s \<and> s_in_use (f s) = s_in_use s) \<Longrightarrow>
   keeps (safe_on a) (upd_s a f)"
  by (rule so.keeps_modify) (auto simp: safe_on_def sess_frame_def intro!: safe_frame)

lemma keeps_token_session_open: "keeps (safe_on a) (token_session_open E a flags)"
  by (rule keepsI, rule wp_mono [OF wp_token_session_open]) (simp add: safe_on_frame)

lemma keeps_session_check: "keeps (safe_on a) (session_check E (Some a) flags)"
  by (rule keepsI, rule wp_mono [OF wp_session_check]) (simp add: safe_on_frame)

lemma wp_return_orphan_frame:
  assumes "s_pool (cell w a) = None"
  shows "wp (p11prov_return_session E (Some a)) (\<lambda>_ w'. w_ctx w' = w_ctx w \<and> w_pools w' = w_pools w \<and>
     w_slots w' = w_slots w \<and> h_brk (w_sess w') = h_brk (w_sess w) \<and>
     (\<forall>b. b \<noteq> a \<longrightarrow> cell w' b = cell w b \<and> h_live (w_sess w') b = h_live (w_sess w) b) \<and>
     (h_live (w_sess w') a \<longrightarrow> h_live (w_sess w) a)) w"
  using assms
  by (auto simp: p11prov_return_session_def p11prov_session_set_callback_def session_free_def
       token_session_close_def wp_simps set_closed_def split: prod.split)

lemma safe_orphan:
  assumes "s_pool (cell w a) = None" and "w_ctx w' = w_ctx w" and "w_pools w' = w_pools w" and "w_slots w' = w_slots w"
    and "h_brk (w_sess w') = h_brk (w_sess w)"
    and "\<And>b. b \<noteq> a \<Longrightarrow> cell w' b = cell w b \<and> h_live (w_sess w') b = h_live (w_sess w) b"
    and "h_live (w_sess w') a \<Longrightarrow> h_live (w_sess w) a"
  shows "safe {a} w w'"
proof -
  have ok: "heap_ok (w_sess w')" if "heap_ok (w_sess w)"
    using that assms(5-7) unfolding heap_ok_def by metis
  have "pool_inv q w'" if "pool_inv q w" for q
  proof -
    have "b \<noteq> a" if "b \<in> set (sp_sessions (pcell w q))" for b
      using that \<open>pool_inv q w\<close> assms(1) by (auto simp: pool_inv_def)
    then show ?thesis using that assms(3,6) ok by (simp add: pool_inv_def)
  qed
  then show ?thesis using ok assms by (simp add: safe_def in_hand_def slots_list_def pcell_same)
qed

lemma safe_return: "keeps (safe {a}) (p11prov_return_session E (Some a))"
proof (rule keepsI)
  fix w :: "'a world"
  show "wp (p11prov_return_session E (Some a)) (\<lambda>_ w'. safe {a} w w') w"
  proof (cases "s_pool (cell w a)")
    case None
    then show ?thesis by (rule wp_mono [OF wp_return_orphan_frame]) (use None in \<open>auto intro: safe_orphan\<close>)
  next
    case (Some p)
    then show ?thesis by (intro wp_mono [OF wp_return_session_frame]) (auto intro: safe_frame)
  qed
qed

lemma keeps_upd_slot:
  assumes "\<And>s. without_pins (f s) = without_pins s"
  shows "keeps (safe_on a) (upd_slot i f)"
proof -
  have "map without_pins (xs[i := f (xs ! i)]) = map without_pins xs" for xs
    by (cases "i < length xs") (simp_all add: map_update assms list_update_same_conv list_update_beyond)
  then show ?thesis unfolding upd_slot_def
    by (intro so.keeps_modify)
      (auto simp: safe_on_def safe_def pool_inv_def in_hand_def slots_list_def pcell_same split: option.split)
qed

lemma keeps_set_bad_pin: "keeps (safe_on a) (p11prov_slot_set_bad_pin E i pin)"
  unfolding p11prov_slot_set_bad_pin_def
  by (intro so.keeps_rules keeps_upd_slot) (simp add: without_pins_def)

lemma keeps_set_cached_pin: "keeps (safe_on a) (p11prov_slot_set_cached_pin E i pin)"
  unfolding p11prov_slot_set_cached_pin_def
  by (intro so.keeps_rules keeps_upd_slot) (simp add: without_pins_def)

lemma keeps_session_ref: "keeps (safe_on a) (p11prov_session_ref (Some a))"
  unfolding p11prov_session_ref_def by (simp add: keeps_upd_s)

lemma keeps_session_deref: "keeps (safe_on a) (p11prov_session_deref (Some a))"
  unfolding p11prov_session_deref_def by (simp add: keeps_upd_s)

lemma keeps_token_login: "keeps (safe_on a) (token_login E a uri pw_cb i ut)"
  unfolding token_login_def login_result_def
  by (intro so.keeps_rules so.keeps_choose_pin so.keeps_check_pin_flags keeps_session_ref keeps_upd_s
      keeps_set_bad_pin keeps_set_cached_pin) simp

lemma keeps_login_on: "keeps (safe_on a) (login_on E a i uri pw_cb)"
  unfolding login_on_def
  by (intro so.keeps_rules keeps_session_check keeps_token_session_open keeps_token_login)

text \<open>
  \<open>obtained p w x w'\<close>: nobody else is affected, and a session that is handed out is in use, belongs
  to the pool and was in nobody's hands before.
\<close>

definition obtained :: "addr \<Rightarrow> 'e world \<Rightarrow> addr option \<Rightarrow> 'e world \<Rightarrow> bool" where
  "obtained p w x w' \<longleftrightarrow> safe {} w w' \<and> (case x of None \<Rightarrow> True
     | Some a \<Rightarrow> \<not> in_hand w a \<and> s_in_use (cell w' a) \<and> a \<in> set (sp_sessions (pcell w' p)))"

lemma safe_heap: "safe A w w' \<Longrightarrow> heap_ok (w_sess w) \<Longrightarrow> heap_ok (w_sess w')"
  by (simp add: safe_def)

lemma safe_in_hand: "safe {} w w' \<Longrightarrow> heap_ok (w_sess w) \<Longrightarrow> in_hand w a \<Longrightarrow> in_hand w' a"
  by (simp add: safe_def)

lemma safe_sessions: "safe A w w' \<Longrightarrow> heap_ok (w_sess w) \<Longrightarrow> a \<in> set (sp_sessions (pcell w p)) \<Longrightarrow> a \<in> set (sp_sessions (pcell w' p))"
proof -
  assume "safe A w w'" "heap_ok (w_sess w)" and a: "a \<in> set (sp_sessions (pcell w p))"
  then obtain as where "pcell w' p = (pcell w p)\<lparr>sp_sessions := sp_sessions (pcell w p) @ as\<rparr>"
    unfolding safe_def by blast
  then show ?thesis using a by simp
qed

lemma safe_private:
  assumes "safe {} w v" and "\<not> in_hand w a" and "safe {a} v v'"
  shows "safe {} w v'"
proof -
  have "safe {a} w v" using assms(1) by (auto simp: safe_def)
  then have "safe {a} w v'" using assms(3) by (rule safe_trans)
  then show ?thesis using assms(2) by (auto simp: safe_def)
qed

lemma safe_fetched:
  assumes "fetched p w (r, x) w'" and ok: "heap_ok (w_sess w)"
  shows "obtained p w x w'"
proof (cases x)
  case None
  then have u: "untouched w w'" "w_pools w' = w_pools w" "heap_ok (w_sess w')" using assms(1) by (auto simp: fetched_def)
  have "pool_inv q w \<Longrightarrow> pool_inv q w'" for q by (rule pool_inv_untouched [OF _ u])
  moreover have "in_hand w b \<Longrightarrow> in_hand w' b \<and> cell w' b = cell w b" for b
    using u(1) ok by (simp add: untouched_def in_hand_def heap_ok_def)
  moreover have "w_ctx w' = w_ctx w" "w_slots w' = w_slots w" using u(1) by (simp_all add: untouched_def)
  ultimately show ?thesis using None u(2,3) by (simp add: obtained_def safe_def slots_list_def pcell_same)
next
  case (Some a)
  then consider "taken p w a w'" | "grown p w a w'" using assms(1) by (auto simp: fetched_def)
  then show ?thesis
  proof cases
    case 1
    then have "safe {a} w w'" by (intro safe_frame) (auto simp: taken_def)
    then have "safe {} w w'" by (rule safe_private [rotated 2]) (use 1 in \<open>auto simp: taken_def in_hand_def\<close>)
    then show ?thesis using 1 Some by (auto simp: obtained_def taken_def in_hand_def sess_frame_def)
  next
    case 2
    have below: "h_live (w_sess w) b \<Longrightarrow> b < h_brk (w_sess w)" for b using ok by (simp add: heap_ok_def)
    have inv: "pool_inv q w \<Longrightarrow> pool_inv q w'" for q
    proof (cases "q = p")
      case True
      then show "pool_inv q w \<Longrightarrow> pool_inv q w'" using 2 by (auto intro: pool_inv_grown)
    next
      case False
      then show "pool_inv q w \<Longrightarrow> pool_inv q w'"
        using 2 below by (auto simp: pool_inv_def grown_def untouched_def)
    qed
    have "\<exists>as. pcell w' q = (pcell w q)\<lparr>sp_sessions := sp_sessions (pcell w q) @ as\<rparr>" for q
      using 2 by (cases "q = p") (auto simp: grown_def intro: pcell_same)
    then show ?thesis using 2 Some ok below inv
      by (auto simp: obtained_def safe_def grown_def untouched_def in_hand_def slots_list_def)
  qed
qed

lemma wp_obtain:
  assumes "heap_ok (w_sess w)" and "safe {} w v"
  shows "wp (fetch_session E p flags login) (\<lambda>(r, x) v'. safe {} w v' \<and> obtained p w x v' \<and> (x \<noteq> None \<longleftrightarrow> r = CKR_OK)) v"
proof -
  have ok: "heap_ok (w_sess v)" using assms(2,1) by (rule safe_heap)
  have "safe {} w v' \<and> obtained p w x v' \<and> (x \<noteq> None \<longleftrightarrow> r = CKR_OK)" if f: "fetched p v (r, x) v'" for r x v'
  proof -
    have o: "obtained p v x v'" by (rule safe_fetched [OF f ok])
    then have "safe {} w v'" unfolding obtained_def using safe_trans [OF assms(2)] by blast
    then show ?thesis using o f safe_in_hand [OF assms(2,1)]
      by (auto simp: obtained_def fetched_def split: option.splits)
  qed
  then show ?thesis by (intro wp_mono [OF wp_fetch_session [OF ok]]) auto
qed

lemma safe_unobs [simp]:
  "safe A w (w'\<lparr>w_env := e\<rparr>) = safe A w w'" "safe A w (w'\<lparr>w_held := l\<rparr>) = safe A w w'"
  "safe A (w\<lparr>w_env := e\<rparr>) w' = safe A w w'" "safe A (w\<lparr>w_held := l\<rparr>) w' = safe A w w'"
  by (simp_all add: safe_def in_hand_def)

lemma obtained_unobs [simp]:
  "obtained p w x (w'\<lparr>w_env := e\<rparr>) = obtained p w x w'" "obtained p w x (w'\<lparr>w_held := l\<rparr>) = obtained p w x w'"
  by (simp_all add: obtained_def split: option.split)

lemma obtained_None: "obtained p w None w' \<longleftrightarrow> safe {} w w'"
  by (simp add: obtained_def)

lemma obtained_on:
  assumes "obtained p w (Some a) v" and "safe_on a v v'" and "heap_ok (w_sess w)"
  shows "obtained p w (Some a) v'"
proof -
  have v: "safe {} w v" "\<not> in_hand w a" and v': "safe {a} v v'" using assms by (auto simp: obtained_def safe_on_def)
  have "a \<in> set (sp_sessions (pcell v' p))"
    using safe_sessions [OF v' safe_heap [OF v(1) assms(3)]] assms(1) by (simp add: obtained_def)
  then show ?thesis using assms(1,2) safe_private [OF v v'] by (simp add: obtained_def safe_on_def)
qed

lemma wp_keeps_on:
  assumes "keeps (safe_on a) m" and "obtained p w (Some a) v" and "heap_ok (w_sess w)"
  shows "wp m (\<lambda>_. obtained p w (Some a)) v"
  by (rule wp_mono [OF keepsD [OF assms(1)]]) (rule obtained_on [OF assms(2) _ assms(3)])

lemma wp_give_back:
  assumes "obtained p w (Some a) v"
  shows "wp (p11prov_return_session E (Some a)) (\<lambda>_. safe {} w) v"
  by (rule wp_mono [OF keepsD [OF safe_return]])
    (use assms in \<open>auto simp: obtained_def intro: safe_private\<close>)

lemma keeps_login_undo: "keeps (safe_on a) (login_undo a)"
  unfolding login_undo_def by (intro so.keeps_rules keeps_session_deref keeps_upd_s) simp

text \<open>A session, when there is one, comes with \<open>CKR_OK\<close>.\<close>

definition logged :: "addr \<Rightarrow> 'e world \<Rightarrow> CK_RV \<times> addr option \<Rightarrow> 'e world \<Rightarrow> bool" where
  "logged p w rx w' \<longleftrightarrow> obtained p w (snd rx) w' \<and> (snd rx \<noteq> None \<longrightarrow> fst rx = CKR_OK)"

lemma wp_login_finish:
  assumes ok: "heap_ok (w_sess w)" and o: "obtained p w (Some a) v"
  shows "wp (login_finish E a i uri pw_cb want) (logged p w) v"
proof -
  have undo: "wp (if b then ret () else login_undo a) (\<lambda>_. obtained p w (Some a)) v" if "obtained p w (Some a) v" for b v
    by (rule wp_keeps_on [OF _ that ok]) (intro so.keeps_if so.keeps_ret keeps_login_undo)
  have give: "wp (do { (if b then ret () else login_undo a); p11prov_return_session E (Some a); ret (r, None) })
     (logged p w) v" if "obtained p w (Some a) v" for b r v
    by (rule wp_seq [OF undo [OF that]], erule wp_seq [OF wp_give_back]) (simp add: wp_return logged_def obtained_None)
  show ?thesis
    unfolding login_finish_def
    by (rule wp_seq [OF wp_keeps_on [OF keeps_login_on o ok]]) (use give in \<open>auto simp: wp_return logged_def\<close>)
qed

lemma wp_slot_login:
  assumes ok: "heap_ok (w_sess w)" and "safe {} w v"
  shows "wp (slot_login E p i uri pw_cb reqlogin want) (logged p w) v"
proof -
  let ?P = "\<lambda>rx v'. obtained p w (snd rx) v' \<and> (snd rx \<noteq> None \<longleftrightarrow> fst rx = CKR_OK)"
  have again: "wp (if b then retry E WAIT_FUEL LOCK_SLEEP (fetch_session E p DEFLT_SESSION_FLAGS True) (\<lambda>y. fst y = CKR_OK) 0
      else ret (r, x)) (\<lambda>rx v'. safe {} w v' \<and> ?P rx v') v"
    if "safe {} w v \<and> ?P (r, x) v" for b r x v
  proof (cases b)
    case True
    have "wp (retry E WAIT_FUEL LOCK_SLEEP (fetch_session E p DEFLT_SESSION_FLAGS True) (\<lambda>y. fst y = CKR_OK) 0)
      (\<lambda>rx v'. safe {} w v' \<and> ?P rx v') v"
      by (rule wp_retry) (use that in \<open>auto intro!: wp_mono [OF wp_obtain [OF ok]]\<close>)
    then show ?thesis using True by simp
  qed (use that in \<open>simp add: wp_simps\<close>)
  have fin: "wp (case x of None \<Rightarrow> ret (r, None) | Some a \<Rightarrow> login_finish E a i uri pw_cb want) (logged p w) v"
    if "?P (r, x) v" for r x v
    using that wp_login_finish [OF ok] by (cases x) (auto simp: wp_return logged_def)
  have rest: "wp (do { (r, x) \<leftarrow> (if r \<noteq> CKR_OK \<and> reqlogin
         then retry E WAIT_FUEL LOCK_SLEEP (fetch_session E p DEFLT_SESSION_FLAGS True) (\<lambda>y. fst y = CKR_OK) 0 else ret (r, x));
       case x of None \<Rightarrow> ret (r, None) | Some a \<Rightarrow> login_finish E a i uri pw_cb want }) (logged p w) v"
    if "safe {} w v \<and> ?P (r, x) v" for r x v
    by (rule wp_seq [OF again [OF that]], clarify, rule fin, simp)
  show ?thesis
    unfolding slot_login_def
    by (rule wp_seq [OF wp_obtain [OF assms]], clarify, rule wp_ifI)
      (simp add: wp_return logged_def obtained_None, rule rest, simp)
qed

text \<open>
  What the search promises of the slot it chose: a present, initialised and, for a read-write session,
  writable token that matches the URI, on a slot that offers the mechanism.
\<close>

definition slot_fits :: "p11prov_uri option \<Rightarrow> CK_MECHANISM_TYPE \<Rightarrow> bool \<Rightarrow> p11prov_slot list \<Rightarrow> nat \<Rightarrow> bool" where
  "slot_fits uri m rw slots i \<longleftrightarrow> (let s = slots ! i in
     has_flag (si_flags (sl_slot s)) CKF_TOKEN_PRESENT \<and> has_flag (ti_flags (sl_token s)) CKF_TOKEN_INITIALIZED \<and>
     (rw \<longrightarrow> \<not> has_flag (ti_flags (sl_token s)) CKF_WRITE_PROTECTED) \<and>
     (case uri of None \<Rightarrow> True | Some u \<Rightarrow> p11prov_uri_match_token u (sl_id s) (sl_slot s) (sl_token s) = CKR_OK) \<and>
     (m = CK_UNAVAILABLE_INFORMATION \<or> (\<exists>t \<in> set slots. sl_id t = sl_id s \<and> m \<in> set (slot_mechs t))))"

lemma without_pins_fields [simp]:
  "sl_id (without_pins s) = sl_id s" "sl_slot (without_pins s) = sl_slot s" "sl_token (without_pins s) = sl_token s"
  "slot_mechs (without_pins s) = slot_mechs s" "sl_pool (without_pins s) = sl_pool s"
  by (simp_all add: without_pins_def slot_mechs_def split: option.split)

lemma slot_fits_pins:
  assumes "map without_pins xs = map without_pins ys" and "i < length xs"
  shows "slot_fits uri m rw xs i = slot_fits uri m rw ys i"
proof -
  have "slot_fits uri m rw zs i = slot_fits uri m rw (map without_pins zs) i" if "i < length zs" for zs
    using that by (simp add: slot_fits_def Let_def split: option.split)
  then show ?thesis using assms by (metis length_map)
qed

lemma safe_slots:
  assumes "safe A w w'" and "heap_ok (w_sess w)"
  shows "map without_pins (slots_list w') = map without_pins (slots_list w)"
    and "length (slots_list w') = length (slots_list w)"
    and "i < length (slots_list w) \<Longrightarrow> sl_id (slots_list w' ! i) = sl_id (slots_list w ! i) \<and>
       sl_pool (slots_list w' ! i) = sl_pool (slots_list w ! i)"
proof -
  show m: "map without_pins (slots_list w') = map without_pins (slots_list w)" using assms by (simp add: safe_def)
  show l: "length (slots_list w') = length (slots_list w)" using m by (metis length_map)
  assume i: "i < length (slots_list w)"
  have "without_pins (slots_list w' ! i) = without_pins (slots_list w ! i)" using m i l by (metis nth_map)
  then show "sl_id (slots_list w' ! i) = sl_id (slots_list w ! i) \<and> sl_pool (slots_list w' ! i) = sl_pool (slots_list w ! i)"
    by (metis without_pins_fields(1,5))
qed

lemma wp_check_slot:
  "wp (check_slot E i uri m rw) (\<lambda>r w'. safe {} w w' \<and> (r = CKR_OK \<longrightarrow> slot_fits uri m rw (slots_list w) i)) w"
  unfolding wp_conj
proof (rule conjI [OF keepsD [OF sf.keeps_check_slot]])
  show "wp (check_slot E i uri m rw) (\<lambda>r w'. r = CKR_OK \<longrightarrow> slot_fits uri m rw (slots_list w) i) w"
    by (auto simp: check_slot_def p11prov_check_mechanism_def slot_fits_def Let_def wp_simps mech_loop_iff
        split: prod.split option.split)
qed

lemma wp_check_and_login:
  assumes "heap_ok (w_sess w)" and "safe {} w v" and "i < length (slots_list w)"
  shows "wp (check_and_login E i uri m pw_cb reqlogin rw)
    (\<lambda>r w'. safe {} w w' \<and> (r = CKR_OK \<longrightarrow> slot_fits uri m rw (slots_list w) i)) v"
proof -
  have fits: "slot_fits uri m rw (slots_list v) i = slot_fits uri m rw (slots_list w) i"
    using safe_slots [OF assms(2,1)] assms(3) by (intro slot_fits_pins) auto
  have login: "wp (slot_login E p i uri pw_cb b False) (\<lambda>rx. wp (case rx of (r, _) \<Rightarrow> ret r) Q) v"
    if "safe {} w v" and "\<And>r w'. safe {} w w' \<Longrightarrow> Q r w'" for p b Q v
    by (rule wp_mono [OF wp_slot_login [OF assms(1) that(1)]])
      (auto simp: wp_return logged_def obtained_def that(2) split: prod.split)
  show ?thesis
    unfolding check_and_login_def
  proof (rule wp_seq [OF wp_check_slot])
    fix r v'
    assume v': "safe {} v v' \<and> (r = CKR_OK \<longrightarrow> slot_fits uri m rw (slots_list v) i)"
    then have "safe {} w v'" using assms(2) by (blast intro: safe_trans)
    then show "wp (if r \<noteq> CKR_OK then ret r else do {
       slot \<leftarrow> get_slot i;
       ctx \<leftarrow> gets w_ctx;
       if reqlogin \<and> \<not> check_skip_login ctx slot \<or> cx_login_behavior ctx = PUBKEY_LOGIN_ALWAYS then do {
         (r, _) \<leftarrow> slot_login E (the (sl_pool slot)) i uri pw_cb reqlogin False;
         ret r }
       else ret CKR_OK }) (\<lambda>r w'. safe {} w w' \<and> (r = CKR_OK \<longrightarrow> slot_fits uri m rw (slots_list w) i)) v'"
      using v' fits by (auto simp: wp_bind wp_gets wp_return intro!: wp_ifI login)
  qed
qed

lemma wp_cycle_slots:
  assumes ok: "heap_ok (w_sess w)" and "safe {} w v" and "\<forall>i \<in> set is. i < length (slots_list w)"
  shows "wp (cycle_slots E uri m pw_cb reqlogin rw sid r is) (\<lambda>(r', x, rest) w'. safe {} w w' \<and>
     (case x of None \<Rightarrow> r \<noteq> CKR_OK \<longrightarrow> r' \<noteq> CKR_OK
      | Some i \<Rightarrow> r' = CKR_OK \<and> slot_fits uri m rw (slots_list w) i \<and> (\<exists>pre. is = pre @ i # rest))) v"
  using assms(2,3)
proof (induction "is" arbitrary: r sid v)
  case Nil
  then show ?case by (simp add: wp_simps)
next
  case (Cons i "is")
  have i: "i < length (slots_list w)" and "is": "\<forall>i \<in> set is. i < length (slots_list w)" using Cons.prems(2) by auto
  let ?Q = "\<lambda>r (r', x, rest) w'. safe {} w w' \<and> (case x of None \<Rightarrow> r \<noteq> CKR_OK \<longrightarrow> r' \<noteq> CKR_OK
      | Some j \<Rightarrow> r' = CKR_OK \<and> slot_fits uri m rw (slots_list w) j \<and> (\<exists>pre. i # is = pre @ j # rest))"
  have rec: "wp (cycle_slots E uri m pw_cb reqlogin rw sid r is) (?Q r) v" if "safe {} w v" for sid r v
    by (rule wp_mono [OF Cons.IH [OF that "is"]]) (force split: option.splits)
  have this_slot: "wp (do { r \<leftarrow> check_and_login E i uri m pw_cb reqlogin rw;
       if r \<noteq> CKR_OK then cycle_slots E uri m pw_cb reqlogin rw CK_UNAVAILABLE_INFORMATION r is
       else ret (r, Some i, is) }) (?Q r) v"
  proof (rule wp_seq [OF wp_check_and_login [OF ok Cons.prems(1) i]], rule wp_ifI)
    fix r1 v1
    assume v1: "safe {} w v1 \<and> (r1 = CKR_OK \<longrightarrow> slot_fits uri m rw (slots_list w) i)"
    then show "wp (cycle_slots E uri m pw_cb reqlogin rw CK_UNAVAILABLE_INFORMATION r1 is) (?Q r) v1" if "r1 \<noteq> CKR_OK"
      using that by (intro wp_mono [OF rec]) (auto split: option.splits)
    show "wp (ret (r1, Some i, is)) (?Q r) v1" if "\<not> r1 \<noteq> CKR_OK"
      using that v1 by (simp add: wp_return)
  qed
  show ?case
    unfolding cycle_slots.simps wp_bind [of "get_slot i"] wp_gets
    by (intro wp_ifI rec this_slot Cons.prems(1))
qed

lemma wp_open_in_pool:
  assumes ok: "heap_ok (w_sess w)" and "safe {} w v"
  shows "wp (open_in_pool E p rw) (\<lambda>(r, x) w'. obtained p w x w' \<and>
     (r = CKR_OK \<longrightarrow> (\<exists>a. x = Some a \<and> (opens_valid E \<longrightarrow> s_session (cell w' a) \<noteq> CK_INVALID_HANDLE)))) v"
proof -
  let ?Q = "\<lambda>(r, x) w'. obtained p w x w' \<and>
     (r = CKR_OK \<longrightarrow> (\<exists>a. x = Some a \<and> (opens_valid E \<longrightarrow> s_session (cell w' a) \<noteq> CK_INVALID_HANDLE)))"
  have op: "wp (do { r \<leftarrow> token_session_open E a flags; ret (r, Some a) }) ?Q v" if "obtained p w (Some a) v" for a flags v
    by (rule wp_seq [OF wp_token_session_open])
      (auto simp: wp_return intro: obtained_on [OF that _ ok] safe_on_frame)
  have chk: "wp (open_fetched E a flags) ?Q v" if "obtained p w (Some a) v" for a flags v
    unfolding open_fetched_def
    by (rule wp_seq [OF wp_keeps_on [OF keeps_session_check that ok]])
      (use op in \<open>auto simp: wp_return wp_bind wp_gets intro!: wp_ifI\<close>)
  show ?thesis
    unfolding open_in_pool_def Let_def
    by (rule wp_seq [OF wp_obtain [OF assms]]) (use chk in \<open>auto simp: wp_return split: option.split\<close>)
qed

text \<open>
  The result of \<open>p11prov_get_session\<close>, as a contract: what it promises of the slot and of the session.
\<close>

definition session_granted ::
    "'e p11env \<Rightarrow> p11prov_uri option \<Rightarrow> CK_MECHANISM_TYPE \<Rightarrow> bool \<Rightarrow> 'e world \<Rightarrow> gs_result \<Rightarrow> 'e world \<Rightarrow> bool" where
  "session_granted E uri m rw w g w' \<longleftrightarrow> safe {} w w' \<and>
     (case gs_session g of
        None \<Rightarrow> gs_rv g \<noteq> CKR_OK
      | Some a \<Rightarrow> gs_rv g = CKR_OK \<and> \<not> in_hand w a \<and> s_in_use (cell w' a) \<and>
          (opens_valid E \<longrightarrow> s_session (cell w' a) \<noteq> CK_INVALID_HANDLE) \<and>
          (\<exists>i < length (slots_list w). sl_id (slots_list w ! i) = gs_slotid g \<and> slot_fits uri m rw (slots_list w) i \<and>
             a \<in> set (sp_sessions (pcell w' (the (sl_pool (slots_list w ! i)))))))"

definition slot_chosen ::
    "p11prov_uri option \<Rightarrow> CK_MECHANISM_TYPE \<Rightarrow> bool \<Rightarrow> 'e world \<Rightarrow> CK_RV \<times> nat option \<times> CK_SLOT_ID \<times> CK_SLOT_ID \<Rightarrow> 'e world \<Rightarrow> bool" where
  "slot_chosen uri m rw w res w' \<longleftrightarrow> (case res of (r, x, sid, nxt) \<Rightarrow> safe {} w w' \<and>
     (r = CKR_OK \<longrightarrow> (\<exists>i < length (slots_list w). x = Some i \<and>
       sid = sl_id (slots_list w ! i) \<and> slot_fits uri m rw (slots_list w) i)))"

lemma wp_slot_with_id:
  assumes ok: "heap_ok (w_sess w)" and "safe {} w v"
  shows "wp (slot_with_id E slotid uri m pw_cb reqlogin rw) (slot_chosen uri m rw w) v"
proof -
  have one: "wp (do { r \<leftarrow> check_and_login E i uri m pw_cb reqlogin rw; ret (r, Some i, slotid, 0) }) (slot_chosen uri m rw w) v"
    if "index_of (\<lambda>s. sl_id s = slotid) (slots_list v) = Some i" for i
  proof -
    have i: "i < length (slots_list w)" "sl_id (slots_list w ! i) = slotid"
      using that safe_slots [OF assms(2) ok] by (auto simp: index_of_Some)
    show ?thesis
      by (rule wp_seq [OF wp_check_and_login [OF ok assms(2) i(1)]]) (use i in \<open>auto simp: wp_return slot_chosen_def\<close>)
  qed
  show ?thesis
    unfolding slot_with_id_def p11prov_get_slot_by_id_def
  proof (rule wp_seq [where P = "\<lambda>x v'. index_of (\<lambda>s. sl_id s = slotid) (slots_list v) = x \<and> v' = v"])
    fix x v'
    assume "index_of (\<lambda>s. sl_id s = slotid) (slots_list v) = x \<and> v' = v"
    then show "wp (case x of None \<Rightarrow> ret (CKR_SLOT_ID_INVALID, None, slotid, 0)
       | Some i \<Rightarrow> do { r \<leftarrow> check_and_login E i uri m pw_cb reqlogin rw; ret (r, Some i, slotid, 0) }) (slot_chosen uri m rw w) v'"
      using one assms(2) by (cases x) (auto simp: wp_return slot_chosen_def)
  qed (simp add: wp_gets)
qed

lemma wp_next_slot:
  assumes "heap_ok (w_sess w)" and "safe {} w v"
  shows "wp (next_slot E (slots_list w) slotid uri m pw_cb reqlogin rw) (slot_chosen uri m rw w) v"
  unfolding next_slot_def
proof (rule wp_seq [OF wp_cycle_slots [OF assms]], simp, clarify)
  fix r x rest v1
  assume 1: "safe {} w v1" "case x of None \<Rightarrow> CKR_CANCEL \<noteq> CKR_OK \<longrightarrow> r \<noteq> CKR_OK
    | Some i \<Rightarrow> r = CKR_OK \<and> slot_fits uri m rw (slots_list w) i \<and> (\<exists>pre. [0..<length (slots_list w)] = pre @ i # rest)"
  have "i < n" if "[0..<n] = pre @ i # rest" for i n pre
  proof -
    have "i \<in> set [0..<n]" unfolding that by simp
    then show ?thesis by simp
  qed
  then show "wp (case x of None \<Rightarrow> ret (r, None, slotid, CK_UNAVAILABLE_INFORMATION)
     | Some i \<Rightarrow> ret (r, Some i, sl_id (slots_list w ! i),
          (case rest of [] \<Rightarrow> CK_UNAVAILABLE_INFORMATION | j # _ \<Rightarrow> sl_id (slots_list w ! j)))) (slot_chosen uri m rw w) v1"
    using 1 by (cases x) (auto simp: wp_return slot_chosen_def)
qed

lemma wp_release_result:
  assumes "obtained p w x v"
    and "r = CKR_OK \<Longrightarrow> \<exists>a. x = Some a \<and> (opens_valid E \<longrightarrow> s_session (cell v a) \<noteq> CK_INVALID_HANDLE)"
    and "r = CKR_OK \<Longrightarrow> \<exists>i < length (slots_list w). sl_id (slots_list w ! i) = sid \<and>
          slot_fits uri m rw (slots_list w) i \<and> p = the (sl_pool (slots_list w ! i))"
  shows "wp (do { s \<leftarrow> (if r = CKR_OK then ret x else do { p11prov_return_session E x; ret None });
        p11prov_return_slots E;
        ret \<lparr>gs_rv = r, gs_session = s, gs_slotid = sid, gs_next = nxt\<rparr> }) (session_granted E uri m rw w) v"
proof (cases "r = CKR_OK")
  case True
  then show ?thesis using assms
    by (auto simp: wp_simps session_granted_def obtained_def split: prod.split)
next
  case False
  have "wp (p11prov_return_session E x) (\<lambda>_. safe {} w) v"
    using assms(1) wp_give_back [of p w _ v] by (cases x) (auto simp: p11prov_return_session_def wp_return obtained_def)
  then show ?thesis using False
    by (simp add: wp_bind) (erule wp_mono, auto simp: wp_simps session_granted_def split: prod.split)
qed

lemma wp_grant_session:
  assumes ok: "heap_ok (w_sess w)" and "slot_chosen uri m rw w chosen v"
  shows "wp (grant_session E (slots_list w) rw chosen) (session_granted E uri m rw w) v"
proof -
  obtain r x sid nxt where c: "chosen = (r, x, sid, nxt)" by (cases chosen)
  have sv: "safe {} w v" and ch: "r = CKR_OK \<Longrightarrow> \<exists>i < length (slots_list w). x = Some i \<and>
       sid = sl_id (slots_list w ! i) \<and> slot_fits uri m rw (slots_list w) i"
    using assms(2) by (auto simp: c slot_chosen_def)
  let ?p = "the (sl_pool (slots_list w ! the x))"
  have "wp (if r \<noteq> CKR_OK then ret (r, None) else open_in_pool E ?p rw)
     (\<lambda>(r', x) w'. (r' = CKR_OK \<longrightarrow> r = CKR_OK) \<and> obtained ?p w x w' \<and>
       (r' = CKR_OK \<longrightarrow> (\<exists>a. x = Some a \<and> (opens_valid E \<longrightarrow> s_session (cell w' a) \<noteq> CK_INVALID_HANDLE)))) v"
    by (rule wp_ifI) (auto simp: wp_return obtained_None sv intro!: wp_mono [OF wp_open_in_pool [OF ok sv]])
  then show ?thesis
    unfolding grant_session_def c prod.case
    by (rule wp_seq, clarify) (rule wp_release_result [where p = ?p], auto dest!: ch)
qed

lemma wp_get_session:
  assumes ok: "heap_ok (w_sess w)"
  shows "wp (p11prov_get_session E slotid iter uri m pw_cb reqlogin rw) (session_granted E uri m rw w) w"
proof -
  have lock: "wp (p11prov_take_slots E) (\<lambda>r v'. safe {} w v' \<and> slots_list v' = slots_list w) w"
    by (auto simp: wp_simps split: option.split prod.split)
  have choose: "wp (if b then slot_with_id E slotid uri m pw_cb reqlogin rw
      else next_slot E (slots_list w) slotid uri m pw_cb reqlogin rw) (slot_chosen uri m rw w) v" if "safe {} w v" for b v
    by (intro wp_ifI wp_slot_with_id wp_next_slot ok that)
  show ?thesis
    unfolding p11prov_get_session_def
  proof (rule wp_seq [OF lock], rule wp_ifI)
    fix r v
    assume v: "safe {} w v \<and> slots_list v = slots_list w"
    then show "wp (ret \<lparr>gs_rv = r, gs_session = None, gs_slotid = slotid, gs_next = 0\<rparr>) (session_granted E uri m rw w) v" if "r \<noteq> CKR_OK"
      using that by (simp add: wp_return session_granted_def)
    show "wp (do { slots \<leftarrow> gets slots_list;
       chosen \<leftarrow> (if slotid \<noteq> CK_UNAVAILABLE_INFORMATION \<and> \<not> iter
          then slot_with_id E slotid uri m pw_cb reqlogin rw
          else next_slot E slots slotid uri m pw_cb reqlogin rw);
       grant_session E slots rw chosen }) (session_granted E uri m rw w) v"
      unfolding wp_bind [of "gets slots_list"] wp_gets conjunct2 [OF v]
      by (rule wp_seq [OF choose [OF conjunct1 [OF v]] wp_grant_session [OF ok]])
  qed
qed

lemma wp_ref_take:
  "wp (ref_take E a) (\<lambda>r w'. safe {a} w w' \<and> h_live (w_sess w') a = h_live (w_sess w) a \<and>
     (if r = CKR_OK then \<not> in_hand w a \<and> s_in_use (cell w' a) else safe {} w w')) w"
  by (auto simp: ref_take_def wp_simps in_hand_def intro!: safe_frame split: prod.split) (auto simp: sess_frame_def)

lemma keeps_ref_check: "keeps (safe_on a) (ref_check E a flags)"
  unfolding ref_check_def by (intro so.keeps_rules keeps_session_check keeps_token_session_open)

lemma keeps_ref_release: "keeps (safe {a}) (ref_release E a)"
  unfolding ref_release_def
  by (intro sf.keeps_rules sf.keeps_modify safe_frame) (simp_all add: sess_frame_def)

lemma wp_try_ref:
  "wp (try_ref E a rw) (\<lambda>b w'. safe {} w w' \<and> (b \<longrightarrow> \<not> in_hand w a \<and> (h_live (w_sess w) a \<longrightarrow> in_hand w' a))) w"
  unfolding try_ref_def
proof (rule wp_seq [OF wp_ref_take], rule wp_ifI)
  let ?Q = "\<lambda>b w'. safe {} w w' \<and> (b \<longrightarrow> \<not> in_hand w a \<and> (h_live (w_sess w) a \<longrightarrow> in_hand w' a))"
  fix r v
  assume v: "safe {a} w v \<and> h_live (w_sess v) a = h_live (w_sess w) a \<and> (if r = CKR_OK then \<not> in_hand w a \<and> s_in_use (cell v a) else safe {} w v)"
  then show "wp (ret False) ?Q v" if "r \<noteq> CKR_OK" using that by (simp add: wp_return)
  have priv: "safe {a} v v' \<Longrightarrow> safe {} w v'" if "\<not> r \<noteq> CKR_OK" for v'
    using v that safe_private [OF safe_refl, of w a v'] by (auto intro: safe_trans)
  have rel: "wp (do { ref_release E a; ret False }) ?Q v'" if "safe {a} v v'" "\<not> r \<noteq> CKR_OK" for v'
    by (rule wp_seq [OF keepsD [OF keeps_ref_release]])
      (use priv [OF that(2) safe_trans [OF that(1)]] in \<open>simp add: wp_return\<close>)
  show "wp (do { r \<leftarrow> ref_check E a (session_flags rw); if r = CKR_OK then ret True else do { ref_release E a; ret False } }) ?Q v"
    if "\<not> r \<noteq> CKR_OK"
    by (rule wp_seq [OF keepsD [OF keeps_ref_check]])
      (use v that priv rel in \<open>auto simp: wp_return safe_on_def in_hand_def intro!: wp_ifI\<close>)
qed

definition api_inv :: "'e world \<Rightarrow> bool" where
  "api_inv w \<longleftrightarrow> heap_ok (w_sess w) \<and> (\<forall>s \<in> set (slots_list w). sl_pool s \<noteq> None \<and> pool_inv (the (sl_pool s)) w)"

lemma api_inv_safe:
  assumes "api_inv w" and "safe A w w'"
  shows "api_inv w'"
proof -
  have ok: "heap_ok (w_sess w)" using assms(1) by (simp add: api_inv_def)
  have "sl_pool s \<noteq> None \<and> pool_inv (the (sl_pool s)) w'" if s: "s \<in> set (slots_list w')" for s
  proof -
    obtain i where i: "i < length (slots_list w')" "s = slots_list w' ! i" using s by (metis in_set_conv_nth)
    then have "slots_list w ! i \<in> set (slots_list w)" "sl_pool s = sl_pool (slots_list w ! i)"
      using safe_slots [OF assms(2) ok] by auto
    then show ?thesis using assms ok by (auto simp: api_inv_def safe_def)
  qed
  then show ?thesis using assms(2) ok by (simp add: api_inv_def safe_def)
qed

text \<open>A session that was just handed out.\<close>

definition handed :: "'e world \<Rightarrow> addr option \<Rightarrow> 'e world \<Rightarrow> bool" where
  "handed w x w' \<longleftrightarrow> safe {} w w' \<and> (case x of None \<Rightarrow> True | Some a \<Rightarrow> \<not> in_hand w a \<and> in_hand w' a)"

lemma in_hand_unobs [simp]:
  "in_hand (w\<lparr>w_env := e\<rparr>) a = in_hand w a" "in_hand (w\<lparr>w_held := l\<rparr>) a = in_hand w a"
  by (simp_all add: in_hand_def)

lemma handed_unobs [simp]:
  "handed w x (w'\<lparr>w_env := e\<rparr>) = handed w x w'" "handed w x (w'\<lparr>w_held := l\<rparr>) = handed w x w'"
  by (simp_all add: handed_def split: option.split)

lemma handed_later: "safe {} w v \<Longrightarrow> heap_ok (w_sess w) \<Longrightarrow> handed v x w' \<Longrightarrow> handed w x w'"
  by (auto simp: handed_def split: option.splits intro: safe_trans dest: safe_in_hand)

lemma handed_None [simp]: "handed w None w' = safe {} w w'"
  by (simp add: handed_def)

lemma handed_pool:
  assumes "api_inv w" and "safe {} w w'" and "i < length (slots_list w)"
    and "a \<in> set (sp_sessions (pcell w' (the (sl_pool (slots_list w ! i)))))" and "s_in_use (cell w' a)"
  shows "in_hand w' a"
proof -
  have "pool_inv (the (sl_pool (slots_list w ! i))) w'"
    using assms(1-3) by (auto simp: api_inv_def safe_def)
  then show ?thesis using assms(4,5) by (simp add: in_hand_def pool_inv_def)
qed

lemma wp_get_session_handed:
  assumes "api_inv w"
  shows "wp (p11prov_get_session E slotid iter uri m pw_cb reqlogin rw) (\<lambda>g. handed w (gs_session g)) w"
  by (rule wp_mono [OF wp_get_session])
    (use assms in \<open>auto simp: session_granted_def handed_def api_inv_def [of w] split: option.splits
       intro: handed_pool [OF assms]\<close>)

lemma wp_take_login_handed:
  assumes inv: "api_inv w"
  shows "wp (p11prov_take_login_session E slotid) (\<lambda>(_, x). handed w x) w"
proof -
  have ok: "heap_ok (w_sess w)" using inv by (simp add: api_inv_def)
  have ret: "wp (p11prov_return_slots E) (\<lambda>_. handed w x) v" if "handed w x v" for x v
    using that by (auto simp: wp_simps split: prod.split)
  have login: "wp (slot_login E p i None None False True) (\<lambda>res. wp (p11prov_return_slots E) (\<lambda>_. case res of (_, x) \<Rightarrow> handed w x)) v"
    if "safe {} w v" and j: "j < length (slots_list w)" and p: "sl_pool (slots_list w ! j) = Some p" for p i j v
  proof (rule wp_mono [OF wp_slot_login [OF ok that(1)]])
    fix res v'
    assume "logged p w res v'"
    then have "handed w (snd res) v'" using handed_pool [OF inv _ j, of v'] p
      by (auto simp: logged_def handed_def obtained_def split: option.split)
    then show "wp (p11prov_return_slots E) (\<lambda>_. case res of (_, x) \<Rightarrow> handed w x) v'" using ret by (simp add: case_prod_beta)
  qed
  show ?thesis
    unfolding p11prov_take_login_session_def p11prov_get_slot_by_id_def
    by (auto simp: wp_bind wp_gets wp_take_slots wp_mutex_lock wp_if wp_return wp_case_option
        index_of_Some split: option.split prod.split intro!: login ret handed_None)
qed

lemma wp_try_session_handed:
  assumes inv: "api_inv w" and live: "\<And>a. o_ref_session (h_cells (w_objs w) ob) = Some a \<Longrightarrow> h_live (w_sess w) a"
  shows "wp (p11prov_try_session_ref E ob m reqlogin rw) (\<lambda>(_, x). handed w x) w"
proof -
  have ok: "heap_ok (w_sess w)" using inv by (simp add: api_inv_def)
  let ?obj = "h_cells (w_objs w) ob"
  let ?get = "do { g \<leftarrow> p11prov_get_session E (o_slotid ?obj) False (o_refresh_uri ?obj) m None reqlogin rw;
         ret (gs_rv g, gs_session g) }"
  have get: "wp ?get (\<lambda>(_, x). handed w x) v" if "safe {} w v" for v
    by (rule wp_seq [OF wp_get_session_handed [OF api_inv_safe [OF inv that]]])
      (auto simp: wp_return intro: handed_later [OF that ok])
  have ref: "wp (case o_ref_session ?obj of None \<Rightarrow> ret False | Some a \<Rightarrow> try_ref E a rw)
      (\<lambda>b w'. safe {} w w' \<and> (b \<longrightarrow> handed w (o_ref_session ?obj) w')) v"
    if "safe {} w v" and "w_sess v = w_sess w" for v
  proof (cases "o_ref_session ?obj")
    case (Some a)
    have same: "in_hand v = in_hand w" using that(2) by (simp add: in_hand_def fun_eq_iff)
    show ?thesis unfolding Some option.case
      by (rule wp_mono [OF wp_try_ref])
        (use that live [OF Some] in \<open>auto simp: handed_def same intro: safe_trans\<close>)
  qed (use that in \<open>simp add: wp_return\<close>)
  have tail: "wp (do { taken_ref \<leftarrow> (case o_ref_session ?obj of None \<Rightarrow> ret False | Some a \<Rightarrow> try_ref E a rw);
       if taken_ref then ret (CKR_OK, o_ref_session ?obj) else ?get }) (\<lambda>(_, x). handed w x) v"
    if "safe {} w v" and "w_sess v = w_sess w" for v
    by (rule wp_seq [OF ref [OF that]]) (use get in \<open>auto simp: wp_return intro!: wp_ifI\<close>)
  have mech: "wp (if b then p11prov_check_mechanism E s m else ret r) (\<lambda>_ v. safe {} w v \<and> w_sess v = w_sess w) w" for b s r
    by (auto simp: p11prov_check_mechanism_def wp_simps split: option.split prod.split)
  show ?thesis
    unfolding p11prov_try_session_ref_def wp_bind [of "get_o ob"] wp_gets
    by (rule wp_seq [OF mech], rule wp_ifI) (use tail in \<open>auto simp: wp_return\<close>)
qed

lemma keeps_context_login: "keeps (safe_on a) (p11prov_context_specific_login E a uri pw_cb)"
  unfolding p11prov_context_specific_login_def
  by (intro so.keeps_rules so.keeps_get_slot_by_id keeps_token_login)

section \<open>The session interface as a whole\<close>

text \<open>
  The operations the rest of the provider uses, as steps of one system: the state is the world
  and the list of the sessions that are held, over all the slots and their pools.
\<close>

inductive api_step :: "'e p11env \<Rightarrow> 'e world \<times> addr list \<Rightarrow> 'e world \<times> addr list \<Rightarrow> bool" for E where
  get: "run_state (p11prov_get_session E slotid iter uri m pw_cb reqlogin rw) w = (g, w') \<Longrightarrow>
    api_step E (w, owned) (w', case_option owned (\<lambda>a. a # owned) (gs_session g))"
| try_session: "run_state (p11prov_try_session_ref E ob m reqlogin rw) w = ((r, x), w') \<Longrightarrow>
    (\<And>a. o_ref_session (h_cells (w_objs w) ob) = Some a \<Longrightarrow> h_live (w_sess w) a) \<Longrightarrow>
    api_step E (w, owned) (w', case_option owned (\<lambda>a. a # owned) x)"
| take_login: "run_state (p11prov_take_login_session E slotid) w = ((r, x), w') \<Longrightarrow>
    api_step E (w, owned) (w', case_option owned (\<lambda>a. a # owned) x)"
| context_login: "a \<in> set owned \<Longrightarrow> run_state (p11prov_context_specific_login E a uri pw_cb) w = (r, w') \<Longrightarrow>
    api_step E (w, owned) (w', owned)"
| give_back: "a \<in> set owned \<Longrightarrow> run_state (p11prov_return_session E (Some a)) w = ((), w') \<Longrightarrow>
    api_step E (w, owned) (w', remove1 a owned)"

definition api_state_inv :: "'e world \<times> addr list \<Rightarrow> bool" where
  "api_state_inv x \<longleftrightarrow> (case x of (w, owned) \<Rightarrow> api_inv w \<and> distinct owned \<and> (\<forall>a \<in> set owned. in_hand w a))"

lemma api_state_handed:
  assumes "api_state_inv (w, owned)" and "handed w x w'"
  shows "api_state_inv (w', case_option owned (\<lambda>a. a # owned) x)"
proof -
  have s: "safe {} w w'" using assms(2) by (simp add: handed_def)
  have "heap_ok (w_sess w)" using assms(1) by (simp add: api_state_inv_def api_inv_def)
  then show ?thesis
    using assms api_inv_safe [OF _ s] safe_in_hand [OF s]
    by (auto simp: api_state_inv_def handed_def split: option.splits)
qed

lemma api_step_inv:
  assumes "api_step E x y" and "api_state_inv x"
  shows "api_state_inv y"
  using assms
proof (cases rule: api_step.cases)
  case (get slotid iter uri m pw_cb reqlogin rw w g w' owned)
  then have "api_inv w" using assms(2) by (simp add: api_state_inv_def)
  from wp_run [OF wp_get_session_handed [OF this] get(3)] show ?thesis
    using api_state_handed assms(2) unfolding get(1,2) by blast
next
  case (try_session ob m reqlogin rw w r x w' owned)
  then have "api_inv w" using assms(2) by (simp add: api_state_inv_def)
  from wp_run [OF wp_try_session_handed [OF this try_session(4)] try_session(3)] show ?thesis
    using api_state_handed assms(2) unfolding try_session(1,2) by simp
next
  case (take_login slotid w r x w' owned)
  then have "api_inv w" using assms(2) by (simp add: api_state_inv_def)
  from wp_run [OF wp_take_login_handed [OF this] take_login(3)] show ?thesis
    using api_state_handed assms(2) unfolding take_login(1,2) by simp
next
  case (context_login a owned uri pw_cb w r w')
  then have inv: "api_inv w" "\<forall>b \<in> set owned. in_hand w b" "distinct owned" using assms(2) by (simp_all add: api_state_inv_def)
  have s: "safe_on a w w'" by (rule wp_run [OF keepsD [OF keeps_context_login] context_login(4)])
  then have "in_hand w' b" if "b \<in> set owned" for b
    using inv that by (cases "b = a") (auto simp: safe_on_def in_hand_def safe_def api_inv_def)
  then show ?thesis using s inv api_inv_safe [OF inv(1)] unfolding context_login(2)
    by (auto simp: api_state_inv_def safe_on_def)
next
  case (give_back a owned w w')
  then have inv: "api_inv w" "\<forall>b \<in> set owned. in_hand w b" "distinct owned" using assms(2) by (simp_all add: api_state_inv_def)
  have s: "safe {a} w w'" by (rule wp_run [OF keepsD [OF safe_return] give_back(4)])
  then have "in_hand w' b" if "b \<in> set owned" "b \<noteq> a" for b
    using inv that by (auto simp: safe_def api_inv_def)
  then show ?thesis using inv api_inv_safe [OF inv(1) s] unfolding give_back(2)
    by (auto simp: api_state_inv_def set_remove1_eq)
qed

section \<open>Properties\<close>

text \<open>
  C1. Mutual exclusion for the whole session interface: whatever sequence of calls the provider makes, on
  whatever slots, no session is held twice, every session that is held is allocated and marked in use,
  and the pools of all the slots keep their invariant.
\<close>

theorem api_never_shares:
  assumes "(api_step E)\<^sup>*\<^sup>* (w0, []) (w, owned)" and "api_inv w0"
  shows "distinct owned \<and> (\<forall>a \<in> set owned. h_live (w_sess w) a \<and> s_in_use (cell w a)) \<and>
     (\<forall>s \<in> set (slots_list w). pool_inv (the (sl_pool s)) w)"
proof -
  have "api_state_inv (w, owned)"
    using assms(1)
  proof (induction rule: rtranclp_induct)
    case base
    then show ?case using assms(2) by (simp add: api_state_inv_def)
  next
    case (step y z)
    then show ?case by (blast intro: api_step_inv)
  qed
  then show ?thesis by (simp add: api_state_inv_def api_inv_def in_hand_def)
qed

text \<open>
  C2. \<open>p11prov_get_session\<close>: an error comes without a session. With \<open>CKR_OK\<close> the session was in nobody's hands,
  is marked in use, has a valid handle, and belongs to the pool of a slot with the identifier that is
  written back, whose token is present, initialised, writable when needed, and matches the URI, and
  which offers the mechanism. Sessions held by others are unchanged in both cases.
\<close>

theorem get_session_spec:
  assumes "heap_ok (w_sess w)" and "opens_valid E"
  shows "wp (p11prov_get_session E slotid iter uri m pw_cb reqlogin rw) (\<lambda>g w'.
     (\<forall>b. in_hand w b \<longrightarrow> in_hand w' b \<and> cell w' b = cell w b) \<and>
     (case gs_session g of
        None \<Rightarrow> gs_rv g \<noteq> CKR_OK
      | Some a \<Rightarrow> gs_rv g = CKR_OK \<and> \<not> in_hand w a \<and> s_in_use (cell w' a) \<and> s_session (cell w' a) \<noteq> CK_INVALID_HANDLE \<and>
          (\<exists>i < length (slots_list w). sl_id (slots_list w ! i) = gs_slotid g \<and> slot_fits uri m rw (slots_list w) i \<and>
             a \<in> set (sp_sessions (pcell w' (the (sl_pool (slots_list w ! i)))))))) w"
  by (rule wp_mono [OF wp_get_session [OF assms(1)]])
    (use assms in \<open>auto simp: session_granted_def safe_def split: option.splits\<close>)

interpretation ss: world_preorder "\<lambda>w w'. w_sess w' = w_sess w"
  by unfold_locales simp_all

lemma no_login:
  "p11prov_session_prompt_for_pin (E\<lparr>E_Login := f\<rparr>) = p11prov_session_prompt_for_pin E"
  "ask_pin (E\<lparr>E_Login := f\<rparr>) = ask_pin E"
  "choose_pin (E\<lparr>E_Login := f\<rparr>) = choose_pin E"
  "check_pin_flags_ok (E\<lparr>E_Login := f\<rparr>) = check_pin_flags_ok E"
proof -
  show p: "p11prov_session_prompt_for_pin (E\<lparr>E_Login := f\<rparr>) = p11prov_session_prompt_for_pin E"
    by (intro ext) (simp add: p11prov_session_prompt_for_pin_def cong: if_cong option.case_cong)
  show a: "ask_pin (E\<lparr>E_Login := f\<rparr>) = ask_pin E"
    by (intro ext) (simp add: ask_pin_def p cong: option.case_cong if_cong)
  show "choose_pin (E\<lparr>E_Login := f\<rparr>) = choose_pin E"
    by (intro ext) (simp add: choose_pin_def a cong: option.case_cong if_cong)
  show "check_pin_flags_ok (E\<lparr>E_Login := f\<rparr>) = check_pin_flags_ok E"
    by (intro ext) (simp add: check_pin_flags_ok_def cong: if_cong)
qed

text \<open>
  C7. A PIN is never risked: when the token reports that the next wrong PIN locks it, that it is
  locked or that its PIN has to be changed, or when it cannot be asked, the login fails, and the
  module's \<open>C_Login\<close> is not called: the outcome does not depend on it.
\<close>

theorem login_never_risks_pin:
  assumes "\<And>e. case fst (E_GetTokenInfo E (s_slotid (cell w a)) e) of (r, t) \<Rightarrow> r \<noteq> CKR_OK \<or>
      has_flag (ti_flags t) CKF_USER_PIN_FINAL_TRY \<or> has_flag (ti_flags t) CKF_USER_PIN_LOCKED \<or>
      has_flag (ti_flags t) CKF_USER_PIN_TO_BE_CHANGED"
  shows "run_state (token_login (E\<lparr>E_Login := f\<rparr>) a uri pw_cb i user_type) w =
           run_state (token_login E a uri pw_cb i user_type) w \<and>
         fst (run_state (token_login E a uri pw_cb i user_type) w) \<noteq> CKR_OK"
proof -
  obtain chosen w1 where c: "run_state (choose_pin E uri pw_cb (slots_list w ! i)) w = (chosen, w1)"
    by (metis surj_pair)
  have w1: "w_sess w1 = w_sess w" using wp_run [OF keepsD [OF ss.keeps_choose_pin] c] .
  have err: "chosen = Inl r \<Longrightarrow> r \<noteq> CKR_OK" for r
    using wp_run [OF _ c, of "\<lambda>x _. x \<noteq> Inl CKR_OK"]
    by (auto simp: choose_pin_def ask_pin_def wp_simps p11prov_session_prompt_for_pin_def split: option.split prod.split)
  obtain r w2 where f: "run_state (check_pin_flags_ok E (s_slotid (cell w a))) w1 = (r, w2)" by (metis surj_pair)
  have "wp (check_pin_flags_ok E (s_slotid (cell w a))) (\<lambda>r _. r \<noteq> CKR_OK) w1"
    using assms [of "w_env w1"] by (auto simp: check_pin_flags_ok_def wp_simps split: prod.splits)
  then have "r \<noteq> CKR_OK" using f by (rule wp_run)
  then show ?thesis
    using c f w1 err by (cases chosen) (simp_all add: token_login_def no_login)
qed

text \<open>
  C8. A rejected PIN is not offered again: when the PIN that was stored (in the URI, in the configuration or in the cache)
  is rejected, it is remembered, and the next login with the same URI finds no stored PIN and has to ask.
\<close>

theorem rejected_pin_not_retried:
  assumes "stored_pin uri (w_ctx w) (slots_list w ! i) = Some pin" and "i < length (slots_list w)"
    and "\<not> has_flag (ti_flags (sl_token (slots_list w ! i))) CKF_PROTECTED_AUTHENTICATION_PATH"
    and "\<And>sid e. fst (fst (E_GetTokenInfo E sid e)) \<noteq> CKR_PIN_INCORRECT" and "\<And>n e. fst (E_malloc E n e)"
  shows "wp (token_login E a uri pw_cb i user_type) (\<lambda>r w'. r = CKR_PIN_INCORRECT \<longrightarrow>
     sl_bad_pin (slots_list w' ! i) = Some pin \<and> stored_pin uri (w_ctx w') (slots_list w' ! i) = None) w"
proof -
  have m: "E_malloc E n e = (b, e') \<Longrightarrow> b" for n e b e' using assms(5) [of n e] by simp
  have t: "E_GetTokenInfo E sid e = ((CKR_PIN_INCORRECT, x), e') \<Longrightarrow> False" for sid e x e'
    using assms(4) [of sid e] by simp
  have bad: "stored_pin uri ctx (s\<lparr>sl_bad_pin := Some pin\<rparr>) = None" if "stored_pin uri ctx s = Some pin" for ctx s
    using that by (auto simp: stored_pin_def Let_def split: if_splits option.splits)
  obtain c where c: "w_slots w = Some c" "slots_list w = sc_slots c"
    using assms(2) by (auto simp: slots_list_def split: option.splits)
  show ?thesis
    using assms(1-3) c bad
    by (auto simp: token_login_def choose_pin_def check_pin_flags_ok_def login_result_def wp_simps upd_slot_def
        p11prov_slot_set_bad_pin_def p11prov_session_ref_def slots_list_def split: prod.split dest: m t)
qed

section \<open>Witnesses\<close>

lemma wp_retry_first: "wp attempt (\<lambda>r w'. stop r \<and> Q r w') w \<Longrightarrow> wp (retry E n d attempt stop st) Q w"
  unfolding retry.simps [of E n] wp_bind by (erule wp_mono) (simp add: wp_return)

lemma sim_api_inv: "api_inv sim_slots_world"
proof -
  have "pool_inv 0 sim_slots_world" using sim_pool_inv by (simp add: pool_inv_def sim_slots_world_def)
  then show ?thesis
    by (simp add: api_inv_def pool_inv_def sim_slots_world_def slots_list_def sim_slot_def)
qed

lemma sim_opens_valid: "opens_valid sim_env"
  by (simp add: opens_valid_def sim_env_def)

theorem get_session_spec_witness:
  "wp (p11prov_get_session sim_env 7 False None CK_UNAVAILABLE_INFORMATION None False False)
     (\<lambda>g w'. gs_session g = None \<longrightarrow> gs_rv g \<noteq> CKR_OK) sim_slots_world"
  by (rule wp_mono [OF get_session_spec [OF _ sim_opens_valid]])
    (use sim_api_inv in \<open>auto simp: api_inv_def\<close>)

lemma sim_open:
  assumes "s_in_use (cell w a)" and "s_session (cell w a) = CK_INVALID_HANDLE" and "w_env w = sim_init"
  shows "wp (open_fetched sim_env a flags) (\<lambda>rx _. rx = (CKR_OK, Some a)) w"
proof -
  have "wp (token_session_open sim_env a flags) (\<lambda>r _. r = CKR_OK) w" if "w_env w = sim_init" for w
    unfolding token_session_open_def wp_bind
    by (rule wp_retry_first) (use that in \<open>auto simp: open_attempt_def wp_simps sim_env_def sim_init_def\<close>)
  then show ?thesis using assms
    by (auto simp: open_fetched_def session_check_def wp_simps split: prod.split)
qed

lemma sim_get_session:
  "wp (p11prov_get_session sim_env 7 False None CK_UNAVAILABLE_INFORMATION None False False)
     (\<lambda>g w'. gs_session g = Some 0) sim_slots_world"
proof -
  let ?w = "sim_slots_world\<lparr>w_held := [LkSlots]\<rparr>"
  have slot: "wp (slot_with_id sim_env 7 None CK_UNAVAILABLE_INFORMATION None False False)
     (\<lambda>c w'. c = (CKR_OK, Some 0, 7, 0) \<and> w' = ?w) ?w"
    by (simp add: slot_with_id_def p11prov_get_slot_by_id_def check_and_login_def check_slot_def wp_simps
        sim_slots_world_def sim_pool_world_simps sim_slot_def slots_list_def sim_init_def sim_ctx_def has_flag_def)
  have f: "wp (fetch_session sim_env 0 (session_flags False) False)
     (\<lambda>rx w'. rx = (CKR_OK, Some 0) \<and> s_in_use (cell w' 0) \<and> s_session (cell w' 0) = CK_INVALID_HANDLE \<and>
       w_env w' = sim_init) ?w"
    by (simp add: fetch_session_def fetch_free_def scan_step_def session_new_def session_new_bare_def session_flags_def
      wp_simps sim_env_def sim_pool_world_simps set_closed_def hempty_def zero_session_def sim_slots_world_def)
  have o: "wp (open_in_pool sim_env 0 False) (\<lambda>rx _. rx = (CKR_OK, Some 0)) ?w"
    unfolding open_in_pool_def Let_def by (rule wp_seq [OF f]) (use sim_open in auto)
  have g: "wp (grant_session sim_env [sim_slot] False (CKR_OK, Some 0, 7, 0)) (\<lambda>g _. gs_session g = Some 0) ?w"
    unfolding grant_session_def
    by (simp add: sim_slot_def wp_bind) (rule wp_mono [OF o], auto simp: wp_simps split: prod.split)
  have l: "wp (p11prov_take_slots sim_env) (\<lambda>r w'. r = CKR_OK \<and> w' = ?w) sim_slots_world"
    by (simp add: wp_simps sim_slots_world_def sim_env_def sim_pool_world_simps)
  have sl: "slots_list sim_slots_world = [sim_slot]" by (simp add: slots_list_def sim_slots_world_def)
  show ?thesis
    unfolding p11prov_get_session_def
    by (rule wp_seq [OF l]) (auto simp: wp_bind [of "gets slots_list"] wp_gets sl intro!: wp_seq [OF slot] g)
qed

theorem api_never_shares_witness:
  "let w = snd (run_state (p11prov_get_session sim_env 7 False None CK_UNAVAILABLE_INFORMATION None False False) sim_slots_world) in
   (api_step sim_env)\<^sup>*\<^sup>* (sim_slots_world, []) (w, [0]) \<and> s_in_use (cell w 0)"
proof -
  obtain g w where g: "run_state (p11prov_get_session sim_env 7 False None CK_UNAVAILABLE_INFORMATION None False False) sim_slots_world = (g, w)"
    by (metis surj_pair)
  have "gs_session g = Some 0" by (rule wp_run [OF sim_get_session g])
  then have "(api_step sim_env)\<^sup>*\<^sup>* (sim_slots_world, []) (w, [0])"
    using api_step.get [OF g, of "[]"] by simp
  with api_never_shares [OF this sim_api_inv] g show ?thesis by simp
qed

text \<open>A token that reports its last PIN attempt.\<close>

definition last_try_env :: "sim p11env" where
  "last_try_env = sim_env\<lparr>E_GetTokenInfo := (\<lambda>_ e. ((CKR_OK, (sim_token e)\<lparr>ti_flags := CKF_USER_PIN_FINAL_TRY\<rparr>), e))\<rparr>"

theorem login_never_risks_pin_witness:
  "fst (run_state (token_login last_try_env 0 None None 0 CKU_USER) sim_slots_world) \<noteq> CKR_OK"
  using login_never_risks_pin [of last_try_env sim_slots_world 0 "E_Login sim_env" None None 0 CKU_USER]
  by (simp add: last_try_env_def has_flag_def)

theorem rejected_pin_not_retried_witness:
  "wp (token_login sim_env 0 None None 0 CKU_USER) (\<lambda>r w'. r = CKR_PIN_INCORRECT \<longrightarrow> sl_bad_pin (slots_list w' ! 0) = Some ''9'')
     (sim_slots_world\<lparr>w_ctx := sim_ctx\<lparr>cx_pin := Some ''9''\<rparr>\<rparr>)"
  by (rule wp_mono [OF rejected_pin_not_retried [where pin = "''9''"]])
    (simp_all add: stored_pin_def sim_slots_world_def slots_list_def sim_slot_def sim_init_def has_flag_def sim_env_def)

text \<open>
  A referenced session that was closed passes the check and is handed out with the invalid handle:
  \<open>session_check\<close> accepts a closed session, and only its errors lead to a reopening.
\<close>

lemma try_ref_invalid_handle:
  assumes "\<not> s_in_use (cell w a)" and "\<not> s_is_broken (cell w a)" and "s_session (cell w a) = CK_INVALID_HANDLE"
    and "\<And>l e. fst (E_lock E l e)"
  shows "wp (try_ref E a rw) (\<lambda>b w'. b \<and> s_session (cell w' a) = CK_INVALID_HANDLE) w"
proof -
  have l: "E_lock E l e = (b, e') \<Longrightarrow> b" for l e b e' using assms(4) [of l e] by simp
  show ?thesis using assms(1-3)
    by (auto simp: try_ref_def ref_take_def ref_check_def session_check_def wp_simps split: prod.split dest!: l)
qed

end
