(* ===== verification/P11_Random.thy ===== *)
theory P11_Random
  imports P11_Access
begin

text \<open>
  The random number generator of \<^verbatim>\<open>src/src/random.c\<close>. A generator context is the slot identifier it
  remembers; every request takes a session, uses it and gives it back. A buffer argument that may
  be NULL is an option, and the optional seeding is skipped for a NULL or empty buffer.
\<close>

section \<open>Model\<close>

abbreviation RET_OSSL_OK :: int where "RET_OSSL_OK \<equiv> 1"
abbreviation RET_OSSL_ERR :: int where "RET_OSSL_ERR \<equiv> 0"

definition sizeof_rand_ctx :: nat where
  "sizeof_rand_ctx = 16"

definition p11prov_rand_newctx :: "'e p11env \<Rightarrow> ('e world, CK_SLOT_ID option) state" where
  "p11prov_rand_newctx E = do {
     ok \<leftarrow> ecall (E_malloc E sizeof_rand_ctx);
     ret (if ok then Some CK_UNAVAILABLE_INFORMATION else None) }"

definition seed :: "'e p11env \<Rightarrow> CK_SESSION_HANDLE \<Rightarrow> bytes option \<Rightarrow> ('e world, unit) state" where
  "seed E h buf = (case buf of
     None \<Rightarrow> ret ()
   | Some b \<Rightarrow> if b = [] then ret () else do { _ \<leftarrow> ecall (E_SeedRandom E h b); ret () })"

definition p11prov_rand_generate ::
    "'e p11env \<Rightarrow> CK_SLOT_ID \<Rightarrow> nat \<Rightarrow> bytes option \<Rightarrow> ('e world, int \<times> bytes option \<times> CK_SLOT_ID) state" where
  "p11prov_rand_generate E slotid outlen adin = do {
     g \<leftarrow> p11prov_get_session E slotid False None CK_UNAVAILABLE_INFORMATION None False False;
     case gs_session g of
       None \<Rightarrow> ret (RET_OSSL_ERR, None, gs_slotid g)
     | Some a \<Rightarrow> do {
         s \<leftarrow> get_s a;
         seed E (p11prov_session_handle (Some s)) adin;
         (r, out) \<leftarrow> ecall (E_GenerateRandom E (p11prov_session_handle (Some s)) outlen);
         p11prov_return_session E (Some a);
         ret (if r = CKR_OK then (RET_OSSL_OK, Some out, gs_slotid g) else (RET_OSSL_ERR, None, gs_slotid g)) } }"

definition p11prov_rand_reseed ::
    "'e p11env \<Rightarrow> CK_SLOT_ID \<Rightarrow> bytes option \<Rightarrow> bytes option \<Rightarrow> ('e world, int \<times> CK_SLOT_ID) state" where
  "p11prov_rand_reseed E slotid entropy adin = do {
     g \<leftarrow> p11prov_get_session E slotid False None CK_UNAVAILABLE_INFORMATION None False False;
     case gs_session g of
       None \<Rightarrow> ret (RET_OSSL_ERR, gs_slotid g)
     | Some a \<Rightarrow> do {
         s \<leftarrow> get_s a;
         seed E (p11prov_session_handle (Some s)) entropy;
         seed E (p11prov_session_handle (Some s)) adin;
         p11prov_return_session E (Some a);
         ret (RET_OSSL_ERR, gs_slotid g) } }"

definition p11prov_check_random :: "'e p11env \<Rightarrow> ('e world, CK_RV) state" where
  "p11prov_check_random E = do {
     (r, _, _) \<leftarrow> p11prov_rand_generate E CK_UNAVAILABLE_INFORMATION 8 None;
     ret (if r \<noteq> RET_OSSL_OK then CKR_FUNCTION_NOT_SUPPORTED else CKR_OK) }"

section \<open>Proofs\<close>

lemma wp_seed: "(\<And>e. Q () (w\<lparr>w_env := e\<rparr>)) \<Longrightarrow> Q () w \<Longrightarrow> wp (seed E h buf) Q w"
  by (auto simp: seed_def wp_simps split: option.split prod.split)

text \<open>A session that was in nobody's hands before can be given back without anybody noticing.\<close>

lemma wp_give_back_private:
  assumes "safe {} w v" and "\<not> in_hand w a"
  shows "wp (p11prov_return_session E (Some a)) (\<lambda>_ w'. safe {} w w') v"
  by (rule wp_mono [OF keepsD [OF safe_return]]) (use assms safe_private in blast)

lemma api_inv_heap_ok: "api_inv w \<Longrightarrow> heap_ok (w_sess w)"
  by (simp add: api_inv_def)

lemma wp_rand_generate:
  assumes "heap_ok (w_sess w)"
  shows "wp (p11prov_rand_generate E slotid n adin) (\<lambda>(res, out, slotid') w'. safe {} w w' \<and>
     (case out of
        None \<Rightarrow> res = RET_OSSL_ERR
      | Some bs \<Rightarrow> res = RET_OSSL_OK \<and> (\<exists>s \<in> set (slots_list w). sl_id s = slotid') \<and>
          (opens_valid E \<longrightarrow> (\<exists>h e. h \<noteq> CK_INVALID_HANDLE \<and> fst (E_GenerateRandom E h n e) = (CKR_OK, bs))))) w"
proof -
  note ok = assms
  let ?Q = "\<lambda>(res, out, slotid') w'. safe {} w w' \<and>
     (case out of
        None \<Rightarrow> res = RET_OSSL_ERR
      | Some bs \<Rightarrow> res = RET_OSSL_OK \<and> (\<exists>s \<in> set (slots_list w). sl_id s = slotid') \<and>
          (opens_valid E \<longrightarrow> (\<exists>h e. h \<noteq> CK_INVALID_HANDLE \<and> fst (E_GenerateRandom E h n e) = (CKR_OK, bs))))"
  show ?thesis
    unfolding p11prov_rand_generate_def
  proof (rule wp_seq [OF wp_get_session [OF ok]])
    fix g v
    assume g: "session_granted E None CK_UNAVAILABLE_INFORMATION False w g v"
    show "wp (case gs_session g of
       None \<Rightarrow> ret (RET_OSSL_ERR, None, gs_slotid g)
     | Some a \<Rightarrow> do {
         s \<leftarrow> get_s a;
         seed E (p11prov_session_handle (Some s)) adin;
         (r, out) \<leftarrow> ecall (E_GenerateRandom E (p11prov_session_handle (Some s)) n);
         p11prov_return_session E (Some a);
         ret (if r = CKR_OK then (RET_OSSL_OK, Some out, gs_slotid g) else (RET_OSSL_ERR, None, gs_slotid g)) }) ?Q v"
    proof (cases "gs_session g")
      case None
      then show ?thesis using g by (simp add: wp_return session_granted_def)
    next
      case (Some a)
      let ?h = "s_session (cell v a)"
      have h: "opens_valid E \<longrightarrow> ?h \<noteq> CK_INVALID_HANDLE" and priv: "\<not> in_hand w a" and sv: "safe {} w v"
        and slot: "\<exists>s \<in> set (slots_list w). sl_id s = gs_slotid g"
        using g Some by (auto simp: session_granted_def)
      have fin: "wp (do { p11prov_return_session E (Some a);
           ret (if r = CKR_OK then (RET_OSSL_OK, Some out, gs_slotid g) else (RET_OSSL_ERR, None, gs_slotid g)) }) ?Q (v\<lparr>w_env := e'\<rparr>)"
        if "E_GenerateRandom E ?h n e = ((r, out), e'')" for e e' e'' r out
      proof (rule wp_seq [OF wp_give_back_private [OF _ priv]])
        show "safe {} w (v\<lparr>w_env := e'\<rparr>)" by (rule safe_trans [OF sv sf.rel_env])
        have "fst (E_GenerateRandom E ?h n e) = (r, out)" using that by simp
        then have bytes: "opens_valid E \<longrightarrow> (\<exists>h e. h \<noteq> CK_INVALID_HANDLE \<and> fst (E_GenerateRandom E h n e) = (r, out))" using h by blast
        show "wp (ret (if r = CKR_OK then (RET_OSSL_OK, Some out, gs_slotid g) else (RET_OSSL_ERR, None, gs_slotid g))) ?Q w'"
          if "safe {} w w'" for w'
          using that slot bytes by (cases "r = CKR_OK") (simp_all add: wp_return)
      qed
      have gen: "wp (do { (r, out) \<leftarrow> ecall (E_GenerateRandom E ?h n);
           p11prov_return_session E (Some a);
           ret (if r = CKR_OK then (RET_OSSL_OK, Some out, gs_slotid g) else (RET_OSSL_ERR, None, gs_slotid g)) }) ?Q (v\<lparr>w_env := e\<rparr>)" for e
      proof -
        obtain r out e' where gr: "E_GenerateRandom E ?h n e = ((r, out), e')" by (metis prod.exhaust)
        show ?thesis unfolding wp_bind [of "ecall _"] wp_ecall using fin [OF gr, of e'] gr by simp
      qed
      show ?thesis
        unfolding Some option.case wp_bind [of "get_s a"] wp_gets wp_bind [of "seed E _ adin"] p11prov_session_handle_def
        by (rule wp_seed) (use gen gen [of "w_env v"] in simp_all)
    qed
  qed
qed

text \<open>
  C14. Random bytes: an error gives no bytes; on success the bytes are what the module generated on a
  valid session handle, and the context remembers a slot that exists. In both cases the sessions of
  others are as they were and the invariant of all pools is kept.
\<close>

theorem rand_generate_spec:
  assumes "api_inv w" and "opens_valid E"
  shows "wp (p11prov_rand_generate E slotid n adin) (\<lambda>(res, out, slotid') w'. api_inv w' \<and>
     (\<forall>b. in_hand w b \<longrightarrow> in_hand w' b \<and> cell w' b = cell w b) \<and>
     (case out of
        None \<Rightarrow> res = RET_OSSL_ERR
      | Some bs \<Rightarrow> res = RET_OSSL_OK \<and> (\<exists>s \<in> set (slots_list w). sl_id s = slotid') \<and>
          (\<exists>h e. h \<noteq> CK_INVALID_HANDLE \<and> fst (E_GenerateRandom E h n e) = (CKR_OK, bs)))) w"
proof -
  note ok = api_inv_heap_ok [OF assms(1)]
  have post: "api_inv w' \<and> (\<forall>b. in_hand w b \<longrightarrow> in_hand w' b \<and> cell w' b = cell w b)" if "safe {} w w'" for w'
    using api_inv_safe [OF assms(1) that] that ok by (simp add: safe_def)
  show ?thesis
  proof (rule wp_mono [OF wp_rand_generate [OF ok]], clarify)
    fix res out slotid' and w' :: "'a world"
    assume "safe {} w w'" and out: "case out of None \<Rightarrow> res = RET_OSSL_ERR
      | Some bs \<Rightarrow> res = RET_OSSL_OK \<and> (\<exists>s \<in> set (slots_list w). sl_id s = slotid') \<and>
          (opens_valid E \<longrightarrow> (\<exists>h e. h \<noteq> CK_INVALID_HANDLE \<and> fst (E_GenerateRandom E h n e) = (CKR_OK, bs)))"
    show "api_inv w' \<and> (\<forall>b. in_hand w b \<longrightarrow> in_hand w' b \<and> cell w' b = cell w b) \<and>
      (case out of None \<Rightarrow> res = RET_OSSL_ERR
       | Some bs \<Rightarrow> res = RET_OSSL_OK \<and> (\<exists>s \<in> set (slots_list w). sl_id s = slotid') \<and>
          (\<exists>h e. h \<noteq> CK_INVALID_HANDLE \<and> fst (E_GenerateRandom E h n e) = (CKR_OK, bs)))"
      using post [OF \<open>safe {} w w'\<close>] out assms(2) by (cases out) simp_all
  qed
qed

theorem rand_generate_spec_witness:
  "wp (p11prov_rand_generate sim_env CK_UNAVAILABLE_INFORMATION 8 None)
     (\<lambda>(res, out, _) w'. api_inv w' \<and> (out \<noteq> None \<longleftrightarrow> res = RET_OSSL_OK)) sim_slots_world"
  by (rule wp_mono [OF rand_generate_spec [OF sim_api_inv sim_opens_valid]]) (auto split: option.splits)

lemma safe_check_random: "keeps (safe {}) (p11prov_check_random E)"
proof (rule keepsI)
  fix w :: "'a world"
  show "wp (p11prov_check_random E) (\<lambda>_. safe {} w) w"
  proof (cases "heap_ok (w_sess w)")
    case True
    show ?thesis
      unfolding p11prov_check_random_def
      by (rule wp_seq [OF wp_rand_generate [OF True]]) (simp add: wp_return case_prod_beta)
  next
    case False
    then show ?thesis by (intro wp_mono [OF wp_True]) (simp add: safe_def)
  qed
qed

text \<open>Reseeding reports an error whatever the module answers: its result is never set.\<close>

lemma rand_reseed_fails: "wp (p11prov_rand_reseed E slotid entropy adin) (\<lambda>(res, _) _. res = RET_OSSL_ERR) w"
  by (rule wpI) (auto simp: p11prov_rand_reseed_def State_Monad.run_state_bind split: option.splits prod.splits)

end
