(* ===== verification/P11_Algos.thy ===== *)
theory P11_Algos
  imports P11_Random
begin

text \<open>
  The algorithm tables the provider gives to OpenSSL (\<^verbatim>\<open>src/src/provider.c\<close>: \<open>alg_set_op\<close>,
  \<open>alg_rm_mechs\<close>, \<open>operations_init\<close>, \<open>static_operations_init\<close>, \<open>p11prov_query_operation\<close>).

  The \<^verbatim>\<open>switch\<close> over the mechanisms is kept as data: a list of cases, each with its labels and the
  list of its statements. \<open>ADD\<close> is \<^verbatim>\<open>ADD_ALGO\<close> and \<^verbatim>\<open>ADD_ALGO_EXT\<close>, with the macro argument that
  selects \<^verbatim>\<open>P11PROV_NAMES_x\<close> and \<^verbatim>\<open>P11PROV_DESCS_x\<close>, the text appended to the property string, and the
  name of the dispatch table; \<open>UNCHECK\<close> is \<^verbatim>\<open>UNCHECK_MECHS\<close>; the others set the local flags. Two
  settings of the build are parameters: \<open>msg\<close> says that OpenSSL has
  \<^verbatim>\<open>OSSL_FUNC_SIGNATURE_SIGN_MESSAGE_INIT\<close>, \<open>skey\<close> that \<^verbatim>\<open>SKEY_SUPPORT\<close> is 1.
\<close>

section \<open>Model\<close>

abbreviation CKM_RSA_PKCS_KEY_PAIR_GEN :: CK_MECHANISM_TYPE where "CKM_RSA_PKCS_KEY_PAIR_GEN \<equiv> 0"
abbreviation CKM_RSA_PKCS :: CK_MECHANISM_TYPE where "CKM_RSA_PKCS \<equiv> 0x1"
abbreviation CKM_SHA1_RSA_PKCS :: CK_MECHANISM_TYPE where "CKM_SHA1_RSA_PKCS \<equiv> 0x6"
abbreviation CKM_SHA224_RSA_PKCS :: CK_MECHANISM_TYPE where "CKM_SHA224_RSA_PKCS \<equiv> 0x46"
abbreviation CKM_SHA256_RSA_PKCS :: CK_MECHANISM_TYPE where "CKM_SHA256_RSA_PKCS \<equiv> 0x40"
abbreviation CKM_SHA384_RSA_PKCS :: CK_MECHANISM_TYPE where "CKM_SHA384_RSA_PKCS \<equiv> 0x41"
abbreviation CKM_SHA512_RSA_PKCS :: CK_MECHANISM_TYPE where "CKM_SHA512_RSA_PKCS \<equiv> 0x42"
abbreviation CKM_SHA3_224_RSA_PKCS :: CK_MECHANISM_TYPE where "CKM_SHA3_224_RSA_PKCS \<equiv> 0x66"
abbreviation CKM_SHA3_256_RSA_PKCS :: CK_MECHANISM_TYPE where "CKM_SHA3_256_RSA_PKCS \<equiv> 0x60"
abbreviation CKM_SHA3_384_RSA_PKCS :: CK_MECHANISM_TYPE where "CKM_SHA3_384_RSA_PKCS \<equiv> 0x61"
abbreviation CKM_SHA3_512_RSA_PKCS :: CK_MECHANISM_TYPE where "CKM_SHA3_512_RSA_PKCS \<equiv> 0x62"
abbreviation CKM_RSA_PKCS_PSS :: CK_MECHANISM_TYPE where "CKM_RSA_PKCS_PSS \<equiv> 0xd"
abbreviation CKM_SHA1_RSA_PKCS_PSS :: CK_MECHANISM_TYPE where "CKM_SHA1_RSA_PKCS_PSS \<equiv> 0xe"
abbreviation CKM_SHA224_RSA_PKCS_PSS :: CK_MECHANISM_TYPE where "CKM_SHA224_RSA_PKCS_PSS \<equiv> 0x47"
abbreviation CKM_SHA256_RSA_PKCS_PSS :: CK_MECHANISM_TYPE where "CKM_SHA256_RSA_PKCS_PSS \<equiv> 0x43"
abbreviation CKM_SHA384_RSA_PKCS_PSS :: CK_MECHANISM_TYPE where "CKM_SHA384_RSA_PKCS_PSS \<equiv> 0x44"
abbreviation CKM_SHA512_RSA_PKCS_PSS :: CK_MECHANISM_TYPE where "CKM_SHA512_RSA_PKCS_PSS \<equiv> 0x45"
abbreviation CKM_SHA3_224_RSA_PKCS_PSS :: CK_MECHANISM_TYPE where "CKM_SHA3_224_RSA_PKCS_PSS \<equiv> 0x67"
abbreviation CKM_SHA3_256_RSA_PKCS_PSS :: CK_MECHANISM_TYPE where "CKM_SHA3_256_RSA_PKCS_PSS \<equiv> 0x63"
abbreviation CKM_SHA3_384_RSA_PKCS_PSS :: CK_MECHANISM_TYPE where "CKM_SHA3_384_RSA_PKCS_PSS \<equiv> 0x64"
abbreviation CKM_SHA3_512_RSA_PKCS_PSS :: CK_MECHANISM_TYPE where "CKM_SHA3_512_RSA_PKCS_PSS \<equiv> 0x65"
abbreviation CKM_RSA_PKCS_OAEP :: CK_MECHANISM_TYPE where "CKM_RSA_PKCS_OAEP \<equiv> 0x9"
abbreviation CKM_RSA_X_509 :: CK_MECHANISM_TYPE where "CKM_RSA_X_509 \<equiv> 0x3"
abbreviation CKM_RSA_X9_31 :: CK_MECHANISM_TYPE where "CKM_RSA_X9_31 \<equiv> 0xb"
abbreviation CKM_EC_KEY_PAIR_GEN :: CK_MECHANISM_TYPE where "CKM_EC_KEY_PAIR_GEN \<equiv> 0x1040"
abbreviation CKM_ECDSA :: CK_MECHANISM_TYPE where "CKM_ECDSA \<equiv> 0x1041"
abbreviation CKM_ECDSA_SHA1 :: CK_MECHANISM_TYPE where "CKM_ECDSA_SHA1 \<equiv> 0x1042"
abbreviation CKM_ECDSA_SHA224 :: CK_MECHANISM_TYPE where "CKM_ECDSA_SHA224 \<equiv> 0x1043"
abbreviation CKM_ECDSA_SHA256 :: CK_MECHANISM_TYPE where "CKM_ECDSA_SHA256 \<equiv> 0x1044"
abbreviation CKM_ECDSA_SHA384 :: CK_MECHANISM_TYPE where "CKM_ECDSA_SHA384 \<equiv> 0x1045"
abbreviation CKM_ECDSA_SHA512 :: CK_MECHANISM_TYPE where "CKM_ECDSA_SHA512 \<equiv> 0x1046"
abbreviation CKM_ECDSA_SHA3_224 :: CK_MECHANISM_TYPE where "CKM_ECDSA_SHA3_224 \<equiv> 0x1047"
abbreviation CKM_ECDSA_SHA3_256 :: CK_MECHANISM_TYPE where "CKM_ECDSA_SHA3_256 \<equiv> 0x1048"
abbreviation CKM_ECDSA_SHA3_384 :: CK_MECHANISM_TYPE where "CKM_ECDSA_SHA3_384 \<equiv> 0x1049"
abbreviation CKM_ECDSA_SHA3_512 :: CK_MECHANISM_TYPE where "CKM_ECDSA_SHA3_512 \<equiv> 0x104a"
abbreviation CKM_ECDH1_DERIVE :: CK_MECHANISM_TYPE where "CKM_ECDH1_DERIVE \<equiv> 0x1050"
abbreviation CKM_ECDH1_COFACTOR_DERIVE :: CK_MECHANISM_TYPE where "CKM_ECDH1_COFACTOR_DERIVE \<equiv> 0x1051"
abbreviation CKM_HKDF_DERIVE :: CK_MECHANISM_TYPE where "CKM_HKDF_DERIVE \<equiv> 0x402a"
abbreviation CKM_SHA_1 :: CK_MECHANISM_TYPE where "CKM_SHA_1 \<equiv> 0x220"
abbreviation CKM_SHA224 :: CK_MECHANISM_TYPE where "CKM_SHA224 \<equiv> 0x255"
abbreviation CKM_SHA256 :: CK_MECHANISM_TYPE where "CKM_SHA256 \<equiv> 0x250"
abbreviation CKM_SHA384 :: CK_MECHANISM_TYPE where "CKM_SHA384 \<equiv> 0x260"
abbreviation CKM_SHA512 :: CK_MECHANISM_TYPE where "CKM_SHA512 \<equiv> 0x270"
abbreviation CKM_SHA512_224 :: CK_MECHANISM_TYPE where "CKM_SHA512_224 \<equiv> 0x48"
abbreviation CKM_SHA512_256 :: CK_MECHANISM_TYPE where "CKM_SHA512_256 \<equiv> 0x4c"
abbreviation CKM_SHA3_224 :: CK_MECHANISM_TYPE where "CKM_SHA3_224 \<equiv> 0x2b5"
abbreviation CKM_SHA3_256 :: CK_MECHANISM_TYPE where "CKM_SHA3_256 \<equiv> 0x2b0"
abbreviation CKM_SHA3_384 :: CK_MECHANISM_TYPE where "CKM_SHA3_384 \<equiv> 0x2c0"
abbreviation CKM_SHA3_512 :: CK_MECHANISM_TYPE where "CKM_SHA3_512 \<equiv> 0x2d0"
abbreviation CKM_EC_EDWARDS_KEY_PAIR_GEN :: CK_MECHANISM_TYPE where "CKM_EC_EDWARDS_KEY_PAIR_GEN \<equiv> 0x1055"
abbreviation CKM_EDDSA :: CK_MECHANISM_TYPE where "CKM_EDDSA \<equiv> 0x1057"
abbreviation CKM_ML_DSA_KEY_PAIR_GEN :: CK_MECHANISM_TYPE where "CKM_ML_DSA_KEY_PAIR_GEN \<equiv> 0x1c"
abbreviation CKM_ML_DSA :: CK_MECHANISM_TYPE where "CKM_ML_DSA \<equiv> 0x1d"
abbreviation CKM_ML_KEM_KEY_PAIR_GEN :: CK_MECHANISM_TYPE where "CKM_ML_KEM_KEY_PAIR_GEN \<equiv> 0xf"
abbreviation CKM_ML_KEM :: CK_MECHANISM_TYPE where "CKM_ML_KEM \<equiv> 0x17"
abbreviation CKM_AES_ECB :: CK_MECHANISM_TYPE where "CKM_AES_ECB \<equiv> 0x1081"
abbreviation CKM_AES_CBC :: CK_MECHANISM_TYPE where "CKM_AES_CBC \<equiv> 0x1082"
abbreviation CKM_AES_CBC_PAD :: CK_MECHANISM_TYPE where "CKM_AES_CBC_PAD \<equiv> 0x1085"
abbreviation CKM_AES_OFB :: CK_MECHANISM_TYPE where "CKM_AES_OFB \<equiv> 0x2104"
abbreviation CKM_AES_CFB128 :: CK_MECHANISM_TYPE where "CKM_AES_CFB128 \<equiv> 0x2107"
abbreviation CKM_AES_CFB1 :: CK_MECHANISM_TYPE where "CKM_AES_CFB1 \<equiv> 0x2108"
abbreviation CKM_AES_CFB8 :: CK_MECHANISM_TYPE where "CKM_AES_CFB8 \<equiv> 0x2106"
abbreviation CKM_AES_CTR :: CK_MECHANISM_TYPE where "CKM_AES_CTR \<equiv> 0x1086"
abbreviation CKM_AES_CTS :: CK_MECHANISM_TYPE where "CKM_AES_CTS \<equiv> 0x1089"

datatype op_id = OpDigest | OpKdf | OpExchange | OpSignature | OpAsymCipher | OpKem | OpCipher | OpRandom
  | OpEncoder | OpDecoder | OpStore | OpKeymgmt | OpSkeymgmt

record ossl_algorithm =
  al_names :: string
  al_props :: string
  al_impl :: string

datatype alg_stmt = ADD op_id string string string | UNCHECK "CK_MECHANISM_TYPE list"
  | ADD_RSASIG | ADD_RSAENC | ADD_ECDSASIG

type_synonym mech_case = "CK_MECHANISM_TYPE list \<times> alg_stmt list"

subsection \<open>The cases\<close>

definition DIGEST_MECHS :: "CK_MECHANISM_TYPE list" where
    "DIGEST_MECHS = [CKM_SHA_1, CKM_SHA224, CKM_SHA256, CKM_SHA384, CKM_SHA512, CKM_SHA512_224, CKM_SHA512_256,
      CKM_SHA3_224, CKM_SHA3_256, CKM_SHA3_384, CKM_SHA3_512]"

definition RSA_SIG_MECHS :: "CK_MECHANISM_TYPE list" where
    "RSA_SIG_MECHS = [CKM_RSA_PKCS, CKM_SHA1_RSA_PKCS, CKM_SHA224_RSA_PKCS, CKM_SHA256_RSA_PKCS,
      CKM_SHA384_RSA_PKCS, CKM_SHA512_RSA_PKCS, CKM_SHA3_224_RSA_PKCS, CKM_SHA3_256_RSA_PKCS, CKM_SHA3_384_RSA_PKCS,
      CKM_SHA3_512_RSA_PKCS]"

definition RSAPSS_SIG_MECHS :: "CK_MECHANISM_TYPE list" where
    "RSAPSS_SIG_MECHS = [CKM_RSA_PKCS_PSS, CKM_SHA1_RSA_PKCS_PSS, CKM_SHA224_RSA_PKCS_PSS, CKM_SHA256_RSA_PKCS_PSS,
      CKM_SHA384_RSA_PKCS_PSS, CKM_SHA512_RSA_PKCS_PSS, CKM_SHA3_224_RSA_PKCS_PSS, CKM_SHA3_256_RSA_PKCS_PSS,
      CKM_SHA3_384_RSA_PKCS_PSS, CKM_SHA3_512_RSA_PKCS_PSS]"

definition RSA_ENC_MECHS :: "CK_MECHANISM_TYPE list" where
  "RSA_ENC_MECHS = [CKM_RSA_PKCS, CKM_RSA_PKCS_OAEP, CKM_RSA_X_509, CKM_RSA_X9_31]"

definition ECDSA_SIG_MECHS :: "CK_MECHANISM_TYPE list" where
    "ECDSA_SIG_MECHS = [CKM_ECDSA, CKM_ECDSA_SHA1, CKM_ECDSA_SHA224, CKM_ECDSA_SHA256, CKM_ECDSA_SHA384,
      CKM_ECDSA_SHA512, CKM_ECDSA_SHA3_224, CKM_ECDSA_SHA3_256, CKM_ECDSA_SHA3_384, CKM_ECDSA_SHA3_512]"

definition PQC_MECHS :: "CK_MECHANISM_TYPE list" where
  "PQC_MECHS = [CKM_ML_DSA, CKM_ML_DSA_KEY_PAIR_GEN, CKM_ML_KEM, CKM_ML_KEM_KEY_PAIR_GEN]"

definition AES_MECHS :: "CK_MECHANISM_TYPE list" where
    "AES_MECHS = [CKM_AES_ECB, CKM_AES_CBC, CKM_AES_CBC_PAD, CKM_AES_CTR, CKM_AES_CTS, CKM_AES_OFB, CKM_AES_CFB8,
      CKM_AES_CFB128, CKM_AES_CFB1]"

definition rsa_cases :: "bool \<Rightarrow> mech_case list" where
  "rsa_cases msg = [
    ([CKM_RSA_PKCS_KEY_PAIR_GEN],
     [UNCHECK [CKM_RSA_PKCS_KEY_PAIR_GEN]]),
    ([CKM_RSA_PKCS],
     [ADD_RSASIG,
      ADD_RSAENC,
      UNCHECK [CKM_RSA_PKCS_KEY_PAIR_GEN],
      UNCHECK ([CKM_RSA_PKCS_KEY_PAIR_GEN] @ RSA_ENC_MECHS)])] @
   (if msg then [
    ([CKM_SHA1_RSA_PKCS],
     [ADD OpSignature ''RSA_SHA1'' '''' ''p11prov_rsa_sha1_signature_functions'',
      ADD_RSASIG,
      UNCHECK [CKM_SHA1_RSA_PKCS, CKM_RSA_PKCS_KEY_PAIR_GEN]]),
    ([CKM_SHA224_RSA_PKCS],
     [ADD OpSignature ''RSA_SHA224'' '''' ''p11prov_rsa_sha224_signature_functions'',
      ADD_RSASIG,
      UNCHECK [CKM_SHA224_RSA_PKCS, CKM_RSA_PKCS_KEY_PAIR_GEN]]),
    ([CKM_SHA256_RSA_PKCS],
     [ADD OpSignature ''RSA_SHA256'' '''' ''p11prov_rsa_sha256_signature_functions'',
      ADD_RSASIG,
      UNCHECK [CKM_SHA256_RSA_PKCS, CKM_RSA_PKCS_KEY_PAIR_GEN]]),
    ([CKM_SHA384_RSA_PKCS],
     [ADD OpSignature ''RSA_SHA384'' '''' ''p11prov_rsa_sha384_signature_functions'',
      ADD_RSASIG,
      UNCHECK [CKM_SHA384_RSA_PKCS, CKM_RSA_PKCS_KEY_PAIR_GEN]]),
    ([CKM_SHA512_RSA_PKCS],
     [ADD OpSignature ''RSA_SHA512'' '''' ''p11prov_rsa_sha512_signature_functions'',
      ADD_RSASIG,
      UNCHECK [CKM_SHA512_RSA_PKCS, CKM_RSA_PKCS_KEY_PAIR_GEN]]),
    ([CKM_SHA3_224_RSA_PKCS],
     [ADD OpSignature ''RSA_SHA3_224'' '''' ''p11prov_rsa_sha3_224_signature_functions'',
      ADD_RSASIG,
      UNCHECK [CKM_SHA3_224_RSA_PKCS, CKM_RSA_PKCS_KEY_PAIR_GEN]]),
    ([CKM_SHA3_256_RSA_PKCS],
     [ADD OpSignature ''RSA_SHA3_256'' '''' ''p11prov_rsa_sha3_256_signature_functions'',
      ADD_RSASIG,
      UNCHECK [CKM_SHA3_256_RSA_PKCS, CKM_RSA_PKCS_KEY_PAIR_GEN]]),
    ([CKM_SHA3_384_RSA_PKCS],
     [ADD OpSignature ''RSA_SHA3_384'' '''' ''p11prov_rsa_sha3_384_signature_functions'',
      ADD_RSASIG,
      UNCHECK [CKM_SHA3_384_RSA_PKCS, CKM_RSA_PKCS_KEY_PAIR_GEN]]),
    ([CKM_SHA3_512_RSA_PKCS],
     [ADD OpSignature ''RSA_SHA3_512'' '''' ''p11prov_rsa_sha3_512_signature_functions'',
      ADD_RSASIG,
      UNCHECK [CKM_SHA3_512_RSA_PKCS, CKM_RSA_PKCS_KEY_PAIR_GEN]])]
   else [
        ([CKM_SHA1_RSA_PKCS, CKM_SHA224_RSA_PKCS, CKM_SHA256_RSA_PKCS, CKM_SHA384_RSA_PKCS, CKM_SHA512_RSA_PKCS,
        CKM_SHA3_224_RSA_PKCS, CKM_SHA3_256_RSA_PKCS, CKM_SHA3_384_RSA_PKCS, CKM_SHA3_512_RSA_PKCS],
     [ADD_RSASIG,
      UNCHECK ([CKM_RSA_PKCS_KEY_PAIR_GEN] @ RSA_SIG_MECHS)])]) @
   [
        ([CKM_RSA_PKCS_PSS, CKM_SHA1_RSA_PKCS_PSS, CKM_SHA224_RSA_PKCS_PSS, CKM_SHA256_RSA_PKCS_PSS,
        CKM_SHA384_RSA_PKCS_PSS, CKM_SHA512_RSA_PKCS_PSS, CKM_SHA3_224_RSA_PKCS_PSS, CKM_SHA3_256_RSA_PKCS_PSS,
        CKM_SHA3_384_RSA_PKCS_PSS, CKM_SHA3_512_RSA_PKCS_PSS],
     [ADD_RSASIG,
      UNCHECK ([CKM_RSA_PKCS_KEY_PAIR_GEN] @ RSAPSS_SIG_MECHS)]),
    ([CKM_RSA_PKCS_OAEP, CKM_RSA_X_509, CKM_RSA_X9_31],
     [ADD_RSAENC,
      UNCHECK ([CKM_RSA_PKCS_KEY_PAIR_GEN] @ RSA_ENC_MECHS)])]"

definition ec_cases :: "bool \<Rightarrow> mech_case list" where
  "ec_cases msg = [
    ([CKM_EC_KEY_PAIR_GEN],
     [UNCHECK [CKM_EC_KEY_PAIR_GEN]]),
    ([CKM_ECDSA],
     [ADD_ECDSASIG,
      UNCHECK [CKM_EC_KEY_PAIR_GEN, CKM_ECDSA]])] @
   (if msg then [
    ([CKM_ECDSA_SHA1],
     [ADD OpSignature ''ECDSA_SHA1'' '''' ''p11prov_ecdsa_sha1_signature_functions'',
      ADD_ECDSASIG,
      UNCHECK [CKM_EC_KEY_PAIR_GEN, CKM_ECDSA_SHA1]]),
    ([CKM_ECDSA_SHA224],
     [ADD OpSignature ''ECDSA_SHA224'' '''' ''p11prov_ecdsa_sha224_signature_functions'',
      ADD_ECDSASIG,
      UNCHECK [CKM_EC_KEY_PAIR_GEN, CKM_ECDSA_SHA224]]),
    ([CKM_ECDSA_SHA256],
     [ADD OpSignature ''ECDSA_SHA256'' '''' ''p11prov_ecdsa_sha256_signature_functions'',
      ADD_ECDSASIG,
      UNCHECK [CKM_EC_KEY_PAIR_GEN, CKM_ECDSA_SHA256]]),
    ([CKM_ECDSA_SHA384],
     [ADD OpSignature ''ECDSA_SHA384'' '''' ''p11prov_ecdsa_sha384_signature_functions'',
      ADD_ECDSASIG,
      UNCHECK [CKM_EC_KEY_PAIR_GEN, CKM_ECDSA_SHA384]]),
    ([CKM_ECDSA_SHA512],
     [ADD OpSignature ''ECDSA_SHA512'' '''' ''p11prov_ecdsa_sha512_signature_functions'',
      ADD_ECDSASIG,
      UNCHECK [CKM_EC_KEY_PAIR_GEN, CKM_ECDSA_SHA512]]),
    ([CKM_ECDSA_SHA3_224],
     [ADD OpSignature ''ECDSA_SHA3_224'' '''' ''p11prov_ecdsa_sha3_224_signature_functions'',
      ADD_ECDSASIG,
      UNCHECK [CKM_EC_KEY_PAIR_GEN, CKM_ECDSA_SHA3_224]]),
    ([CKM_ECDSA_SHA3_256],
     [ADD OpSignature ''ECDSA_SHA3_256'' '''' ''p11prov_ecdsa_sha3_256_signature_functions'',
      ADD_ECDSASIG,
      UNCHECK [CKM_EC_KEY_PAIR_GEN, CKM_ECDSA_SHA3_256]]),
    ([CKM_ECDSA_SHA3_384],
     [ADD OpSignature ''ECDSA_SHA3_384'' '''' ''p11prov_ecdsa_sha3_384_signature_functions'',
      ADD_ECDSASIG,
      UNCHECK [CKM_EC_KEY_PAIR_GEN, CKM_ECDSA_SHA3_384]]),
    ([CKM_ECDSA_SHA3_512],
     [ADD OpSignature ''ECDSA_SHA3_512'' '''' ''p11prov_ecdsa_sha3_512_signature_functions'',
      ADD_ECDSASIG,
      UNCHECK [CKM_EC_KEY_PAIR_GEN, CKM_ECDSA_SHA3_512]])]
   else [
        ([CKM_ECDSA_SHA1, CKM_ECDSA_SHA224, CKM_ECDSA_SHA256, CKM_ECDSA_SHA384, CKM_ECDSA_SHA512,
        CKM_ECDSA_SHA3_224, CKM_ECDSA_SHA3_256, CKM_ECDSA_SHA3_384, CKM_ECDSA_SHA3_512],
     [ADD_ECDSASIG,
            UNCHECK [CKM_EC_KEY_PAIR_GEN, CKM_ECDSA_SHA1, CKM_ECDSA_SHA224, CKM_ECDSA_SHA256, CKM_ECDSA_SHA384,
          CKM_ECDSA_SHA512, CKM_ECDSA_SHA3_224, CKM_ECDSA_SHA3_256, CKM_ECDSA_SHA3_384, CKM_ECDSA_SHA3_512]])]) @
   [
    ([CKM_ECDH1_DERIVE, CKM_ECDH1_COFACTOR_DERIVE],
     [ADD OpExchange ''ECDH'' '''' ''p11prov_ecdh_exchange_functions'',
      UNCHECK [CKM_EC_KEY_PAIR_GEN, CKM_ECDH1_DERIVE, CKM_ECDH1_COFACTOR_DERIVE]])]"

definition digest_cases :: "mech_case list" where
  "digest_cases = [
    ([CKM_HKDF_DERIVE],
     [ADD OpKdf ''HKDF'' '''' ''p11prov_hkdf_kdf_functions'',
      ADD OpKdf ''TLS13_KDF'' '''' ''p11prov_tls13_kdf_functions'',
      ADD OpExchange ''HKDF'' '''' ''p11prov_hkdf_exchange_functions'',
      UNCHECK [CKM_HKDF_DERIVE]]),
    ([CKM_SHA_1],
     [ADD OpDigest ''SHA1'' '''' ''p11prov_sha1_digest_functions'',
      UNCHECK [CKM_SHA_1]]),
    ([CKM_SHA224],
     [ADD OpDigest ''SHA2_224'' '''' ''p11prov_sha224_digest_functions'',
      UNCHECK [CKM_SHA224]]),
    ([CKM_SHA256],
     [ADD OpDigest ''SHA2_256'' '''' ''p11prov_sha256_digest_functions'',
      UNCHECK [CKM_SHA256]]),
    ([CKM_SHA384],
     [ADD OpDigest ''SHA2_384'' '''' ''p11prov_sha384_digest_functions'',
      UNCHECK [CKM_SHA384]]),
    ([CKM_SHA512],
     [ADD OpDigest ''SHA2_512'' '''' ''p11prov_sha512_digest_functions'',
      UNCHECK [CKM_SHA512]]),
    ([CKM_SHA512_224],
     [ADD OpDigest ''SHA2_512_224'' '''' ''p11prov_sha512_224_digest_functions'',
      UNCHECK [CKM_SHA512_224]]),
    ([CKM_SHA512_256],
     [ADD OpDigest ''SHA2_512_256'' '''' ''p11prov_sha512_256_digest_functions'',
      UNCHECK [CKM_SHA512_256]]),
    ([CKM_SHA3_224],
     [ADD OpDigest ''SHA3_224'' '''' ''p11prov_sha3_224_digest_functions'',
      UNCHECK [CKM_SHA3_224]]),
    ([CKM_SHA3_256],
     [ADD OpDigest ''SHA3_256'' '''' ''p11prov_sha3_256_digest_functions'',
      UNCHECK [CKM_SHA3_256]]),
    ([CKM_SHA3_384],
     [ADD OpDigest ''SHA3_384'' '''' ''p11prov_sha3_384_digest_functions'',
      UNCHECK [CKM_SHA3_384]]),
    ([CKM_SHA3_512],
     [ADD OpDigest ''SHA3_512'' '''' ''p11prov_sha3_512_digest_functions'',
      UNCHECK [CKM_SHA3_512]])]"

definition pqc_cases :: "bool \<Rightarrow> mech_case list" where
  "pqc_cases msg = [
    ([CKM_EDDSA],
     [ADD OpSignature ''ED25519'' '''' ''p11prov_ed25519_signature_functions'',
      ADD OpSignature ''ED448'' '''' ''p11prov_ed448_signature_functions'',
      UNCHECK [CKM_EC_EDWARDS_KEY_PAIR_GEN, CKM_EDDSA]] @
     (if msg then [ADD OpSignature ''ED25519ph'' '''' ''p11prov_ed25519ph_signature_functions'',
      ADD OpSignature ''ED25519ctx'' '''' ''p11prov_ed25519ctx_signature_functions'',
      ADD OpSignature ''ED448ph'' '''' ''p11prov_ed448ph_signature_functions''] else [])),
    ([CKM_ML_DSA, CKM_ML_DSA_KEY_PAIR_GEN],
     [ADD OpSignature ''ML_DSA_44'' '''' ''p11prov_mldsa_44_signature_functions'',
      ADD OpSignature ''ML_DSA_65'' '''' ''p11prov_mldsa_65_signature_functions'',
      ADD OpSignature ''ML_DSA_87'' '''' ''p11prov_mldsa_87_signature_functions'',
      UNCHECK [CKM_ML_DSA_KEY_PAIR_GEN, CKM_ML_DSA]]),
    ([CKM_ML_KEM, CKM_ML_KEM_KEY_PAIR_GEN],
     [ADD OpKem ''ML_KEM_512'' '''' ''p11prov_mlkem_kem_functions'',
      ADD OpKem ''ML_KEM_768'' '''' ''p11prov_mlkem_kem_functions'',
      ADD OpKem ''ML_KEM_1024'' '''' ''p11prov_mlkem_kem_functions'',
      UNCHECK [CKM_ML_KEM_KEY_PAIR_GEN, CKM_ML_KEM]])]"

definition aes_cases :: "mech_case list" where
  "aes_cases = [
    ([CKM_AES_ECB],
     [ADD OpCipher ''AES_256_ECB'' '''' ''p11prov_aes256ecb_cipher_functions'',
      ADD OpCipher ''AES_192_ECB'' '''' ''p11prov_aes192ecb_cipher_functions'',
      ADD OpCipher ''AES_128_ECB'' '''' ''p11prov_aes128ecb_cipher_functions'',
      UNCHECK [CKM_AES_ECB]]),
    ([CKM_AES_CBC, CKM_AES_CBC_PAD],
     [ADD OpCipher ''AES_256_CBC'' '''' ''p11prov_aes256cbc_cipher_functions'',
      ADD OpCipher ''AES_192_CBC'' '''' ''p11prov_aes192cbc_cipher_functions'',
      ADD OpCipher ''AES_128_CBC'' '''' ''p11prov_aes128cbc_cipher_functions'',
      UNCHECK [CKM_AES_CBC],
      UNCHECK [CKM_AES_CBC_PAD]]),
    ([CKM_AES_OFB],
     [ADD OpCipher ''AES_256_OFB'' '''' ''p11prov_aes256ofb_cipher_functions'',
      ADD OpCipher ''AES_192_OFB'' '''' ''p11prov_aes192ofb_cipher_functions'',
      ADD OpCipher ''AES_128_OFB'' '''' ''p11prov_aes128ofb_cipher_functions'',
      UNCHECK [CKM_AES_OFB]]),
    ([CKM_AES_CFB128],
     [ADD OpCipher ''AES_256_CFB'' '''' ''p11prov_aes256cfb_cipher_functions'',
      ADD OpCipher ''AES_192_CFB'' '''' ''p11prov_aes192cfb_cipher_functions'',
      ADD OpCipher ''AES_128_CFB'' '''' ''p11prov_aes128cfb_cipher_functions'',
      UNCHECK [CKM_AES_CFB128]]),
    ([CKM_AES_CFB1],
     [ADD OpCipher ''AES_256_CFB1'' '''' ''p11prov_aes256cfb1_cipher_functions'',
      ADD OpCipher ''AES_192_CFB1'' '''' ''p11prov_aes192cfb1_cipher_functions'',
      ADD OpCipher ''AES_128_CFB1'' '''' ''p11prov_aes128cfb1_cipher_functions'',
      UNCHECK [CKM_AES_CFB1]]),
    ([CKM_AES_CFB8],
     [ADD OpCipher ''AES_256_CFB8'' '''' ''p11prov_aes256cfb8_cipher_functions'',
      ADD OpCipher ''AES_192_CFB8'' '''' ''p11prov_aes192cfb8_cipher_functions'',
      ADD OpCipher ''AES_128_CFB8'' '''' ''p11prov_aes128cfb8_cipher_functions'',
      UNCHECK [CKM_AES_CFB8]]),
    ([CKM_AES_CTR],
     [ADD OpCipher ''AES_256_CTR'' '''' ''p11prov_aes256ctr_cipher_functions'',
      ADD OpCipher ''AES_192_CTR'' '''' ''p11prov_aes192ctr_cipher_functions'',
      ADD OpCipher ''AES_128_CTR'' '''' ''p11prov_aes128ctr_cipher_functions'',
      UNCHECK [CKM_AES_CTR]]),
    ([CKM_AES_CTS],
     [ADD OpCipher ''AES_256_CTS'' '''' ''p11prov_aes256cts_cipher_functions'',
      ADD OpCipher ''AES_192_CTS'' '''' ''p11prov_aes192cts_cipher_functions'',
      ADD OpCipher ''AES_128_CTS'' '''' ''p11prov_aes128cts_cipher_functions'',
      UNCHECK [CKM_AES_CTS]])]"

definition all_cases :: "bool \<Rightarrow> bool \<Rightarrow> mech_case list" where
  "all_cases msg skey = rsa_cases msg @ ec_cases msg @ digest_cases @ pqc_cases msg @ (if skey then aes_cases else [])"

text \<open>The \<^verbatim>\<open>default:\<close> branch only raises an error message.\<close>

definition mech_stmts :: "bool \<Rightarrow> bool \<Rightarrow> CK_MECHANISM_TYPE \<Rightarrow> alg_stmt list" where
  "mech_stmts msg skey m = (case find (\<lambda>(ls, _). m \<in> set ls) (all_cases msg skey) of None \<Rightarrow> [] | Some (_, ss) \<Rightarrow> ss)"

definition checklist :: "bool \<Rightarrow> CK_MECHANISM_TYPE list" where
  "checklist skey = [CKM_RSA_PKCS_KEY_PAIR_GEN] @ RSA_SIG_MECHS @ RSAPSS_SIG_MECHS @ RSA_ENC_MECHS @
     [CKM_EC_KEY_PAIR_GEN] @ ECDSA_SIG_MECHS @ [CKM_ECDH1_DERIVE, CKM_ECDH1_COFACTOR_DERIVE, CKM_HKDF_DERIVE] @
     DIGEST_MECHS @ [CKM_EDDSA] @ PQC_MECHS @ (if skey then AES_MECHS else [])"

subsection \<open>The tables\<close>

text \<open>
  A table is a block of cells; \<open>Junk\<close> is memory that was never written, \<open>End\<close> the entry of NULLs.
\<close>

datatype cell_val = Junk | End | Alg ossl_algorithm

definition ALGOS_ALLOC :: nat where
  "ALGOS_ALLOC = 4"

definition sizeof_algorithm :: nat where
  "sizeof_algorithm = 32"

definition alg_set_op :: "'e p11env \<Rightarrow> cell_val list \<Rightarrow> nat \<Rightarrow> cell_val \<Rightarrow> ('e world, CK_RV \<times> cell_val list) state" where
  "alg_set_op E op idx alg =
     (if idx mod ALGOS_ALLOC = 0 then do {
        ok \<leftarrow> ecall (E_malloc E (sizeof_algorithm * (idx + ALGOS_ALLOC)));
        if \<not> ok then ret (CKR_HOST_MEMORY, op)
        else ret (CKR_OK, (take (idx + ALGOS_ALLOC) op @ replicate (idx + ALGOS_ALLOC - length op) Junk)[idx := alg]) }
      else ret (CKR_OK, op[idx := alg]))"

fun alg_rm_mechs :: "CK_MECHANISM_TYPE list \<Rightarrow> CK_MECHANISM_TYPE list \<Rightarrow> CK_MECHANISM_TYPE list" where
  "alg_rm_mechs [] rmlist = []"
| "alg_rm_mechs (c # cs) rmlist =
     (let t = (if c \<in> set rmlist then CK_UNAVAILABLE_INFORMATION else c)
      in if t \<noteq> CK_UNAVAILABLE_INFORMATION then t # alg_rm_mechs cs rmlist else alg_rm_mechs cs rmlist)"

text \<open>The tables of the context and the local variables of the two functions.\<close>

record ops_state =
  os_op :: "op_id \<Rightarrow> cell_val list"
  os_idx :: "op_id \<Rightarrow> nat"
  os_checklist :: "CK_MECHANISM_TYPE list"
  os_rsasig :: bool
  os_rsaenc :: bool
  os_ecdsasig :: bool

definition get_default_properties :: "p11prov_ctx \<Rightarrow> string" where
  "get_default_properties ctx = (if cx_assume_fips ctx then ''provider=pkcs11,fips=yes'' else ''provider=pkcs11'')"

text \<open>\<open>False\<close> is the \<^verbatim>\<open>return RET_OSSL_ERR\<close> inside the macros.\<close>

definition store_alg :: "'e p11env \<Rightarrow> op_id \<Rightarrow> cell_val \<Rightarrow> ops_state \<Rightarrow> ('e world, bool \<times> ops_state) state" where
  "store_alg E op alg st = do {
     (r, tab) \<leftarrow> alg_set_op E (os_op st op) (os_idx st op) alg;
     let st = st\<lparr>os_op := (os_op st)(op := tab)\<rparr>;
     ret (r = CKR_OK, st) }"

definition add_algo :: "'e p11env \<Rightarrow> op_id \<Rightarrow> ossl_algorithm \<Rightarrow> ops_state \<Rightarrow> ('e world, bool \<times> ops_state) state" where
  "add_algo E op alg st = do {
     (ok, st) \<leftarrow> store_alg E op (Alg alg) st;
     ret (ok, if ok then st\<lparr>os_idx := (os_idx st)(op := os_idx st op + 1)\<rparr> else st) }"

definition term_algo :: "'e p11env \<Rightarrow> op_id \<Rightarrow> ops_state \<Rightarrow> ('e world, bool \<times> ops_state) state" where
  "term_algo E op st = do {
     (ok, st) \<leftarrow> (if os_idx st op > 0 then store_alg E op End st else ret (True, st));
     ret (ok, if ok then st\<lparr>os_idx := (os_idx st)(op := 0)\<rparr> else st) }"

definition exec_stmt :: "'e p11env \<Rightarrow> string \<Rightarrow> alg_stmt \<Rightarrow> ops_state \<Rightarrow> ('e world, bool \<times> ops_state) state" where
  "exec_stmt E prop s st = (case s of
     ADD op name ext impl \<Rightarrow> add_algo E op \<lparr>al_names = name, al_props = prop @ ext, al_impl = impl\<rparr> st
   | UNCHECK ms \<Rightarrow> ret (True, st\<lparr>os_checklist := alg_rm_mechs (os_checklist st) ms\<rparr>)
   | ADD_RSASIG \<Rightarrow> ret (True, st\<lparr>os_rsasig := True\<rparr>)
   | ADD_RSAENC \<Rightarrow> ret (True, st\<lparr>os_rsaenc := True\<rparr>)
   | ADD_ECDSASIG \<Rightarrow> ret (True, st\<lparr>os_ecdsasig := True\<rparr>))"

text \<open>Steps one after the other, up to the first one that returns.\<close>

fun exec_all :: "('s \<Rightarrow> ('w, bool \<times> 's) state) list \<Rightarrow> 's \<Rightarrow> ('w, bool \<times> 's) state" where
  "exec_all [] st = ret (True, st)"
| "exec_all (f # fs) st = do { (ok, st) \<leftarrow> f st; if ok then exec_all fs st else ret (False, st) }"

definition exec_stmts :: "'e p11env \<Rightarrow> string \<Rightarrow> alg_stmt list \<Rightarrow> ops_state \<Rightarrow> ('e world, bool \<times> ops_state) state" where
  "exec_stmts E prop ss = exec_all (map (exec_stmt E prop) ss)"

text \<open>The mechanisms of a slot; an empty checklist ends the loop.\<close>

fun mechs_loop ::
    "'e p11env \<Rightarrow> string \<Rightarrow> bool \<Rightarrow> bool \<Rightarrow> CK_MECHANISM_TYPE list \<Rightarrow> ops_state \<Rightarrow> ('e world, bool \<times> ops_state) state" where
  "mechs_loop E prop msg skey [] st = ret (True, st)"
| "mechs_loop E prop msg skey (m # ms) st =
     (if os_checklist st = [] then ret (True, st)
      else if m \<notin> set (os_checklist st) then mechs_loop E prop msg skey ms st
      else do {
        (ok, st) \<leftarrow> exec_stmts E prop (mech_stmts msg skey m) st;
        if ok then mechs_loop E prop msg skey ms st else ret (False, st) })"

text \<open>After the loop over the slots: the generic entries and the terminations.\<close>

definition generic_stmts :: "ops_state \<Rightarrow> alg_stmt list" where
  "generic_stmts st =
     (if os_rsasig st then [ADD OpSignature ''RSA'' '''' ''p11prov_rsa_signature_functions''] else []) @
     (if os_ecdsasig st then [ADD OpSignature ''ECDSA'' '''' ''p11prov_ecdsa_signature_functions''] else []) @
     (if os_rsaenc st then [ADD OpAsymCipher ''RSA'' '''' ''p11prov_rsa_asym_cipher_functions''] else [])"

definition term_ops :: "bool \<Rightarrow> op_id list" where
  "term_ops skey = [OpDigest, OpKdf, OpExchange, OpSignature, OpAsymCipher, OpKem] @ (if skey then [OpCipher] else [])"

definition init_random :: "'e p11env \<Rightarrow> string \<Rightarrow> ops_state \<Rightarrow> ('e world, bool \<times> ops_state) state" where
  "init_random E prop st = do {
     r \<leftarrow> p11prov_check_random E;
     if r = CKR_OK then
       exec_all [exec_stmt E prop (ADD OpRandom ''RAND'' '''' ''p11prov_rand_functions''), term_algo E OpRandom] st
     else ret (True, st) }"

definition start_state :: "(op_id \<Rightarrow> cell_val list) \<Rightarrow> CK_MECHANISM_TYPE list \<Rightarrow> ops_state" where
  "start_state op cl = \<lparr>os_op = op, os_idx = (\<lambda>_. 0), os_checklist = cl, os_rsasig = False, os_rsaenc = False,
     os_ecdsasig = False\<rparr>"

text \<open>
  The result is the code, with 0 for \<^verbatim>\<open>RET_OSSL_ERR\<close>, and the tables. When an entry cannot be
  stored inside the loop, the slots are not released.
\<close>

definition operations_init ::
    "'e p11env \<Rightarrow> bool \<Rightarrow> bool \<Rightarrow> (op_id \<Rightarrow> cell_val list) \<Rightarrow> ('e world, CK_RV \<times> (op_id \<Rightarrow> cell_val list)) state" where
  "operations_init E msg skey op = do {
     prop \<leftarrow> gets (\<lambda>w. get_default_properties (w_ctx w));
     r \<leftarrow> p11prov_take_slots E;
     if r \<noteq> CKR_OK then ret (r, op)
     else do {
       slots \<leftarrow> gets slots_list;
       (ok, st) \<leftarrow> exec_all (map (\<lambda>s. mechs_loop E prop msg skey (slot_mechs s)) slots) (start_state op (checklist skey));
       if \<not> ok then ret (0, os_op st)
       else do {
         p11prov_return_slots E;
         (ok, st) \<leftarrow> exec_stmts E prop (generic_stmts st) st;
         if \<not> ok then ret (0, os_op st)
         else do {
           (ok, st) \<leftarrow> exec_all (map (term_algo E) (term_ops skey)) st;
           if \<not> ok then ret (0, os_op st)
           else do {
             (ok, st) \<leftarrow> init_random E prop st;
             ret (if ok then CKR_OK else 0, os_op st) } } } } }"

subsection \<open>The static tables\<close>

definition DER_DECODER_PROP :: string where
  "DER_DECODER_PROP = '',input=der,structure=pk11-uri''"

definition encoder_stmts :: "alg_stmt list" where
  "encoder_stmts = [
    ADD OpEncoder ''RSA'' '',output=text'' ''p11prov_rsa_encoder_text_functions'',
    ADD OpEncoder ''RSA'' '',output=der,structure=pkcs1'' ''p11prov_rsa_encoder_pkcs1_der_functions'',
    ADD OpEncoder ''RSA'' '',output=pem,structure=pkcs1'' ''p11prov_rsa_encoder_pkcs1_pem_functions'',
    ADD OpEncoder ''RSA'' '',output=der,structure=SubjectPublicKeyInfo'' ''p11prov_rsa_encoder_spki_der_functions'',
    ADD OpEncoder ''RSA'' '',output=pem,structure=SubjectPublicKeyInfo'' ''p11prov_rsa_encoder_spki_pem_functions'',
    ADD OpEncoder ''RSAPSS'' '',output=text'' ''p11prov_rsa_encoder_text_functions'',
    ADD OpEncoder ''RSAPSS'' '',output=der,structure=pkcs1'' ''p11prov_rsa_encoder_pkcs1_der_functions'',
    ADD OpEncoder ''RSAPSS'' '',output=pem,structure=pkcs1'' ''p11prov_rsa_encoder_pkcs1_pem_functions'',
    ADD OpEncoder ''RSAPSS'' '',output=der,structure=SubjectPublicKeyInfo'' ''p11prov_rsa_encoder_spki_der_functions'',
    ADD OpEncoder ''RSAPSS'' '',output=pem,structure=SubjectPublicKeyInfo'' ''p11prov_rsa_encoder_spki_pem_functions'',
    ADD OpEncoder ''EC'' '',output=text'' ''p11prov_ec_encoder_text_functions'',
    ADD OpEncoder ''EC'' '',output=der,structure=pkcs1'' ''p11prov_ec_encoder_pkcs1_der_functions'',
    ADD OpEncoder ''EC'' '',output=pem,structure=pkcs1'' ''p11prov_ec_encoder_pkcs1_pem_functions'',
    ADD OpEncoder ''EC'' '',output=der,structure=SubjectPublicKeyInfo'' ''p11prov_ec_encoder_spki_der_functions'',
    ADD OpEncoder ''ED25519'' '',output=text'' ''p11prov_ec_edwards_encoder_text_functions'',
    ADD OpEncoder ''ED448'' '',output=text'' ''p11prov_ec_edwards_encoder_text_functions'',
    ADD OpEncoder ''ML_DSA_44'' '',output=text'' ''p11prov_mldsa_encoder_text_functions'',
    ADD OpEncoder ''ML_DSA_44'' '',output=der,structure=SubjectPublicKeyInfo'' ''p11prov_mldsa_encoder_spki_der_functions'',
    ADD OpEncoder ''ML_DSA_65'' '',output=text'' ''p11prov_mldsa_encoder_text_functions'',
    ADD OpEncoder ''ML_DSA_65'' '',output=der,structure=SubjectPublicKeyInfo'' ''p11prov_mldsa_encoder_spki_der_functions'',
    ADD OpEncoder ''ML_DSA_87'' '',output=text'' ''p11prov_mldsa_encoder_text_functions'',
    ADD OpEncoder ''ML_DSA_87'' '',output=der,structure=SubjectPublicKeyInfo'' ''p11prov_mldsa_encoder_spki_der_functions'',
    ADD OpEncoder ''ML_KEM_512'' '',output=text'' ''p11prov_mlkem_encoder_text_functions'',
    ADD OpEncoder ''ML_KEM_512'' '',output=der,structure=SubjectPublicKeyInfo'' ''p11prov_mlkem_encoder_spki_der_functions'',
    ADD OpEncoder ''ML_KEM_768'' '',output=text'' ''p11prov_mlkem_encoder_text_functions'',
    ADD OpEncoder ''ML_KEM_768'' '',output=der,structure=SubjectPublicKeyInfo'' ''p11prov_mlkem_encoder_spki_der_functions'',
    ADD OpEncoder ''ML_KEM_1024'' '',output=text'' ''p11prov_mlkem_encoder_text_functions'',
    ADD OpEncoder ''ML_KEM_1024'' '',output=der,structure=SubjectPublicKeyInfo'' ''p11prov_mlkem_encoder_spki_der_functions'']"

definition uri_encoder_stmts :: "alg_stmt list" where
  "uri_encoder_stmts = [
    ADD OpEncoder ''RSA'' '',output=pem,structure=PrivateKeyInfo'' ''p11prov_rsa_encoder_priv_key_info_pem_functions'',
    ADD OpEncoder ''RSAPSS'' '',output=pem,structure=PrivateKeyInfo'' ''p11prov_rsa_encoder_priv_key_info_pem_functions'',
    ADD OpEncoder ''EC'' '',output=pem,structure=PrivateKeyInfo'' ''p11prov_ec_encoder_priv_key_info_pem_functions'',
    ADD OpEncoder ''ED25519'' '',output=pem,structure=PrivateKeyInfo'' ''p11prov_ec_edwards_encoder_priv_key_info_pem_functions'',
    ADD OpEncoder ''ED448'' '',output=pem,structure=PrivateKeyInfo'' ''p11prov_ec_edwards_encoder_priv_key_info_pem_functions'',
    ADD OpEncoder ''ML_DSA_44'' '',output=pem,structure=PrivateKeyInfo'' ''p11prov_mldsa_encoder_priv_key_info_pem_functions'',
    ADD OpEncoder ''ML_DSA_65'' '',output=pem,structure=PrivateKeyInfo'' ''p11prov_mldsa_encoder_priv_key_info_pem_functions'',
    ADD OpEncoder ''ML_DSA_87'' '',output=pem,structure=PrivateKeyInfo'' ''p11prov_mldsa_encoder_priv_key_info_pem_functions'',
    ADD OpEncoder ''ML_KEM_512'' '',output=pem,structure=PrivateKeyInfo'' ''p11prov_mlkem_encoder_priv_key_info_pem_functions'',
    ADD OpEncoder ''ML_KEM_768'' '',output=pem,structure=PrivateKeyInfo'' ''p11prov_mlkem_encoder_priv_key_info_pem_functions'',
    ADD OpEncoder ''ML_KEM_1024'' '',output=pem,structure=PrivateKeyInfo'' ''p11prov_mlkem_encoder_priv_key_info_pem_functions'']"

definition decoder_stmts :: "alg_stmt list" where
  "decoder_stmts = [
    ADD OpDecoder ''DER'' '',input=pem'' ''p11prov_pem_decoder_p11prov_der_functions'',
    ADD OpDecoder ''RSA'' DER_DECODER_PROP ''p11prov_der_decoder_p11prov_rsa_functions'',
    ADD OpDecoder ''RSAPSS'' DER_DECODER_PROP ''p11prov_der_decoder_p11prov_rsa_functions'',
    ADD OpDecoder ''EC'' DER_DECODER_PROP ''p11prov_der_decoder_p11prov_ec_functions'',
    ADD OpDecoder ''ED25519'' DER_DECODER_PROP ''p11prov_der_decoder_p11prov_ed25519_functions'',
    ADD OpDecoder ''ED448'' DER_DECODER_PROP ''p11prov_der_decoder_p11prov_ed448_functions'']"

definition store_stmts :: "alg_stmt list" where
  "store_stmts = [
    ADD OpStore ''URI'' '''' ''p11prov_store_functions'']"

definition keymgmt_stmts :: "alg_stmt list" where
  "keymgmt_stmts = [
    ADD OpKeymgmt ''RSA'' '''' ''p11prov_rsa_keymgmt_functions'',
    ADD OpKeymgmt ''RSAPSS'' '''' ''p11prov_rsapss_keymgmt_functions'',
    ADD OpKeymgmt ''EC'' '''' ''p11prov_ec_keymgmt_functions'',
    ADD OpKeymgmt ''HKDF'' '''' ''p11prov_hkdf_keymgmt_functions'',
    ADD OpKeymgmt ''ED25519'' '''' ''p11prov_ed25519_keymgmt_functions'',
    ADD OpKeymgmt ''ED448'' '''' ''p11prov_ed448_keymgmt_functions'',
    ADD OpKeymgmt ''ML_DSA_44'' '''' ''p11prov_mldsa44_keymgmt_functions'',
    ADD OpKeymgmt ''ML_DSA_65'' '''' ''p11prov_mldsa65_keymgmt_functions'',
    ADD OpKeymgmt ''ML_DSA_87'' '''' ''p11prov_mldsa87_keymgmt_functions'',
    ADD OpKeymgmt ''ML_KEM_512'' '''' ''p11prov_mlkem512_keymgmt_functions'',
    ADD OpKeymgmt ''ML_KEM_768'' '''' ''p11prov_mlkem768_keymgmt_functions'',
    ADD OpKeymgmt ''ML_KEM_1024'' '''' ''p11prov_mlkem1024_keymgmt_functions'']"

definition skeymgmt_stmts :: "alg_stmt list" where
  "skeymgmt_stmts = [
    ADD OpSkeymgmt ''AES'' '''' ''p11prov_aes_skeymgmt_functions'',
    ADD OpSkeymgmt ''GENERIC_SECRET'' '''' ''p11prov_generic_secret_skeymgmt_functions'']"

text \<open>The statements of one table and its termination.\<close>

definition alg_group :: "'e p11env \<Rightarrow> string \<Rightarrow> alg_stmt list \<Rightarrow> op_id \<Rightarrow> (ops_state \<Rightarrow> ('e world, bool \<times> ops_state) state) list" where
  "alg_group E prop ss op = map (exec_stmt E prop) ss @ [term_algo E op]"

definition static_operations_init ::
    "'e p11env \<Rightarrow> bool \<Rightarrow> (op_id \<Rightarrow> cell_val list) \<Rightarrow> ('e world, CK_RV \<times> (op_id \<Rightarrow> cell_val list)) state" where
  "static_operations_init E skey op = do {
     ctx \<leftarrow> gets w_ctx;
     let prop = get_default_properties ctx;
     (ok, st) \<leftarrow> exec_all
       (alg_group E prop (encoder_stmts @ (if cx_encode_pkey_as_pk11_uri ctx then uri_encoder_stmts else [])) OpEncoder @
        alg_group E prop decoder_stmts OpDecoder @ alg_group E prop store_stmts OpStore @
        alg_group E prop keymgmt_stmts OpKeymgmt @
        (if skey then alg_group E prop skeymgmt_stmts OpSkeymgmt else [])) (start_state op []);
     ret (if ok then CKR_OK else 0, os_op st) }"

subsection \<open>Queries\<close>

text \<open>The operation identifiers of OpenSSL's \<^verbatim>\<open>core_dispatch.h\<close>.\<close>

abbreviation OSSL_OP_DIGEST :: nat where "OSSL_OP_DIGEST \<equiv> 1"
abbreviation OSSL_OP_CIPHER :: nat where "OSSL_OP_CIPHER \<equiv> 2"
abbreviation OSSL_OP_MAC :: nat where "OSSL_OP_MAC \<equiv> 3"
abbreviation OSSL_OP_KDF :: nat where "OSSL_OP_KDF \<equiv> 4"
abbreviation OSSL_OP_RAND :: nat where "OSSL_OP_RAND \<equiv> 5"
abbreviation OSSL_OP_KEYMGMT :: nat where "OSSL_OP_KEYMGMT \<equiv> 10"
abbreviation OSSL_OP_KEYEXCH :: nat where "OSSL_OP_KEYEXCH \<equiv> 11"
abbreviation OSSL_OP_SIGNATURE :: nat where "OSSL_OP_SIGNATURE \<equiv> 12"
abbreviation OSSL_OP_ASYM_CIPHER :: nat where "OSSL_OP_ASYM_CIPHER \<equiv> 13"
abbreviation OSSL_OP_KEM :: nat where "OSSL_OP_KEM \<equiv> 14"
abbreviation OSSL_OP_SKEYMGMT :: nat where "OSSL_OP_SKEYMGMT \<equiv> 15"
abbreviation OSSL_OP_ENCODER :: nat where "OSSL_OP_ENCODER \<equiv> 20"
abbreviation OSSL_OP_DECODER :: nat where "OSSL_OP_DECODER \<equiv> 21"
abbreviation OSSL_OP_STORE :: nat where "OSSL_OP_STORE \<equiv> 22"
abbreviation OSSL_OP_HIGHEST :: nat where "OSSL_OP_HIGHEST \<equiv> 22"

definition query_table :: "bool \<Rightarrow> nat \<Rightarrow> op_id option" where
  "query_table skey n =
     map_of ([(OSSL_OP_DIGEST, OpDigest), (OSSL_OP_KDF, OpKdf), (OSSL_OP_RAND, OpRandom),
       (OSSL_OP_KEYMGMT, OpKeymgmt), (OSSL_OP_KEYEXCH, OpExchange), (OSSL_OP_SIGNATURE, OpSignature),
       (OSSL_OP_ASYM_CIPHER, OpAsymCipher), (OSSL_OP_KEM, OpKem), (OSSL_OP_ENCODER, OpEncoder),
       (OSSL_OP_DECODER, OpDecoder), (OSSL_OP_STORE, OpStore)] @
       (if skey then [(OSSL_OP_CIPHER, OpCipher), (OSSL_OP_SKEYMGMT, OpSkeymgmt)] else [])) n"

text \<open>The result is the table and \<open>no_cache\<close>; NULL is an empty block.\<close>

definition p11prov_query_operation ::
    "bool \<Rightarrow> p11prov_ctx \<Rightarrow> (op_id \<Rightarrow> cell_val list) \<Rightarrow> nat \<Rightarrow> cell_val list \<times> bool" where
  "p11prov_query_operation skey ctx op operation_id =
     (if operation_id > OSSL_OP_HIGHEST then ([], False)
      else if operation_id \<in> set (cx_blocked_ops ctx) then ([], False)
      else case query_table skey operation_id of
        None \<Rightarrow> ([], False)
      | Some t \<Rightarrow> (op t, t \<in> set [OpDigest, OpKdf, OpRandom, OpExchange, OpSignature, OpAsymCipher, OpKem] \<and>
                     cx_status ctx = P11PROV_UNINITIALIZED))"

section \<open>What the statements do\<close>

fun alg_of :: "string \<Rightarrow> op_id \<Rightarrow> alg_stmt \<Rightarrow> ossl_algorithm list" where
  "alg_of prop op (ADD op' name ext impl) =
     (if op' = op then [\<lparr>al_names = name, al_props = prop @ ext, al_impl = impl\<rparr>] else [])"
| "alg_of prop op _ = []"

definition algs :: "string \<Rightarrow> op_id \<Rightarrow> alg_stmt list \<Rightarrow> ossl_algorithm list" where
  "algs prop op ss = concat (map (alg_of prop op) ss)"

fun uncheck_list :: "alg_stmt \<Rightarrow> CK_MECHANISM_TYPE list" where
  "uncheck_list (UNCHECK ms) = ms"
| "uncheck_list _ = []"

definition unchecks :: "alg_stmt list \<Rightarrow> CK_MECHANISM_TYPE list" where
  "unchecks ss = concat (map uncheck_list ss)"

lemma algs_simps [simp]: "algs prop op [] = []" "algs prop op (s # ss) = alg_of prop op s @ algs prop op ss"
  "algs prop op (ss @ ss') = algs prop op ss @ algs prop op ss'"
  by (simp_all add: algs_def)

lemma unchecks_simps [simp]: "unchecks [] = []" "unchecks (s # ss) = uncheck_list s @ unchecks ss"
  "unchecks (ss @ ss') = unchecks ss @ unchecks ss'"
  by (simp_all add: unchecks_def)

fun is_ADD :: "alg_stmt \<Rightarrow> bool" where
  "is_ADD (ADD _ _ _ _) = True"
| "is_ADD _ = False"

text \<open>
  The effects that no other case may lose: registrations, the flag of ECDSA, and the flag of RSA signatures
  when a mechanism other than \<open>CKM_RSA_PKCS\<close> sets it (see \<open>rsa_signature_lost\<close>).
\<close>

definition effect :: "CK_MECHANISM_TYPE \<Rightarrow> alg_stmt \<Rightarrow> bool" where
  "effect m s \<longleftrightarrow> is_ADD s \<or> s = ADD_ECDSASIG \<or> s = ADD_RSASIG \<and> m \<noteq> CKM_RSA_PKCS"

text \<open>The mechanisms whose case is executed, in order.\<close>

fun processed :: "(CK_MECHANISM_TYPE \<Rightarrow> alg_stmt list) \<Rightarrow> CK_MECHANISM_TYPE list \<Rightarrow> CK_MECHANISM_TYPE list \<Rightarrow> CK_MECHANISM_TYPE list" where
  "processed f cl [] = []"
| "processed f cl (m # ms) =
     (if m \<in> set cl then m # processed f (filter (\<lambda>c. c \<notin> set (unchecks (f m))) cl) ms else processed f cl ms)"

lemma processed_subset: "set (processed f cl ms) \<subseteq> set ms \<inter> set cl"
  by (induction f cl ms rule: processed.induct) auto

section \<open>A switch that loses nothing\<close>

text \<open>
  The contract of the \<^verbatim>\<open>switch\<close>: every case unchecks its own mechanism; it unchecks another checked
  mechanism only when the effects of that one are among its own; and an algorithm that two cases
  register is unchecked by each of them for the other.
\<close>

locale mech_switch =
  fixes stmts :: "CK_MECHANISM_TYPE \<Rightarrow> alg_stmt list" and cl0 :: "CK_MECHANISM_TYPE list"
  assumes self: "m \<in> set cl0 \<Longrightarrow> m \<in> set (unchecks (stmts m))"
    and covers: "m \<in> set cl0 \<Longrightarrow> m' \<in> set cl0 \<Longrightarrow> m' \<in> set (unchecks (stmts m)) \<Longrightarrow>
       s \<in> set (stmts m') \<Longrightarrow> effect m' s \<Longrightarrow> s \<in> set (stmts m)"
    and once: "m \<in> set cl0 \<Longrightarrow> m' \<in> set cl0 \<Longrightarrow> s \<in> set (stmts m) \<Longrightarrow> s \<in> set (stmts m') \<Longrightarrow> is_ADD s \<Longrightarrow>
       m' \<in> set (unchecks (stmts m))"
    and no_repeat: "m \<in> set cl0 \<Longrightarrow> distinct (filter is_ADD (stmts m))"
begin

lemma processed_covers:
  "m \<in> set ms \<Longrightarrow> m \<in> set cl \<Longrightarrow> \<exists>d \<in> set (processed stmts cl ms). d = m \<or> m \<in> set (unchecks (stmts d))"
  by (induction cl ms rule: processed.induct [of _ stmts]) (auto split: if_splits)

lemma effects_kept:
  assumes "m \<in> set ms" and "m \<in> set cl0" and "s \<in> set (stmts m)" and "effect m s"
  shows "\<exists>d \<in> set (processed stmts cl0 ms). s \<in> set (stmts d)"
proof -
  obtain d where d: "d \<in> set (processed stmts cl0 ms)" "d = m \<or> m \<in> set (unchecks (stmts d))"
    using processed_covers [OF assms(1,2)] by blast
  moreover have "d \<in> set cl0" using d(1) processed_subset [of stmts cl0 ms] by blast
  ultimately show ?thesis using covers [OF _ assms(2) _ assms(3,4)] assms(3) by blast
qed

lemma processed_once:
  "set cl \<subseteq> set cl0 \<Longrightarrow> distinct (filter is_ADD (concat (map stmts (processed stmts cl ms))))"
proof (induction ms arbitrary: cl)
  case (Cons m ms)
  let ?cl = "filter (\<lambda>c. c \<notin> set (unchecks (stmts m))) cl"
  show ?case
  proof (cases "m \<in> set cl")
    case True
    then have m: "m \<in> set cl0" using Cons.prems by blast
    have "s \<notin> set (stmts d)" if "s \<in> set (stmts m)" "is_ADD s" "d \<in> set (processed stmts ?cl ms)" for s d
    proof -
      have "d \<in> set cl0" "d \<notin> set (unchecks (stmts m))"
        using that(3) processed_subset [of stmts ?cl ms] Cons.prems by auto
      then show ?thesis using once [OF m, of d s] that by blast
    qed
    then show ?thesis using True no_repeat [OF m] Cons.IH [of ?cl] Cons.prems by auto
  qed (use Cons in auto)
qed simp

end

section \<open>The provider's switch meets the contract\<close>

text \<open>The contract is checked case by case: the labels without effects can be unchecked by anybody.\<close>

definition effectless :: "mech_case list \<Rightarrow> CK_MECHANISM_TYPE list" where
  "effectless cs = concat (map fst (filter (\<lambda>(ls, ss). \<not> list_ex (\<lambda>l. list_ex (effect l) ss) ls) cs))"

text \<open>The checks compute on the integers the mechanisms stand for.\<close>

definition contains :: "int list \<Rightarrow> int list \<Rightarrow> bool" where
  "contains ks ls \<longleftrightarrow> list_all (\<lambda>k. k \<in> set ls) ks"

definition cases_ok :: "(int list \<times> int list) list \<Rightarrow> int list \<Rightarrow> bool" where
  "cases_ok cs free \<longleftrightarrow> list_all (\<lambda>(ls, us). contains ls us \<and> contains us (ls @ free)) cs"

definition case_keys :: "mech_case list \<Rightarrow> (int list \<times> int list) list" where
  "case_keys cs = map (\<lambda>(ls, ss). (map uint ls, map uint (unchecks ss))) cs"

definition labels :: "bool \<Rightarrow> bool \<Rightarrow> CK_MECHANISM_TYPE list" where
  "labels msg skey = concat (map fst (all_cases msg skey))"

lemma contains_uint [simp]: "contains (map uint xs) (map uint ys) \<longleftrightarrow> set xs \<subseteq> set ys"
  by (auto simp: contains_def list_all_iff image_iff) (metis unsigned_word_eqI)

lemma cases_ok_iff:
  "cases_ok (case_keys cs) (map uint free) \<longleftrightarrow>
     (\<forall>(ls, ss) \<in> set cs. set ls \<subseteq> set (unchecks ss) \<and> set (unchecks ss) \<subseteq> set ls \<union> set free)"
  by (simp add: cases_ok_def case_keys_def list_all_iff case_prod_beta flip: map_append)

lemma labels_distinct: "distinct (map uint (labels msg skey))"
  by (induction msg; induction skey; code_simp)

lemma adds_distinct: "distinct (concat (map (\<lambda>(_, ss). filter is_ADD ss) (all_cases msg skey)))"
  by (induction msg; induction skey; code_simp)

lemma all_handled: "contains (map uint (checklist skey)) (map uint (labels msg skey))"
  by (induction msg; induction skey; code_simp)

lemma all_cases_ok:
  "cases_ok (case_keys (all_cases msg skey)) (map uint (CKM_EC_EDWARDS_KEY_PAIR_GEN # effectless (all_cases msg skey)))"
  by (induction msg; induction skey; code_simp)

lemma not_checked: "CKM_EC_EDWARDS_KEY_PAIR_GEN \<notin> set (labels msg skey) \<and> CK_UNAVAILABLE_INFORMATION \<notin> set (checklist skey)"
  by (induction msg; induction skey; code_simp)

lemma find_case:
  "distinct (concat (map fst cs)) \<Longrightarrow> (ls, ss) \<in> set cs \<Longrightarrow> m \<in> set ls \<Longrightarrow> find (\<lambda>(ls, _). m \<in> set ls) cs = Some (ls, ss)"
proof (induction cs)
  case (Cons c cs)
  then have "m \<notin> set (fst c)" if "(ls, ss) \<in> set cs" using that by (force simp: disjoint_iff)
  then show ?case using Cons by (auto split: prod.split)
qed simp

lemma mech_stmts_eq: "(ls, ss) \<in> set (all_cases msg skey) \<Longrightarrow> m \<in> set ls \<Longrightarrow> mech_stmts msg skey m = ss"
  using find_case [of "all_cases msg skey" ls ss m] labels_distinct [of msg skey]
  by (auto simp: mech_stmts_def labels_def distinct_map)

lemma checked_case:
  assumes "m \<in> set (checklist skey)"
  obtains ls ss where "(ls, ss) \<in> set (all_cases msg skey)" and "m \<in> set ls" and "mech_stmts msg skey m = ss"
proof -
  have "m \<in> set (labels msg skey)" using all_handled [of skey msg] assms by auto
  then obtain ls ss where "(ls, ss) \<in> set (all_cases msg skey)" "m \<in> set ls" by (auto simp: labels_def)
  with that mech_stmts_eq show ?thesis by blast
qed

lemma case_checked:
  assumes "(ls, ss) \<in> set (all_cases msg skey)"
  shows "set ls \<subseteq> set (unchecks ss)"
    and "set (unchecks ss) \<subseteq> set ls \<union> set (CKM_EC_EDWARDS_KEY_PAIR_GEN # effectless (all_cases msg skey))"
  using all_cases_ok [of msg skey, unfolded cases_ok_iff] assms by auto

lemma case_adds:
  assumes "(ls, ss) \<in> set (all_cases msg skey)" and "(ls', ss') \<in> set (all_cases msg skey)"
    and "s \<in> set ss" and "s \<in> set ss'" and "is_ADD s"
  shows "ls = ls' \<and> ss = ss'"
proof -
  have "(ls, ss) = (ls', ss')" if "distinct (concat (map (\<lambda>(_, ss). filter is_ADD ss) cs))"
    "(ls, ss) \<in> set cs" "(ls', ss') \<in> set cs" for cs
    using that
  proof (induction cs)
    case (Cons c cs)
    have "s \<notin> set ss''" if "(ls'', ss'') \<in> set cs" "s \<in> set (snd c)" for ls'' ss''
      using Cons.prems(1) that assms(5) by (force simp: case_prod_beta)
    then show ?case using Cons assms(3,4) by (cases c) auto
  qed simp
  then show ?thesis using adds_distinct assms(1,2) by blast
qed

interpretation sw: mech_switch "mech_stmts msg skey" "checklist skey" for msg skey
proof
  fix m m' s
  assume m: "m \<in> set (checklist skey)"
  obtain ls ss where c: "(ls, ss) \<in> set (all_cases msg skey)" "m \<in> set ls" "mech_stmts msg skey m = ss"
    using checked_case [OF m] by blast
  show "m \<in> set (unchecks (mech_stmts msg skey m))" using case_checked(1) [OF c(1)] c by blast
  show "distinct (filter is_ADD (mech_stmts msg skey m))"
    using adds_distinct [of msg skey] c by (auto simp: distinct_concat_iff)
  assume m': "m' \<in> set (checklist skey)"
  obtain ls' ss' where c': "(ls', ss') \<in> set (all_cases msg skey)" "m' \<in> set ls'" "mech_stmts msg skey m' = ss'"
    using checked_case [OF m'] by blast
  show "m' \<in> set (unchecks (mech_stmts msg skey m))"
    if "s \<in> set (mech_stmts msg skey m)" "s \<in> set (mech_stmts msg skey m')" "is_ADD s"
    using case_adds [OF c(1) c'(1)] that c c' case_checked(1) [OF c(1)] by auto
  show "s \<in> set (mech_stmts msg skey m)"
    if u: "m' \<in> set (unchecks (mech_stmts msg skey m))" and s: "s \<in> set (mech_stmts msg skey m')" "effect m' s"
  proof -
    have "m' \<noteq> CKM_EC_EDWARDS_KEY_PAIR_GEN" using not_checked [of msg skey] all_handled [of skey msg] m' by auto
    moreover have "m' \<notin> set (effectless (all_cases msg skey))"
      using s mech_stmts_eq [of _ _ msg skey m'] by (auto simp: effectless_def list_ex_iff)
    ultimately have "m' \<in> set ls" using case_checked(2) [OF c(1)] u c(3) by auto
    then show ?thesis using mech_stmts_eq [OF c(1)] s(1) c(3) by simp
  qed
qed


end
