(* ===== verification/P11_Register.thy ===== *)
theory P11_Register
  imports P11_Algos
begin

text \<open>
  What \<open>operations_init\<close> registers. The writes to the tables are shown to implement appending to a list and a
  final terminator, every write inside the allocated block; the loop over the mechanisms is shown to execute
  the cases of \<open>processed\<close>, to which the contract of the \<^verbatim>\<open>switch\<close> applies.
\<close>

section \<open>Tables as lists\<close>

text \<open>The table of an operation while it is filled, and when it is closed; no entries leave the NULL pointer.\<close>

definition fills :: "ossl_algorithm list \<Rightarrow> nat \<Rightarrow> cell_val list \<Rightarrow> bool" where
  "fills as n cells \<longleftrightarrow> n = length as \<and> length cells = (length as + 3) div 4 * 4 \<and> take (length as) cells = map Alg as"

abbreviation filling1 :: "(op_id \<Rightarrow> ossl_algorithm list) \<Rightarrow> ops_state \<Rightarrow> op_id \<Rightarrow> bool" where
  "filling1 regs st op \<equiv> fills (regs op) (os_idx st op) (os_op st op)"

definition filling :: "(op_id \<Rightarrow> ossl_algorithm list) \<Rightarrow> ops_state \<Rightarrow> bool" where
  "filling regs st \<longleftrightarrow> (\<forall>op. filling1 regs st op)"

lemma fills_Nil: "fills [] n cells \<longleftrightarrow> n = 0 \<and> cells = []"
  by (auto simp: fills_def)

definition closed :: "ossl_algorithm list \<Rightarrow> cell_val list \<Rightarrow> bool" where
  "closed as cells \<longleftrightarrow> (if as = [] then cells = [] else \<exists>rest. cells = map Alg as @ End # rest)"

lemma store_cells:
  assumes "length t = (n + 3) div 4 * 4" and "t' = (if n mod 4 = 0 then (take (n + 4) t @ replicate (n + 4 - length t) Junk)[n := c] else t[n := c])"
  shows "length t' = (n + 4) div 4 * 4" and "take (Suc n) t' = take n t @ [c]" and "n < length t'"
proof -
  have "length t = n" if "n mod 4 = 0" using assms(1) that by presburger
  moreover have "n < length t" "(n + 3) div 4 = (n + 4) div 4" if "n mod 4 \<noteq> 0" using assms(1) that by presburger+
  ultimately show "length t' = (n + 4) div 4 * 4" "n < length t'" using assms by (auto split: if_splits)
  then show "take (Suc n) t' = take n t @ [c]"
    using assms \<open>n mod 4 = 0 \<Longrightarrow> length t = n\<close> by (auto simp: take_Suc_conv_app_nth split: if_splits)
qed

lemma wp_store_alg:
  assumes mem: "\<And>n e. fst (E_malloc E n e)" and "filling1 regs st op"
  shows "wp (store_alg E op c st) (\<lambda>(ok, st') _. ok \<and> (\<exists>t. st' = st\<lparr>os_op := (os_op st)(op := t)\<rparr> \<and>
     length t = (length (regs op) + 4) div 4 * 4 \<and> take (Suc (length (regs op))) t = map Alg (regs op) @ [c])) w"
proof -
  let ?n = "length (regs op)" and ?t = "os_op st op"
  have m: "E_malloc E n e = (b, e') \<Longrightarrow> b" for n e b e' using mem [of n e] by simp
  have t: "length ?t = (?n + 3) div 4 * 4" "take ?n ?t = map Alg (regs op)" "os_idx st op = ?n"
    using assms(2) by (simp_all add: fills_def)
  show ?thesis using store_cells [OF t(1) refl, of c] t(2,3)
    by (auto simp: store_alg_def alg_set_op_def ALGOS_ALLOC_def wp_simps wp_ecall split: prod.split dest!: m)
qed

lemma filling_append:
  assumes "filling regs st" and "length t = (length (regs op) + 4) div 4 * 4"
    and "take (Suc (length (regs op))) t = map Alg (regs op) @ [Alg a]"
  shows "filling (regs(op := regs op @ [a])) (st\<lparr>os_op := (os_op st)(op := t), os_idx := (os_idx st)(op := Suc (os_idx st op))\<rparr>)"
  using assms by (simp add: filling_def fills_def)

text \<open>The state after a list of statements.\<close>

definition after :: "string \<Rightarrow> alg_stmt list \<Rightarrow> (op_id \<Rightarrow> ossl_algorithm list) \<Rightarrow> ops_state \<Rightarrow> ops_state \<Rightarrow> bool" where
  "after prop ss regs st st' \<longleftrightarrow> filling (\<lambda>op. regs op @ algs prop op ss) st' \<and>
     os_checklist st' = filter (\<lambda>c. c \<notin> set (unchecks ss)) (os_checklist st) \<and>
     (os_rsasig st' \<longleftrightarrow> os_rsasig st \<or> ADD_RSASIG \<in> set ss) \<and> (os_rsaenc st' \<longleftrightarrow> os_rsaenc st \<or> ADD_RSAENC \<in> set ss) \<and>
     (os_ecdsasig st' \<longleftrightarrow> os_ecdsasig st \<or> ADD_ECDSASIG \<in> set ss)"

abbreviation clean :: "ops_state \<Rightarrow> bool" where
  "clean st \<equiv> CK_UNAVAILABLE_INFORMATION \<notin> set (os_checklist st)"

lemma after_Nil [simp]: "after prop [] regs st st \<longleftrightarrow> filling regs st"
  by (simp add: after_def)

lemma after_clean: "after prop ss regs st st' \<Longrightarrow> clean st \<Longrightarrow> clean st'"
  by (simp add: after_def)

lemma after_filling: "after prop ss regs st st' \<Longrightarrow> filling (\<lambda>op. regs op @ algs prop op ss) st'"
  by (simp add: after_def)

lemma after_append:
  "after prop ss regs st st1 \<Longrightarrow> after prop ss' (\<lambda>op. regs op @ algs prop op ss) st1 st2 \<Longrightarrow> after prop (ss @ ss') regs st st2"
  by (auto simp: after_def)

lemma alg_rm_mechs_filter:
  "CK_UNAVAILABLE_INFORMATION \<notin> set cl \<Longrightarrow> alg_rm_mechs cl rm = filter (\<lambda>c. c \<notin> set rm) cl"
  by (induction cl) (auto simp: Let_def)

text \<open>A step that is not left early and has the effect of a list of statements.\<close>

definition ran :: "string \<Rightarrow> alg_stmt list \<Rightarrow> (op_id \<Rightarrow> ossl_algorithm list) \<Rightarrow> ops_state \<Rightarrow> bool \<times> ops_state \<Rightarrow> bool" where
  "ran pr ss regs st r \<longleftrightarrow> fst r \<and> after pr ss regs st (snd r)"

lemma ranE: "ran pr ss regs st r \<Longrightarrow> (\<And>st'. r = (True, st') \<Longrightarrow> after pr ss regs st st' \<Longrightarrow> P) \<Longrightarrow> P"
  by (cases r) (auto simp: ran_def)

lemma wp_exec_stmt:
  assumes mem: "\<And>n e. fst (E_malloc E n e)" and "filling regs st" and "clean st"
  shows "wp (exec_stmt E pr s st) (\<lambda>r _. ran pr [s] regs st r) w"
proof (cases s)
  case (ADD op name ext impl)
  let ?a = "\<lparr>al_names = name, al_props = pr @ ext, al_impl = impl\<rparr>"
  have regs: "(\<lambda>op'. regs op' @ alg_of pr op' s) = regs(op := regs op @ [?a])" by (auto simp: ADD)
  show ?thesis unfolding exec_stmt_def ADD alg_stmt.case add_algo_def
    by (rule wp_seq [OF wp_store_alg [OF assms(1) assms(2) [unfolded filling_def, rule_format]]])
      (use regs in \<open>auto simp: wp_simps after_def ran_def ADD intro: filling_append [OF assms(2)]\<close>)
qed (use assms in \<open>auto simp: exec_stmt_def wp_simps after_def ran_def alg_rm_mechs_filter filling_def\<close>)

text \<open>Steps of which each one has the effect of a list of statements that depends on the checklist.\<close>

lemma wp_exec_all:
  fixes f :: "'x \<Rightarrow> ops_state \<Rightarrow> ('w, bool \<times> ops_state) state"
  assumes "\<And>x regs st w. x \<in> set xs \<Longrightarrow> filling regs st \<Longrightarrow> clean st \<Longrightarrow>
      wp (f x st) (\<lambda>r _. ran pr (g x (os_checklist st)) regs st r) w"
    and "filling regs st" and "clean st"
    and run: "\<And>cl. G [] cl = []" "\<And>x xs cl. G (x # xs) cl = g x cl @ G xs (filter (\<lambda>c. c \<notin> set (unchecks (g x cl))) cl)"
  shows "wp (exec_all (map f xs) st) (\<lambda>r _. ran pr (G xs (os_checklist st)) regs st r) w"
  using assms(1-3)
proof (induction xs arbitrary: regs st w)
  case Nil
  then show ?case by (simp add: wp_simps run ran_def)
next
  case (Cons y ys)
  let ?cl = "os_checklist st"
  have first: "wp (f y st) (\<lambda>r _. ran pr (g y ?cl) regs st r) w" for w
    using Cons.prems by simp
  show ?case unfolding list.map exec_all.simps
  proof (rule wp_seq [OF first], erule ranE)
    fix r v st1
    assume r: "r = (True, st1)" and st1: "after pr (g y ?cl) regs st st1"
    have "wp (exec_all (map f ys) st1) (\<lambda>r _. ran pr (G ys (os_checklist st1)) (\<lambda>op. regs op @ algs pr op (g y ?cl)) st1 r) v"
      using Cons.IH [OF _ after_filling [OF st1] after_clean [OF st1 Cons.prems(3)]] Cons.prems(1) by simp
    then have "wp (exec_all (map f ys) st1) (\<lambda>r _. ran pr (G (y # ys) ?cl) regs st r) v"
      by (rule wp_mono) (use st1 in \<open>auto simp: run after_def ran_def\<close>)
    then show "wp (case r of (ok, st) \<Rightarrow> if ok then exec_all (map f ys) st else ret (False, st)) (\<lambda>r _. ran pr (G (y # ys) ?cl) regs st r) v"
      by (simp add: r)
  qed
qed

lemma wp_exec_stmts:
  assumes "\<And>n e. fst (E_malloc E n e)" and "filling regs st" and "clean st"
  shows "wp (exec_stmts E pr ss st) (\<lambda>r _. ran pr ss regs st r) w"
  unfolding exec_stmts_def
  by (rule wp_exec_all [where g = "\<lambda>s _. [s]" and G = "\<lambda>ss _. ss"]) (simp_all add: wp_exec_stmt assms)

section \<open>The loop over the mechanisms\<close>

abbreviation run_stmts :: "bool \<Rightarrow> bool \<Rightarrow> CK_MECHANISM_TYPE list \<Rightarrow> CK_MECHANISM_TYPE list \<Rightarrow> alg_stmt list" where
  "run_stmts msg skey ms cl \<equiv> concat (map (mech_stmts msg skey) (processed (mech_stmts msg skey) cl ms))"

lemma processed_Nil [simp]: "processed f [] ms = []"
  by (induction ms) auto

lemma wp_mechs_loop:
  assumes mem: "\<And>n e. fst (E_malloc E n e)" and "filling regs st" and "clean st"
  shows "wp (mechs_loop E pr msg skey ms st) (\<lambda>r _. ran pr (run_stmts msg skey ms (os_checklist st)) regs st r) w"
  using assms(2,3)
proof (induction ms arbitrary: regs st w)
  case Nil
  then show ?case by (simp add: wp_simps ran_def)
next
  case (Cons m ms)
  let ?cl = "os_checklist st" and ?ss = "mech_stmts msg skey m"
  show ?case
  proof (cases "m \<in> set ?cl")
    case True
    then have "wp (do { (ok, st) \<leftarrow> exec_stmts E pr ?ss st; if ok then mechs_loop E pr msg skey ms st else ret (False, st) })
      (\<lambda>r _. ran pr (run_stmts msg skey (m # ms) ?cl) regs st r) w" for w
    proof (intro wp_seq [OF wp_exec_stmts [OF mem Cons.prems]], elim ranE)
      fix r v st1
      assume r: "r = (True, st1)" and st1: "after pr ?ss regs st st1"
      show "wp (case r of (ok, st) \<Rightarrow> if ok then mechs_loop E pr msg skey ms st else ret (False, st))
        (\<lambda>r _. ran pr (run_stmts msg skey (m # ms) ?cl) regs st r) v"
        unfolding r prod.case if_True
        by (rule wp_mono [OF Cons.IH [OF after_filling [OF st1] after_clean [OF st1 Cons.prems(2)]]])
          (use st1 True in \<open>auto simp: after_def ran_def\<close>)
    qed
    then show ?thesis using True by auto
  qed (use Cons in \<open>auto simp: wp_simps ran_def\<close>)
qed

lemma processed_append:
  "processed f cl (ms @ ms') = processed f cl ms @
     processed f (filter (\<lambda>c. c \<notin> set (unchecks (concat (map f (processed f cl ms))))) cl) ms'"
  by (induction f cl ms rule: processed.induct) (auto simp: conj_commute intro!: arg_cong2 [of _ _ _ _ "processed _"])

lemma wp_slots_loop:
  assumes "\<And>n e. fst (E_malloc E n e)" and "filling regs st" and "clean st"
  shows "wp (exec_all (map (\<lambda>s. mechs_loop E pr msg skey (slot_mechs s)) slots) st)
     (\<lambda>r _. ran pr (run_stmts msg skey (concat (map slot_mechs slots)) (os_checklist st)) regs st r) w"
  by (rule wp_exec_all [where g = "\<lambda>s. run_stmts msg skey (slot_mechs s)"
        and G = "\<lambda>slots. run_stmts msg skey (concat (map slot_mechs slots))"])
    (simp_all add: wp_mechs_loop assms processed_append)

section \<open>Terminations\<close>

lemma closedI: "take (Suc (length as)) t = map Alg as @ [End] \<Longrightarrow> as \<noteq> [] \<Longrightarrow> closed as t"
  using append_take_drop_id [of "Suc (length as)" t] by (auto simp: closed_def intro!: exI [of _ "drop (Suc (length as)) t"])

lemma wp_term_algo:
  assumes mem: "\<And>n e. fst (E_malloc E n e)" and "filling1 regs st op"
  shows "wp (term_algo E op st) (\<lambda>r _. fst r \<and> closed (regs op) (os_op (snd r) op) \<and>
     (\<forall>op'. op' \<noteq> op \<longrightarrow> os_op (snd r) op' = os_op st op' \<and> os_idx (snd r) op' = os_idx st op')) w"
proof (cases "regs op = []")
  case True
  then show ?thesis using assms(2) by (simp add: term_algo_def wp_simps fills_def closed_def)
next
  case False
  then have "os_idx st op > 0" using assms(2) by (simp add: fills_def)
  then show ?thesis unfolding term_algo_def
    by (simp add: wp_bind) (rule wp_mono [OF wp_store_alg [where regs = regs, OF assms]], auto simp: wp_simps intro: closedI [OF _ False])
qed

lemma wp_term_all:
  assumes mem: "\<And>n e. fst (E_malloc E n e)" and "distinct ops" and "\<And>op. op \<in> set ops \<Longrightarrow> filling1 regs st op"
  shows "wp (exec_all (map (term_algo E) ops) st) (\<lambda>r _. fst r \<and> (\<forall>op \<in> set ops. closed (regs op) (os_op (snd r) op)) \<and>
     (\<forall>op'. op' \<notin> set ops \<longrightarrow> os_op (snd r) op' = os_op st op' \<and> os_idx (snd r) op' = os_idx st op')) w"
  using assms(2,3)
proof (induction ops arbitrary: st w)
  case Nil
  then show ?case by (simp add: wp_simps)
next
  case (Cons op ops)
  have 1: "filling1 regs st op" using Cons.prems by simp
  show ?case unfolding list.map exec_all.simps
  proof (rule wp_seq [OF wp_term_algo [where regs = regs, OF mem 1]])
    fix r :: "bool \<times> ops_state" and v
    assume r: "fst r \<and> closed (regs op) (os_op (snd r) op) \<and>
      (\<forall>op'. op' \<noteq> op \<longrightarrow> os_op (snd r) op' = os_op st op' \<and> os_idx (snd r) op' = os_idx st op')"
    have 2: "filling1 regs (snd r) op'" if "op' \<in> set ops" for op'
      using r Cons.prems that by (metis distinct.simps(2) list.set_intros(2))
    have "wp (exec_all (map (term_algo E) ops) (snd r)) (\<lambda>r' _. fst r' \<and> (\<forall>op' \<in> set (op # ops). closed (regs op') (os_op (snd r') op')) \<and>
       (\<forall>op'. op' \<notin> set (op # ops) \<longrightarrow> os_op (snd r') op' = os_op st op' \<and> os_idx (snd r') op' = os_idx st op')) v"
      by (rule wp_mono [OF Cons.IH [OF _ 2]]) (use r Cons.prems in auto)
    then show "wp (case r of (ok, st) \<Rightarrow> if ok then exec_all (map (term_algo E) ops) st else ret (False, st))
      (\<lambda>r' _. fst r' \<and> (\<forall>op' \<in> set (op # ops). closed (regs op') (os_op (snd r') op')) \<and>
       (\<forall>op'. op' \<notin> set (op # ops) \<longrightarrow> os_op (snd r') op' = os_op st op' \<and> os_idx (snd r') op' = os_idx st op')) v"
      using r by (simp add: case_prod_beta)
  qed
qed

definition rand_algorithm :: "string \<Rightarrow> ossl_algorithm" where
  "rand_algorithm pr = \<lparr>al_names = ''RAND'', al_props = pr, al_impl = ''p11prov_rand_functions''\<rparr>"

lemma wp_init_random:
  assumes mem: "\<And>n e. fst (E_malloc E n e)" and empty: "os_idx st OpRandom = 0" "os_op st OpRandom = []"
  shows "wp (init_random E pr st) (\<lambda>r _. fst r \<and> (\<exists>as. closed as (os_op (snd r) OpRandom) \<and> set as \<subseteq> {rand_algorithm pr}) \<and>
     (\<forall>op. op \<noteq> OpRandom \<longrightarrow> os_op (snd r) op = os_op st op)) w" (is "wp _ ?Q w")
proof -
  let ?a = "rand_algorithm pr" and ?s = "ADD OpRandom ''RAND'' '''' ''p11prov_rand_functions''"
  have "?Q (True, st) w" for w :: "'a world" using empty by (auto simp: closed_def intro!: exI [of _ "[]"])
  moreover have "wp (exec_all [exec_stmt E pr ?s, term_algo E OpRandom] st) ?Q w" for w
  proof -
    have "fills [] (os_idx st OpRandom) (os_op st OpRandom)" using empty by (simp add: fills_def)
    then have first: "wp (exec_stmt E pr ?s st) (\<lambda>r _. fst r \<and> fills [?a] (os_idx (snd r) OpRandom) (os_op (snd r) OpRandom) \<and>
        (\<forall>op. op \<noteq> OpRandom \<longrightarrow> os_op (snd r) op = os_op st op)) w"
      unfolding exec_stmt_def alg_stmt.case add_algo_def
      by (intro wp_seq [OF wp_store_alg [where regs = "\<lambda>_. []", OF mem]])
        (use empty in \<open>auto simp: wp_return fills_def rand_algorithm_def\<close>)
    show ?thesis unfolding exec_all.simps
      by (rule wp_seq [OF first], clarsimp simp: wp_bind)
        (rule wp_mono [OF wp_term_algo [where regs = "\<lambda>_. [?a]", OF mem]], auto simp: wp_return intro!: exI [of _ "[?a]"])
  qed
  ultimately show ?thesis unfolding init_random_def by (auto simp: wp_bind wp_if wp_return intro!: wpI)
qed

section \<open>What is registered\<close>

lemma set_algs:
  "a \<in> set (algs pr t ss) \<longleftrightarrow> (\<exists>name ext impl. ADD t name ext impl \<in> set ss \<and> a = \<lparr>al_names = name, al_props = pr @ ext, al_impl = impl\<rparr>)"
proof (induction ss)
  case (Cons s ss)
  then show ?case by (cases s) auto
qed simp

lemma algs_distinct: "distinct (filter is_ADD ss) \<Longrightarrow> distinct (algs pr t ss)"
proof (induction ss)
  case (Cons s ss)
  then show ?case by (cases s) (auto simp: set_algs)
qed simp

fun generic_name :: "alg_stmt \<Rightarrow> bool" where
  "generic_name (ADD op name _ _) = (name = ''RSA'' \<or> name = ''ECDSA'' \<or> op = OpRandom)"
| "generic_name _ = False"

lemma no_generic_case: "list_all (\<lambda>(_, ss). \<not> list_ex generic_name ss) (all_cases msg skey)"
  by (induction msg; induction skey; code_simp)

lemma no_generic: "s \<in> set (mech_stmts msg skey m) \<Longrightarrow> \<not> generic_name s"
proof (cases "find (\<lambda>(ls, _). m \<in> set ls) (all_cases msg skey)")
  case (Some c)
  then have "c \<in> set (all_cases msg skey)" by (metis (mono_tags) find_Some_iff nth_mem)
  then show "s \<in> set (mech_stmts msg skey m) \<Longrightarrow> \<not> generic_name s"
    using Some no_generic_case [of msg skey] by (auto simp: mech_stmts_def list_all_iff list_ex_iff split: prod.splits)
qed (simp add: mech_stmts_def)

lemma run_not_generic: "s \<in> set (run_stmts msg skey ms cl) \<Longrightarrow> \<not> generic_name s"
  using no_generic by auto

lemma no_random: "(\<And>s. s \<in> set ss \<Longrightarrow> \<not> generic_name s) \<Longrightarrow> algs pr OpRandom ss = []"
proof (induction ss)
  case (Cons s ss)
  then have "alg_of pr OpRandom s = []" using Cons.prems [of s] by (cases s) auto
  then show ?case using Cons by simp
qed simp

text \<open>The flags after a list of statements, as a state with empty tables.\<close>

definition flags_of :: "alg_stmt list \<Rightarrow> ops_state" where
  "flags_of ss = (start_state (\<lambda>_. []) [])\<lparr>os_rsasig := ADD_RSASIG \<in> set ss, os_rsaenc := ADD_RSAENC \<in> set ss,
     os_ecdsasig := ADD_ECDSASIG \<in> set ss\<rparr>"

definition all_stmts :: "'e world \<Rightarrow> bool \<Rightarrow> bool \<Rightarrow> alg_stmt list" where
  "all_stmts w msg skey = run_stmts msg skey (concat (map slot_mechs (slots_list w))) (checklist skey)"

lemma wp_operations_init:
  assumes "w_slots w \<noteq> None" and "\<And>l e. fst (E_lock E l e)" and mem: "\<And>n e. fst (E_malloc E n e)"
  shows "wp (operations_init E msg skey (\<lambda>_. [])) (\<lambda>r _. fst r = CKR_OK \<and>
     (\<forall>t \<in> set (term_ops skey). closed (algs (get_default_properties (w_ctx w)) t
        (all_stmts w msg skey @ generic_stmts (flags_of (all_stmts w msg skey)))) (snd r t))) w"
    (is "wp _ ?Q w")
proof -
  let ?pr = "get_default_properties (w_ctx w)" and ?R = "all_stmts w msg skey"
  let ?G = "generic_stmts (flags_of ?R)"
  let ?regs = "\<lambda>t. algs ?pr t (?R @ ?G)"
  have l: "E_lock E l e = (b, e') \<Longrightarrow> b" for l e b e' using assms(2) [of l e] by simp
  have take: "wp (p11prov_take_slots E) (\<lambda>r w'. r = CKR_OK \<and> slots_list w' = slots_list w) w"
    using assms(1) by (auto simp: wp_simps slots_list_def split: prod.split dest!: l)
  have start: "filling (\<lambda>_. []) (start_state (\<lambda>_. []) (checklist skey))" "clean (start_state (\<lambda>_. []) (checklist skey))"
    using not_checked [of True skey] by (simp_all add: filling_def fills_def start_state_def)
  have rand: "t \<in> set (term_ops skey) \<Longrightarrow> t \<noteq> OpRandom" "distinct (term_ops skey)" for t by (auto simp: term_ops_def)
  have nr: "OpRandom \<notin> set (term_ops skey)" by (simp add: term_ops_def)
  have norand: "?regs OpRandom = []"
    using no_random [of ?R] run_not_generic by (simp add: all_stmts_def generic_stmts_def)
  have fin: "wp (do { (ok, st) \<leftarrow> init_random E ?pr st; ret (CKR_OK, os_op st) }) ?Q v"
    if "\<forall>t \<in> set (term_ops skey). closed (?regs t) (os_op st t)" "os_idx st OpRandom = 0" "os_op st OpRandom = []" for st v
    by (rule wp_seq [OF wp_init_random [OF mem that(2,3)]]) (use that(1) rand in \<open>auto simp: wp_return\<close>)
  have closing: "wp (do { (ok, st) \<leftarrow> exec_all (map (term_algo E) (term_ops skey)) st;
       if \<not> ok then ret (0, os_op st)
       else do { (ok, st) \<leftarrow> init_random E ?pr st; ret (CKR_OK, os_op st) } }) ?Q v"
    if f: "filling ?regs st" for st v
  proof (rule wp_seq [OF wp_term_all [where regs = ?regs, OF mem rand(2)]])
    show "filling1 ?regs st op" for op using f by (simp only: filling_def)
    have "os_idx st OpRandom = 0" "os_op st OpRandom = []"
      using f [unfolded filling_def, rule_format, of OpRandom] by (simp_all only: norand fills_Nil)
    then show "wp (case r of (ok, st) \<Rightarrow> if \<not> ok then ret (0, os_op st)
        else do { (ok, st) \<leftarrow> init_random E ?pr st; ret (CKR_OK, os_op st) }) ?Q v'"
      if "fst r \<and> (\<forall>op \<in> set (term_ops skey). closed (?regs op) (os_op (snd r) op)) \<and>
        (\<forall>op'. op' \<notin> set (term_ops skey) \<longrightarrow> os_op (snd r) op' = os_op st op' \<and> os_idx (snd r) op' = os_idx st op')" for r v'
      using that fin [of "snd r" v'] nr by (auto simp: case_prod_beta)
  qed
  have generic: "wp (do { (ok, st) \<leftarrow> exec_stmts E ?pr (generic_stmts st) st;
       if \<not> ok then ret (0, os_op st)
       else do { (ok, st) \<leftarrow> exec_all (map (term_algo E) (term_ops skey)) st;
         if \<not> ok then ret (0, os_op st)
         else do { (ok, st) \<leftarrow> init_random E ?pr st; ret (CKR_OK, os_op st) } } }) ?Q v"
    if st: "after ?pr ?R (\<lambda>_. []) (start_state (\<lambda>_. []) (checklist skey)) st" for st v
  proof -
    have "generic_stmts st = ?G" using st by (simp add: generic_stmts_def flags_of_def after_def start_state_def)
    then show ?thesis
      by (intro wp_seq [OF wp_exec_stmts [OF mem after_filling [OF st] after_clean [OF st start(2)]]])
        (auto elim!: ranE dest!: after_filling intro!: closing [unfolded algs_simps])
  qed
  have loop: "wp (do { (ok, st) \<leftarrow> exec_all (map (\<lambda>s. mechs_loop E ?pr msg skey (slot_mechs s)) (slots_list w)) (start_state (\<lambda>_. []) (checklist skey));
      if \<not> ok then ret (0, os_op st)
      else do {
        p11prov_return_slots E;
        (ok, st) \<leftarrow> exec_stmts E ?pr (generic_stmts st) st;
        if \<not> ok then ret (0, os_op st)
        else do { (ok, st) \<leftarrow> exec_all (map (term_algo E) (term_ops skey)) st;
          if \<not> ok then ret (0, os_op st)
          else do { (ok, st) \<leftarrow> init_random E ?pr st; ret (CKR_OK, os_op st) } } } }) ?Q v" for v
    by (rule wp_seq [OF wp_slots_loop [OF mem start]], elim ranE, simp only: prod.case not_True_eq_False if_False,
        rule wp_seq [OF wp_True generic]) (simp add: all_stmts_def start_state_def)
  show ?thesis unfolding operations_init_def wp_bind [of "gets _"] wp_gets if_cancel
    by (rule wp_seq [OF take], elim conjE, simp only: if_False not_True_eq_False HOL.simp_thms wp_bind [of "gets _"] wp_gets loop)
qed

text \<open>A checked mechanism that some slot offers, and the algorithms the \<^verbatim>\<open>switch\<close> registers for such mechanisms.\<close>

definition offers :: "'e world \<Rightarrow> bool \<Rightarrow> CK_MECHANISM_TYPE \<Rightarrow> bool" where
  "offers w skey m \<longleftrightarrow> m \<in> set (checklist skey) \<and> (\<exists>s \<in> set (slots_list w). m \<in> set (slot_mechs s))"

definition wanted :: "'e world \<Rightarrow> bool \<Rightarrow> bool \<Rightarrow> op_id \<Rightarrow> ossl_algorithm \<Rightarrow> bool" where
  "wanted w msg skey t a \<longleftrightarrow>
     (\<exists>m name ext impl. offers w skey m \<and> ADD t name ext impl \<in> set (mech_stmts msg skey m) \<and>
        a = \<lparr>al_names = name, al_props = get_default_properties (w_ctx w) @ ext, al_impl = impl\<rparr>) \<or>
     t = OpSignature \<and> (\<exists>m. offers w skey m \<and> ADD_ECDSASIG \<in> set (mech_stmts msg skey m)) \<and>
        a = \<lparr>al_names = ''ECDSA'', al_props = get_default_properties (w_ctx w), al_impl = ''p11prov_ecdsa_signature_functions''\<rparr>"

lemma all_stmts_offered: "s \<in> set (all_stmts w msg skey) \<Longrightarrow> \<exists>m. offers w skey m \<and> s \<in> set (mech_stmts msg skey m)"
  using processed_subset [of "mech_stmts msg skey" "checklist skey" "concat (map slot_mechs (slots_list w))"]
  by (fastforce simp: all_stmts_def offers_def)

lemma all_stmts_kept:
  assumes "offers w skey m" and "s \<in> set (mech_stmts msg skey m)" and "effect m s"
  shows "s \<in> set (all_stmts w msg skey)"
  using sw.effects_kept [of m "concat (map slot_mechs (slots_list w))" skey s msg] assms by (auto simp: all_stmts_def offers_def)

lemma all_stmts_iff:
  assumes "is_ADD s \<or> s = ADD_ECDSASIG"
  shows "s \<in> set (all_stmts w msg skey) \<longleftrightarrow> (\<exists>m. offers w skey m \<and> s \<in> set (mech_stmts msg skey m))"
  using all_stmts_offered all_stmts_kept assms by (metis effect_def)

lemma generic_iff:
  "ADD t name ext impl \<in> set (generic_stmts (flags_of ss)) \<and> name \<noteq> ''RSA'' \<longleftrightarrow>
     t = OpSignature \<and> ADD_ECDSASIG \<in> set ss \<and> name = ''ECDSA'' \<and> ext = [] \<and> impl = ''p11prov_ecdsa_signature_functions''"
  by (auto simp: generic_stmts_def flags_of_def)

lemma registered_iff:
  assumes "al_names a \<noteq> ''RSA''"
  shows "a \<in> set (algs (get_default_properties (w_ctx w)) t (all_stmts w msg skey @ generic_stmts (flags_of (all_stmts w msg skey)))) \<longleftrightarrow>
     wanted w msg skey t a"
proof -
  have "ADD t name ext impl \<in> set (all_stmts w msg skey) \<longleftrightarrow> (\<exists>m. offers w skey m \<and> ADD t name ext impl \<in> set (mech_stmts msg skey m))"
    for name ext impl by (rule all_stmts_iff) simp
  moreover have "ADD_ECDSASIG \<in> set (all_stmts w msg skey) \<longleftrightarrow> (\<exists>m. offers w skey m \<and> ADD_ECDSASIG \<in> set (mech_stmts msg skey m))"
    by (rule all_stmts_iff) simp
  ultimately show ?thesis using assms generic_iff [of t "al_names a"] unfolding set_algs set_append Un_iff wanted_def
    by (auto simp: generic_iff)
qed

lemma registered_distinct: "distinct (algs pr t (all_stmts w msg skey @ generic_stmts (flags_of (all_stmts w msg skey))))"
proof (rule algs_distinct)
  let ?R = "all_stmts w msg skey"
  have "distinct (filter is_ADD ?R)" using sw.processed_once [of "checklist skey" skey msg] by (simp add: all_stmts_def)
  moreover have "distinct (filter is_ADD (generic_stmts (flags_of ?R)))" by (simp add: generic_stmts_def)
  moreover have "s \<notin> set (generic_stmts (flags_of ?R))" if "s \<in> set ?R" for s
    using run_not_generic that by (fastforce simp: all_stmts_def generic_stmts_def split: if_splits)
  ultimately show "distinct (filter is_ADD (?R @ generic_stmts (flags_of ?R)))" by auto
qed

text \<open>
  C11. Registration is sound, complete and free of duplicates: with memory and locks available, every table is
  terminated by the entry of NULLs (or stays NULL when it has no entries), lists no algorithm twice, and lists an
  algorithm other than the generic RSA ones exactly when some slot offers a mechanism that stands for it. The order of
  the slots and of their mechanisms does not matter.
\<close>

theorem operations_init_registers:
  assumes "w_slots w \<noteq> None" and "\<And>l e. fst (E_lock E l e)" and "\<And>n e. fst (E_malloc E n e)"
  shows "wp (operations_init E msg skey (\<lambda>_. [])) (\<lambda>(r, op) _. r = CKR_OK \<and>
     (\<forall>t \<in> set (term_ops skey). \<exists>as. closed as (op t) \<and> distinct as \<and>
        (\<forall>a. al_names a \<noteq> ''RSA'' \<longrightarrow> (a \<in> set as \<longleftrightarrow> wanted w msg skey t a)))) w"
  by (rule wp_mono [OF wp_operations_init [OF assms, where msg = msg and skey = skey]])
    (use registered_iff registered_distinct in \<open>fastforce simp del: algs_simps\<close>)

theorem operations_init_registers_witness:
  "wp (operations_init sim_env True True (\<lambda>_. [])) (\<lambda>(r, op) _. r = CKR_OK \<and>
     (\<exists>as. closed as (op OpDigest) \<and> distinct as)) sim_slots_world"
  by (rule wp_mono [OF operations_init_registers])
    (auto simp: sim_slots_world_def sim_env_def term_ops_def)

text \<open>The generic RSA signature.\<close>

abbreviation RSASIG_MECHS :: "CK_MECHANISM_TYPE list" where
  "RSASIG_MECHS \<equiv> RSA_SIG_MECHS @ RSAPSS_SIG_MECHS"

definition rsasig_cases :: "mech_case list \<Rightarrow> int list \<Rightarrow> bool" where
  "rsasig_cases cs ks \<longleftrightarrow> list_all (\<lambda>(ls, ss). if ADD_RSASIG \<in> set ss then contains (map uint ls) ks
     else list_all (\<lambda>k. k \<notin> set ks) (map uint ls)) cs"

lemma rsasig_cases: "rsasig_cases (all_cases msg skey) (map uint RSASIG_MECHS)"
  by (induction msg; induction skey; code_simp)

lemma rsasig_iff:
  assumes "m \<in> set (checklist skey)"
  shows "ADD_RSASIG \<in> set (mech_stmts msg skey m) \<longleftrightarrow> m \<in> set RSASIG_MECHS"
proof -
  obtain ls ss where c: "(ls, ss) \<in> set (all_cases msg skey)" "m \<in> set ls" "mech_stmts msg skey m = ss"
    using checked_case [OF assms] by blast
  have "if ADD_RSASIG \<in> set ss then contains (map uint ls) (map uint RSASIG_MECHS)
     else list_all (\<lambda>k. k \<notin> set (map uint RSASIG_MECHS)) (map uint ls)"
    using bspec [OF iffD1 [OF list_all_iff rsasig_cases [of msg skey, unfolded rsasig_cases_def]] c(1)] by (simp only: prod.case)
  then show ?thesis using c(2,3) by (auto simp: list_all_iff simp del: map_append split: if_splits)
qed

definition rsa_signature :: "p11prov_ctx \<Rightarrow> ossl_algorithm" where
  "rsa_signature ctx = \<lparr>al_names = ''RSA'', al_props = get_default_properties ctx, al_impl = ''p11prov_rsa_signature_functions''\<rparr>"

lemma rsa_signature_iff:
  "rsa_signature (w_ctx w) \<in> set (algs (get_default_properties (w_ctx w)) OpSignature
      (all_stmts w msg skey @ generic_stmts (flags_of (all_stmts w msg skey)))) \<longleftrightarrow> ADD_RSASIG \<in> set (all_stmts w msg skey)"
proof -
  have "ADD OpSignature ''RSA'' ext impl \<notin> set (all_stmts w msg skey)" for ext impl
    using run_not_generic [of "ADD OpSignature ''RSA'' ext impl"] by (fastforce simp: all_stmts_def)
  then show ?thesis
    by (auto simp: set_algs rsa_signature_def generic_stmts_def flags_of_def simp del: algs_simps split: if_splits)
qed

text \<open>
  C12. RSA signatures are registered whenever a slot offers an RSA signature mechanism that names its digest or PSS, and
  only when a slot offers some RSA signature mechanism. (A slot that offers only \<open>CKM_RSA_PKCS\<close> is the case in which the
  order of the mechanisms decides.)
\<close>

theorem rsa_signature_registered:
  assumes "w_slots w \<noteq> None" and "\<And>l e. fst (E_lock E l e)" and "\<And>n e. fst (E_malloc E n e)"
  shows "wp (operations_init E msg skey (\<lambda>_. [])) (\<lambda>(r, op) _. \<exists>as. closed as (op OpSignature) \<and>
     ((\<exists>m \<in> set RSASIG_MECHS. offers w skey m \<and> m \<noteq> CKM_RSA_PKCS) \<longrightarrow> rsa_signature (w_ctx w) \<in> set as) \<and>
     (rsa_signature (w_ctx w) \<in> set as \<longrightarrow> (\<exists>m \<in> set RSASIG_MECHS. offers w skey m))) w"
proof -
  have "ADD_RSASIG \<in> set (all_stmts w msg skey)" if "offers w skey m" "m \<in> set RSASIG_MECHS" "m \<noteq> CKM_RSA_PKCS" for m
    using all_stmts_kept [OF that(1), of ADD_RSASIG msg] rsasig_iff [of m skey msg] that by (auto simp: offers_def effect_def)
  moreover have "\<exists>m \<in> set RSASIG_MECHS. offers w skey m" if "ADD_RSASIG \<in> set (all_stmts w msg skey)"
    using all_stmts_offered [OF that] rsasig_iff by (metis offers_def)
  moreover have "OpSignature \<in> set (term_ops skey)" by (simp add: term_ops_def)
  ultimately show ?thesis
    by (intro wp_mono [OF wp_operations_init [OF assms, where msg = msg and skey = skey]])
      (auto simp: rsa_signature_iff simp del: algs_simps intro!: exI)
qed

theorem rsa_signature_registered_witness:
  "wp (operations_init sim_env True True (\<lambda>_. [])) (\<lambda>(r, op) _. \<exists>as. closed as (op OpSignature)) sim_slots_world"
  by (rule wp_mono [OF rsa_signature_registered]) (auto simp: sim_slots_world_def sim_env_def)

text \<open>
  \<open>CKM_RSA_PKCS\<close> behind another encryption mechanism is no longer checked, and the generic RSA signature is lost;
  in the other order it is registered.
\<close>

lemma rsa_signature_lost:
  "ADD_RSASIG \<notin> set (run_stmts msg skey [CKM_RSA_X_509, CKM_RSA_PKCS] (checklist skey)) \<and>
   ADD_RSASIG \<in> set (run_stmts msg skey [CKM_RSA_PKCS, CKM_RSA_X_509] (checklist skey))"
  by (induction msg; induction skey; code_simp)

section \<open>The static tables\<close>

lemma exec_all_append:
  "exec_all (fs @ gs) st = do { (ok, st) \<leftarrow> exec_all fs st; if ok then exec_all gs st else ret (False, st) }"
proof (induction fs arbitrary: st)
  case (Cons f fs)
  have "exec_all (fs @ gs) = (\<lambda>st. do { (ok, st) \<leftarrow> exec_all fs st; if ok then exec_all gs st else ret (False, st) })"
    using Cons by blast
  then show ?case
    by (auto simp: case_prod_unfold fun_eq_iff intro!: arg_cong [of _ _ "State_Monad.bind (f st)"])
qed simp

definition same_but :: "op_id set \<Rightarrow> ops_state \<Rightarrow> ops_state \<Rightarrow> bool" where
  "same_but T st st' \<longleftrightarrow> (\<forall>op. op \<notin> T \<longrightarrow> os_op st' op = os_op st op \<and> os_idx st' op = os_idx st op)"

lemma wp_adds:
  assumes mem: "\<And>n e. fst (E_malloc E n e)"
  shows "list_all (\<lambda>s. \<exists>n e i. s = ADD op n e i) ss \<Longrightarrow> fills as (os_idx st op) (os_op st op) \<Longrightarrow>
    wp (exec_all (map (exec_stmt E pr) ss) st) (\<lambda>r _. fst r \<and> fills (as @ algs pr op ss) (os_idx (snd r) op) (os_op (snd r) op) \<and>
      same_but {op} st (snd r)) w"
proof (induction ss arbitrary: as st w)
  case Nil
  then show ?case by (simp add: wp_simps same_but_def)
next
  case (Cons s ss)
  then obtain n e i where s: "s = ADD op n e i" by auto
  let ?a = "\<lparr>al_names = n, al_props = pr @ e, al_impl = i\<rparr>"
  have first: "wp (exec_stmt E pr s st) (\<lambda>r _. fst r \<and> fills (as @ [?a]) (os_idx (snd r) op) (os_op (snd r) op) \<and> same_but {op} st (snd r)) w" for w
    unfolding exec_stmt_def s alg_stmt.case add_algo_def
    by (intro wp_seq [OF wp_store_alg [where regs = "\<lambda>_. as", OF mem Cons.prems(2)]])
      (use Cons.prems(2) in \<open>auto simp: wp_return fills_def same_but_def\<close>)
  show ?case unfolding list.map exec_all.simps
  proof (rule wp_seq [OF first])
    fix r :: "bool \<times> ops_state" and v
    assume r: "fst r \<and> fills (as @ [?a]) (os_idx (snd r) op) (os_op (snd r) op) \<and> same_but {op} st (snd r)"
    then show "wp (case r of (ok, st) \<Rightarrow> if ok then exec_all (map (exec_stmt E pr) ss) st else ret (False, st))
      (\<lambda>r _. fst r \<and> fills (as @ algs pr op (s # ss)) (os_idx (snd r) op) (os_op (snd r) op) \<and> same_but {op} st (snd r)) v"
      using wp_mono [OF Cons.IH [of "as @ [?a]" "snd r" v]] Cons.prems(1) by (cases r) (simp add: s same_but_def)
  qed
qed

lemma wp_alg_group:
  assumes mem: "\<And>n e. fst (E_malloc E n e)" and "list_all (\<lambda>s. \<exists>n e i. s = ADD op n e i) ss"
    and "fills [] (os_idx st op) (os_op st op)"
  shows "wp (exec_all (alg_group E pr ss op) st) (\<lambda>r _. fst r \<and> closed (algs pr op ss) (os_op (snd r) op) \<and> same_but {op} st (snd r)) w"
  unfolding alg_group_def exec_all_append
proof (rule wp_seq [OF wp_adds [OF assms]])
  fix r :: "bool \<times> ops_state" and v
  assume r: "fst r \<and> fills ([] @ algs pr op ss) (os_idx (snd r) op) (os_op (snd r) op) \<and> same_but {op} st (snd r)"
  then have "wp (term_algo E op (snd r)) (\<lambda>r' _. fst r' \<and> closed (algs pr op ss) (os_op (snd r') op) \<and> same_but {op} st (snd r')) v"
    by (intro wp_mono [OF wp_term_algo [where regs = "\<lambda>_. algs pr op ss", OF mem]]) (auto simp: same_but_def)
  then show "wp (case r of (ok, st) \<Rightarrow> if ok then exec_all [term_algo E op] st else ret (False, st))
      (\<lambda>r' _. fst r' \<and> closed (algs pr op ss) (os_op (snd r') op) \<and> same_but {op} st (snd r')) v"
    using r by (cases r) (auto simp: wp_bind wp_return elim!: wp_mono)
qed

text \<open>The statements of all static tables.\<close>

definition static_stmts :: "p11prov_ctx \<Rightarrow> bool \<Rightarrow> op_id \<Rightarrow> alg_stmt list" where
  "static_stmts ctx skey op = (case op of
     OpEncoder \<Rightarrow> encoder_stmts @ (if cx_encode_pkey_as_pk11_uri ctx then uri_encoder_stmts else [])
   | OpDecoder \<Rightarrow> decoder_stmts | OpStore \<Rightarrow> store_stmts | OpKeymgmt \<Rightarrow> keymgmt_stmts
   | OpSkeymgmt \<Rightarrow> (if skey then skeymgmt_stmts else []) | _ \<Rightarrow> [])"

abbreviation static_ops :: "op_id list" where
  "static_ops \<equiv> [OpEncoder, OpDecoder, OpStore, OpKeymgmt, OpSkeymgmt]"

lemma wp_static_groups:
  assumes mem: "\<And>n e. fst (E_malloc E n e)" and "distinct ops" and "\<And>op. list_all (\<lambda>s. \<exists>n e i. s = ADD op n e i) (f op)"
    and "\<And>op. op \<in> set ops \<Longrightarrow> fills [] (os_idx st op) (os_op st op)"
  shows "wp (exec_all (concat (map (\<lambda>op. alg_group E pr (f op) op) ops)) st)
     (\<lambda>r _. fst r \<and> (\<forall>op \<in> set ops. closed (algs pr op (f op)) (os_op (snd r) op)) \<and> same_but (set ops) st (snd r)) w"
  using assms(2,4)
proof (induction ops arbitrary: st w)
  case Nil
  then show ?case by (simp add: wp_simps same_but_def)
next
  case (Cons op ops)
  have first: "fills [] (os_idx st op) (os_op st op)" using Cons.prems by simp
  show ?case unfolding list.map concat.simps exec_all_append
  proof (rule wp_seq [OF wp_alg_group [OF mem assms(3) first]])
    fix r :: "bool \<times> ops_state" and v
    assume r: "fst r \<and> closed (algs pr op (f op)) (os_op (snd r) op) \<and> same_but {op} st (snd r)"
    have "fills [] (os_idx (snd r) op') (os_op (snd r) op')" if "op' \<in> set ops" for op'
    proof -
      have "op' \<noteq> op" using Cons.prems(1) that by auto
      then show ?thesis using r Cons.prems(2) [of op'] that by (simp add: same_but_def)
    qed
    then have "wp (exec_all (concat (map (\<lambda>op. alg_group E pr (f op) op) ops)) (snd r))
       (\<lambda>r' _. fst r' \<and> (\<forall>op \<in> set ops. closed (algs pr op (f op)) (os_op (snd r') op)) \<and> same_but (set ops) (snd r) (snd r')) v"
      using Cons.IH [of "snd r"] Cons.prems(1) by simp
    then show "wp (case r of (ok, st) \<Rightarrow> if ok then exec_all (concat (map (\<lambda>op. alg_group E pr (f op) op) ops)) st else ret (False, st))
       (\<lambda>r' _. fst r' \<and> (\<forall>op \<in> set (op # ops). closed (algs pr op (f op)) (os_op (snd r') op)) \<and> same_but (set (op # ops)) st (snd r')) v"
      using r Cons.prems(1) by (cases r) (auto simp: same_but_def elim!: wp_mono)
  qed
qed

lemma static_stmts_ops: "list_all (\<lambda>s. \<exists>n e i. s = ADD op n e i) (static_stmts ctx skey op)"
  by (cases op) (simp_all add: static_stmts_def encoder_stmts_def uri_encoder_stmts_def decoder_stmts_def store_stmts_def
      keymgmt_stmts_def skeymgmt_stmts_def)

definition alg_key :: "alg_stmt \<Rightarrow> string \<times> string" where
  "alg_key s = (case s of ADD _ n e _ \<Rightarrow> (n, e) | _ \<Rightarrow> ([], []))"

lemma static_keys_distinct: "distinct (map alg_key (static_stmts ctx skey op))"
proof -
  have "distinct (map alg_key (encoder_stmts @ uri_encoder_stmts))" "distinct (map alg_key decoder_stmts)"
    "distinct (map alg_key store_stmts)" "distinct (map alg_key keymgmt_stmts)" "distinct (map alg_key skeymgmt_stmts)"
    by code_simp+
  then show ?thesis by (cases op) (auto simp: static_stmts_def)
qed

lemma algs_keys_distinct:
  "distinct (map alg_key ss) \<Longrightarrow> list_all (\<lambda>s. \<exists>n e i. s = ADD op n e i) ss \<Longrightarrow>
     distinct (map (\<lambda>a. (al_names a, al_props a)) (algs pr op ss))"
proof (induction ss)
  case (Cons s ss)
  then obtain n e i where s: "s = ADD op n e i" by auto
  have "(n, pr @ e) \<noteq> (al_names a, al_props a)" if "a \<in> set (algs pr op ss)" for a
    using Cons.prems(1) that by (auto simp: set_algs s alg_key_def rev_image_eqI)
  then show ?case using Cons s by auto
qed simp

text \<open>
  C13. The static tables: with memory available the encoders, decoders, the store, the key managers and (in builds with
  support for symmetric keys) the symmetric key managers are registered exactly as listed, each table is terminated, and no
  two entries of a table have the same names and properties, so that a fetch by OpenSSL is never ambiguous. The encoders of
  private keys as URIs are registered only when they are configured.
\<close>

theorem static_operations_registered:
  assumes "\<And>n e. fst (E_malloc E n e)"
  shows "wp (static_operations_init E skey (\<lambda>_. [])) (\<lambda>(r, op) _. r = CKR_OK \<and>
     (\<forall>t \<in> set static_ops. \<exists>as. closed as (op t) \<and> distinct (map (\<lambda>a. (al_names a, al_props a)) as) \<and>
        as = algs (get_default_properties (w_ctx w)) t (static_stmts (w_ctx w) skey t))) w"
proof -
  let ?pr = "get_default_properties (w_ctx w)" and ?f = "static_stmts (w_ctx w) skey"
  let ?ops = "if skey then static_ops else butlast static_ops"
  have "fills [] (os_idx (start_state (\<lambda>_. []) []) op) (os_op (start_state (\<lambda>_. []) []) op)" for op
    by (simp add: start_state_def fills_def)
  from wp_static_groups [OF assms _ static_stmts_ops this, of ?ops ?pr]
  have run: "wp (exec_all (concat (map (\<lambda>op. alg_group E ?pr (?f op) op) ?ops)) (start_state (\<lambda>_. []) []))
     (\<lambda>r _. fst r \<and> (\<forall>op \<in> set ?ops. closed (algs ?pr op (?f op)) (os_op (snd r) op)) \<and>
        same_but (set ?ops) (start_state (\<lambda>_. []) []) (snd r)) w" by simp
  have eq: "concat (map (\<lambda>op. alg_group E ?pr (?f op) op) ?ops) =
       (alg_group E ?pr (encoder_stmts @ (if cx_encode_pkey_as_pk11_uri (w_ctx w) then uri_encoder_stmts else [])) OpEncoder @
        alg_group E ?pr decoder_stmts OpDecoder @ alg_group E ?pr store_stmts OpStore @
        alg_group E ?pr keymgmt_stmts OpKeymgmt @ (if skey then alg_group E ?pr skeymgmt_stmts OpSkeymgmt else []))"
    by (simp add: static_stmts_def)
  have post: "closed (algs ?pr t (?f t)) (os_op st t)"
    if "\<forall>op \<in> set ?ops. closed (algs ?pr op (?f op)) (os_op st op)" "same_but (set ?ops) (start_state (\<lambda>_. []) []) st" "t \<in> set static_ops" for st t
  proof (cases "t \<in> set ?ops")
    case False
    then have "t = OpSkeymgmt \<and> \<not> skey" using that(3) by (auto split: if_splits)
    then show ?thesis using that(2) by (simp add: same_but_def start_state_def static_stmts_def closed_def)
  qed (use that in blast)
  show ?thesis
    unfolding static_operations_init_def wp_bind [of "gets _"] wp_gets Let_def if_cancel
  proof (rule wp_seq [OF run [unfolded eq]])
    fix r :: "bool \<times> ops_state" and v
    assume r: "fst r \<and> (\<forall>op \<in> set ?ops. closed (algs ?pr op (?f op)) (os_op (snd r) op)) \<and>
        same_but (set ?ops) (start_state (\<lambda>_. []) []) (snd r)"
    then have "\<forall>t \<in> set static_ops. closed (algs ?pr t (?f t)) (os_op (snd r) t)" using post by blast
    then show "wp (case r of (ok, st) \<Rightarrow> ret (CKR_OK, os_op st)) (\<lambda>(r, op) _. r = CKR_OK \<and>
       (\<forall>t \<in> set static_ops. \<exists>as. closed as (op t) \<and> distinct (map (\<lambda>a. (al_names a, al_props a)) as) \<and> as = algs ?pr t (?f t))) v"
      using algs_keys_distinct [OF static_keys_distinct static_stmts_ops] by (cases r) (simp add: wp_return)
  qed
qed

theorem static_operations_registered_witness:
  "wp (static_operations_init sim_env True (\<lambda>_. [])) (\<lambda>(r, op) _. r = CKR_OK \<and>
     (\<exists>rest. op OpStore = Alg \<lparr>al_names = ''URI'', al_props = get_default_properties sim_ctx,
        al_impl = ''p11prov_store_functions''\<rparr> # End # rest)) sim_world"
  by (rule wp_mono [OF static_operations_registered])
    (auto simp: sim_env_def static_stmts_def store_stmts_def closed_def sim_world_def)

end
