(* ===== verification/P11_Context.thy ===== *)
theory P11_Context
  imports P11_Access
begin

text \<open>
  The provider context (\<^verbatim>\<open>src/src/provider.c\<close>): the quirk table with \<open>p11prov_ctx_get_quirk\<close>,
  \<open>p11prov_ctx_set_quirk\<close> and \<open>p11prov_token_sup_attr\<close>, and the static pool of contexts that the fork
  handlers walk over.
\<close>

section \<open>Quirks\<close>

text \<open>
  \<open>cx_quirks\<close> holds the first \<open>nquirks\<close> entries of the array \<open>quirks\<close>. A quirk of up to eight bytes is
  kept in the union's \<open>ulong\<close> and a longer one behind its pointer; in both cases \<open>q_data\<close> is the
  data. An entry that is written at index \<open>nquirks\<close> without counting it is not part of the table.
\<close>

abbreviation GET_ATTR :: int where "GET_ATTR \<equiv> 0"
abbreviation SET_ATTR :: int where "SET_ATTR \<equiv> 1"
abbreviation CKA_ALLOWED_MECHANISMS :: CK_ATTRIBUTE_TYPE where "CKA_ALLOWED_MECHANISMS \<equiv> 0x40000600"

definition QUIRK_ALLOC :: nat where "QUIRK_ALLOC = 4"
definition sizeof_quirk :: nat where "sizeof_quirk = 32"

definition is_quirk :: "CK_SLOT_ID \<Rightarrow> string \<Rightarrow> quirk \<Rightarrow> bool" where
  "is_quirk slotid name q \<longleftrightarrow> q_id q = slotid \<and> q_name q = name"

text \<open>
  The second component is what is copied to the caller's buffer, \<open>None\<close> when it is left alone;
  \<open>bufsize\<close> is \<open>*size\<close> on entry, 0 asks for an allocation.
\<close>

definition p11prov_ctx_get_quirk ::
    "'e p11env \<Rightarrow> CK_SLOT_ID \<Rightarrow> string \<Rightarrow> nat \<Rightarrow> ('e world, CK_RV \<times> bytes option) state" where
  "p11prov_ctx_get_quirk E slotid name bufsize = do {
     r \<leftarrow> p11prov_mutex_lock E LkQuirks;
     if r \<noteq> CKR_OK then ret (CKR_CANT_LOCK, None)
     else do {
       qs \<leftarrow> gets (\<lambda>w. cx_quirks (w_ctx w));
       res \<leftarrow> (case find (is_quirk slotid name) qs of
           None \<Rightarrow> ret (CKR_OK, None)
         | Some q \<Rightarrow>
             if q_data q = [] then ret (CKR_OK, None)
             else if bufsize = 0 then do {
               ok \<leftarrow> ecall (E_malloc E (length (q_data q)));
               ret (if ok then (CKR_OK, Some (q_data q)) else (CKR_HOST_MEMORY, None)) }
             else if bufsize < length (q_data q) then ret (CKR_BUFFER_TOO_SMALL, None)
             else ret (CKR_OK, Some (q_data q)));
       _ \<leftarrow> p11prov_mutex_unlock E LkQuirks;
       ret res } }"

definition set_quirks :: "quirk list \<Rightarrow> ('e world, unit) state" where
  "set_quirks qs = modify (\<lambda>w. w\<lparr>w_ctx := (w_ctx w)\<lparr>cx_quirks := qs\<rparr>\<rparr>)"

definition store_quirk :: "'e p11env \<Rightarrow> quirk \<Rightarrow> ('e world, CK_RV) state" where
  "store_quirk E q = do {
     qs \<leftarrow> gets (\<lambda>w. cx_quirks (w_ctx w));
     case index_of (is_quirk (q_id q) (q_name q)) qs of
       Some i \<Rightarrow> do { set_quirks (qs[i := q]); ret CKR_OK }
     | None \<Rightarrow>
         if length qs mod QUIRK_ALLOC = 0 then do {
           ok \<leftarrow> ecall (E_malloc E (sizeof_quirk * (length qs + QUIRK_ALLOC)));
           if ok then do { set_quirks (qs @ [q]); ret CKR_OK } else ret CKR_HOST_MEMORY }
         else ret CKR_OK }"

definition p11prov_ctx_set_quirk ::
    "'e p11env \<Rightarrow> CK_SLOT_ID \<Rightarrow> string \<Rightarrow> bytes \<Rightarrow> ('e world, CK_RV) state" where
  "p11prov_ctx_set_quirk E slotid name data = do {
     ok \<leftarrow> ecall (E_malloc E (length name + 1));
     if \<not> ok then ret CKR_HOST_MEMORY
     else do {
       ok \<leftarrow> (if length data > 8 then ecall (E_malloc E (length data)) else ret True);
       if \<not> ok then ret CKR_HOST_MEMORY
       else do {
         r \<leftarrow> p11prov_mutex_lock E LkQuirks;
         if r \<noteq> CKR_OK then ret CKR_CANT_LOCK
         else do {
           r \<leftarrow> store_quirk E \<lparr>q_id = slotid, q_name = name, q_data = data\<rparr>;
           _ \<leftarrow> p11prov_mutex_unlock E LkQuirks;
           ret r } } } }"

text \<open>A \<open>CK_BBOOL\<close> is one byte; every value but \<open>CK_FALSE\<close> counts as true for the callers.\<close>

definition bbool :: "bool \<Rightarrow> bytes" where
  "bbool b = [if b then CHR 0x01 else CHR 0x00]"

definition hex16 :: "CK_ULONG \<Rightarrow> string" where
  "hex16 x = map (\<lambda>i. ''0123456789abcdef'' ! (unat (drop_bit (4 * (15 - i)) x) mod 16)) [0..<16]"

definition sup_attr_name :: "CK_ATTRIBUTE_TYPE \<Rightarrow> string" where
  "sup_attr_name attr = (if attr = CKA_ALLOWED_MECHANISMS then ''sup_attr_CKA_ALLOWED_MECHANISMS''
     else ''sup_attr_'' @ hex16 attr)"

text \<open>The value behind \<open>data\<close> is the second argument and the second result.\<close>

definition p11prov_token_sup_attr ::
    "'e p11env \<Rightarrow> CK_SLOT_ID \<Rightarrow> int \<Rightarrow> CK_ATTRIBUTE_TYPE \<Rightarrow> bytes \<Rightarrow> ('e world, CK_RV \<times> bytes) state" where
  "p11prov_token_sup_attr E slotid action attr data = do {
     ctx \<leftarrow> gets w_ctx;
     if attr = CKA_ALLOWED_MECHANISMS \<and> cx_no_allowed_mechanisms ctx
     then ret (CKR_OK, if action = GET_ATTR then bbool False else data)
     else if action = GET_ATTR then do {
       (r, d) \<leftarrow> p11prov_ctx_get_quirk E slotid (sup_attr_name attr) 1;
       ret (r, case d of None \<Rightarrow> data | Some d \<Rightarrow> d) }
     else if action = SET_ATTR then do {
       r \<leftarrow> p11prov_ctx_set_quirk E slotid (sup_attr_name attr) data;
       ret (r, data) }
     else ret (CKR_ARGUMENTS_BAD, data) }"

section \<open>The pool of contexts\<close>

text \<open>
  Contexts are named by numbers. \<open>cp_contexts\<close> is the allocated array, empty for a NULL pointer;
  cells that were never written are \<open>None\<close>.
\<close>

record ctx_pool =
  cp_contexts :: "nat option list"
  cp_num :: nat

definition CTX_POOL_ALLOC :: nat where "CTX_POOL_ALLOC = 4"
definition sizeof_ptr :: nat where "sizeof_ptr = 8"

definition empty_ctx_pool :: ctx_pool where
  "empty_ctx_pool = \<lparr>cp_contexts = [], cp_num = 0\<rparr>"

definition resize :: "nat \<Rightarrow> 'a option list \<Rightarrow> 'a option list" where
  "resize n xs = take n xs @ replicate (n - length xs) None"

definition ctx_pool_room :: "'e p11env \<Rightarrow> ctx_pool \<Rightarrow> ('e world, nat option list option) state" where
  "ctx_pool_room E pool =
     (if cp_contexts pool = [] then do {
        ok \<leftarrow> ecall (E_malloc E (CTX_POOL_ALLOC * sizeof_ptr));
        ret (if ok then Some (replicate CTX_POOL_ALLOC None) else None) }
      else if cp_num pool mod CTX_POOL_ALLOC = 0 then do {
        ok \<leftarrow> ecall (E_malloc E ((cp_num pool + CTX_POOL_ALLOC) * sizeof_ptr));
        ret (if ok then Some (resize (cp_num pool + CTX_POOL_ALLOC) (cp_contexts pool)) else None) }
      else ret (Some (cp_contexts pool)))"

definition context_add_pool :: "'e p11env \<Rightarrow> nat \<Rightarrow> ctx_pool \<Rightarrow> ('e world, ctx_pool) state" where
  "context_add_pool E c pool = do {
     r \<leftarrow> p11prov_mutex_lock E LkCtxPool;
     if r \<noteq> CKR_OK then ret pool
     else do {
       room \<leftarrow> ctx_pool_room E pool;
       _ \<leftarrow> p11prov_mutex_unlock E LkCtxPool;
       ret (case room of
           None \<Rightarrow> pool
         | Some arr \<Rightarrow> \<lparr>cp_contexts = arr[cp_num pool := Some c], cp_num = Suc (cp_num pool)\<rparr>) } }"

text \<open>The loop of \<open>context_rm_pool\<close> from index \<open>i\<close> on; \<open>n\<close> is the number of contexts.\<close>

function rm_loop :: "nat \<Rightarrow> nat \<Rightarrow> nat \<Rightarrow> bool \<Rightarrow> nat option list \<Rightarrow> bool \<times> nat option list" where
  "rm_loop c n i found arr =
     (if i < n then
        if \<not> found then
          if arr ! i = Some c then rm_loop c n (Suc i) True (arr[i := None])
          else rm_loop c n (Suc i) False arr
        else
          (let arr = arr[i - 1 := arr ! i];
               arr = (if i = n - 1 then arr[i := None] else arr)
           in rm_loop c n (Suc i) True arr)
      else (found, arr))"
  by pat_completeness auto
termination by (relation "measure (\<lambda>(c, n, i, found, arr). n - i)") auto

declare rm_loop.simps [simp del]

definition context_rm_pool :: "'e p11env \<Rightarrow> nat \<Rightarrow> ctx_pool \<Rightarrow> ('e world, ctx_pool) state" where
  "context_rm_pool E c pool = do {
     r \<leftarrow> p11prov_mutex_lock E LkCtxPool;
     if r \<noteq> CKR_OK then ret pool
     else do {
       let (found, arr) = rm_loop c (cp_num pool) 0 False (cp_contexts pool);
       _ \<leftarrow> p11prov_mutex_unlock E LkCtxPool;
       ret (if found then
              (if cp_num pool - 1 = 0 then empty_ctx_pool
               else \<lparr>cp_contexts = arr, cp_num = cp_num pool - 1\<rparr>)
            else \<lparr>cp_contexts = arr, cp_num = cp_num pool\<rparr>) } }"

section \<open>Properties of the quirk table\<close>

lemma find_index_of: "find P xs = (case index_of P xs of None \<Rightarrow> None | Some i \<Rightarrow> Some (xs ! i))"
  by (induction xs) (auto split: option.splits)

lemma find_replaced: "index_of P xs = Some i \<Longrightarrow> P q \<Longrightarrow> find P (xs[i := q]) = Some q"
  by (induction xs arbitrary: i) (auto split: if_splits nat.splits option.splits)

lemma find_appended: "index_of P xs = None \<Longrightarrow> P q \<Longrightarrow> find P (xs @ [q]) = Some q"
  by (induction xs) (auto split: if_splits)

lemma wp_set_quirk:
  assumes "\<And>l e. fst (E_lock E l e)" and "\<And>n e. fst (E_malloc E n e)"
  shows "wp (p11prov_ctx_set_quirk E slotid name data) (\<lambda>r w'. r = CKR_OK \<and>
     (let qs = cx_quirks (w_ctx w); q = \<lparr>q_id = slotid, q_name = name, q_data = data\<rparr> in
      w_ctx w' = (w_ctx w)\<lparr>cx_quirks := (case index_of (is_quirk slotid name) qs of
         Some i \<Rightarrow> qs[i := q] | None \<Rightarrow> if length qs mod QUIRK_ALLOC = 0 then qs @ [q] else qs)\<rparr>)) w"
proof -
  have l: "E_lock E l e = (b, e') \<Longrightarrow> b" for l e b e' using assms(1) [of l e] by simp
  have m: "E_malloc E n e = (b, e') \<Longrightarrow> b" for n e b e' using assms(2) [of n e] by simp
  show ?thesis
    by (auto simp: p11prov_ctx_set_quirk_def store_quirk_def set_quirks_def wp_simps Let_def
        split: prod.split option.split dest!: l m)
qed

lemma wp_get_quirk:
  assumes "\<And>l e. fst (E_lock E l e)"
  shows "wp (p11prov_ctx_get_quirk E slotid name bufsize) (\<lambda>(r, d) w'. w_ctx w' = w_ctx w \<and>
     (bufsize \<noteq> 0 \<longrightarrow> (r, d) = (case find (is_quirk slotid name) (cx_quirks (w_ctx w)) of
        None \<Rightarrow> (CKR_OK, None)
      | Some q \<Rightarrow> if q_data q = [] then (CKR_OK, None)
          else if bufsize < length (q_data q) then (CKR_BUFFER_TOO_SMALL, None) else (CKR_OK, Some (q_data q))))) w"
proof -
  have l: "E_lock E l e = (b, e') \<Longrightarrow> b" for l e b e' using assms(1) [of l e] by simp
  show ?thesis
    by (auto simp: p11prov_ctx_get_quirk_def wp_simps split: prod.split option.split dest!: l)
qed


text \<open>
  Every other new quirk is lost: \<open>nquirks\<close> is only counted up when the array is enlarged, so the entry is written
  behind the table and the lookup does not find it. Starting from an empty table there is never
  more than one quirk.
\<close>

lemma quirk_lost:
  assumes "\<And>l e. fst (E_lock E l e)" and "\<And>n e. fst (E_malloc E n e)"
    and "\<forall>q \<in> set (cx_quirks (w_ctx w)). \<not> is_quirk slotid name q" and "length (cx_quirks (w_ctx w)) mod QUIRK_ALLOC \<noteq> 0"
  shows "wp (p11prov_ctx_set_quirk E slotid name data) (\<lambda>r w'. r = CKR_OK \<and> w_ctx w' = w_ctx w) w"
  by (rule wp_mono [OF wp_set_quirk [OF assms(1,2)]])
    (use assms(3,4) in \<open>auto simp: Let_def index_of_None [THEN iffD2]\<close>)

lemma quirks_at_most_one:
  assumes "length (cx_quirks (w_ctx w)) \<le> 1"
  shows "wp (p11prov_ctx_set_quirk E slotid name data) (\<lambda>_ w'. length (cx_quirks (w_ctx w')) \<le> 1) w"
  using assms
  by (auto simp: p11prov_ctx_set_quirk_def store_quirk_def set_quirks_def QUIRK_ALLOC_def wp_simps
      split: prod.split option.split)

section \<open>Properties of the context pool\<close>

text \<open>
  The contexts of a pool in order, and its invariant: the first \<open>num\<close> cells are filled, and either the
  next cell exists or the next addition enlarges the array.
\<close>

definition contexts_of :: "ctx_pool \<Rightarrow> nat list" where
  "contexts_of pool = map the (take (cp_num pool) (cp_contexts pool))"

definition ctx_pool_inv :: "ctx_pool \<Rightarrow> bool" where
  "ctx_pool_inv pool \<longleftrightarrow> cp_num pool \<le> length (cp_contexts pool) \<and> length (cp_contexts pool) mod CTX_POOL_ALLOC = 0 \<and>
     (\<forall>i < cp_num pool. cp_contexts pool ! i \<noteq> None) \<and> (cp_num pool = 0 \<longrightarrow> cp_contexts pool = [])"

lemma contexts_of_length [simp]: "ctx_pool_inv pool \<Longrightarrow> length (contexts_of pool) = cp_num pool"
  by (simp add: contexts_of_def ctx_pool_inv_def)

lemma ctx_pool_append:
  assumes "ctx_pool_inv pool" and "cp_num pool < length arr" and "length arr mod CTX_POOL_ALLOC = 0"
    and "take (cp_num pool) arr = take (cp_num pool) (cp_contexts pool)"
  shows "ctx_pool_inv \<lparr>cp_contexts = arr[cp_num pool := Some c], cp_num = Suc (cp_num pool)\<rparr>"
    and "contexts_of \<lparr>cp_contexts = arr[cp_num pool := Some c], cp_num = Suc (cp_num pool)\<rparr> = contexts_of pool @ [c]"
proof -
  have "arr ! i = cp_contexts pool ! i" if "i < cp_num pool" for i
    using assms(4) that by (metis nth_take)
  then show "ctx_pool_inv \<lparr>cp_contexts = arr[cp_num pool := Some c], cp_num = Suc (cp_num pool)\<rparr>"
    using assms by (auto simp: ctx_pool_inv_def nth_list_update less_Suc_eq)
  show "contexts_of \<lparr>cp_contexts = arr[cp_num pool := Some c], cp_num = Suc (cp_num pool)\<rparr> = contexts_of pool @ [c]"
    using assms(2,4) by (simp add: contexts_of_def take_Suc_conv_app_nth)
qed

lemma length_resize [simp]: "length (resize n xs) = n"
  by (simp add: resize_def)

lemma take_resize [simp]: "m \<le> n \<Longrightarrow> m \<le> length xs \<Longrightarrow> take m (resize n xs) = take m xs"
  by (simp add: resize_def min_def)

lemma wp_ctx_pool_room:
  assumes "ctx_pool_inv pool" and "\<And>n e. fst (E_malloc E n e)"
  shows "wp (ctx_pool_room E pool) (\<lambda>room _. \<exists>arr. room = Some arr \<and> cp_num pool < length arr \<and>
     length arr mod CTX_POOL_ALLOC = 0 \<and> take (cp_num pool) arr = take (cp_num pool) (cp_contexts pool)) w"
proof -
  have m: "E_malloc E n e = (b, e') \<Longrightarrow> b" for n e b e' using assms(2) [of n e] by simp
  have "cp_num pool \<noteq> length (cp_contexts pool)" if "cp_num pool mod CTX_POOL_ALLOC \<noteq> 0"
    using that assms(1) by (auto simp: ctx_pool_inv_def)
  then show ?thesis using assms(1)
    by (auto simp: ctx_pool_room_def ctx_pool_inv_def wp_simps CTX_POOL_ALLOC_def
        split: prod.split dest!: m)
qed

text \<open>
  C24. With locks and memory available, adding a context appends it, whatever the size of the array: the write is always
  inside the allocated block and no context is lost.
\<close>

theorem context_add_appends:
  assumes "ctx_pool_inv pool" and "\<And>l e. fst (E_lock E l e)" and "\<And>n e. fst (E_malloc E n e)"
  shows "wp (context_add_pool E c pool) (\<lambda>pool' _. ctx_pool_inv pool' \<and> contexts_of pool' = contexts_of pool @ [c]) w"
proof -
  have l: "E_lock E l e = (b, e') \<Longrightarrow> b" for l e b e' using assms(2) [of l e] by simp
  have room: "wp (ctx_pool_room E pool) (\<lambda>room v. wp (p11prov_mutex_unlock E LkCtxPool) (\<lambda>_ _. (\<lambda>pool'. ctx_pool_inv pool' \<and>
      contexts_of pool' = contexts_of pool @ [c]) (case room of None \<Rightarrow> pool
         | Some arr \<Rightarrow> \<lparr>cp_contexts = arr[cp_num pool := Some c], cp_num = Suc (cp_num pool)\<rparr>)) v) w" for w
    by (rule wp_mono [OF wp_ctx_pool_room [OF assms(1,3)]])
      (auto simp: wp_simps ctx_pool_append [OF assms(1)] split: prod.split)
  show ?thesis
    unfolding context_add_pool_def using room by (auto simp: wp_bind wp_mutex_lock wp_return split: prod.split dest!: l)
qed

lemma take_shift:
  assumes "0 < i" and "i \<le> length xs"
  shows "take i (xs[i - Suc 0 := x]) = take (i - Suc 0) xs @ [x]"
  using assms by (cases i) (simp_all add: take_Suc_conv_app_nth)

lemma rm_loop_found:
  assumes "0 < i" and "i \<le> n" and "n \<le> length arr"
  shows "\<exists>arr'. rm_loop c n i True arr = (True, arr') \<and> length arr' = length arr \<and>
     take (n - 1) arr' = take (i - 1) arr @ drop i (take n arr)"
  using assms
proof (induction "n - i" arbitrary: i arr)
  case 0
  then show ?case by (simp add: rm_loop.simps)
next
  case (Suc k)
  then have i: "i < n" and k: "k = n - Suc i" by simp_all
  define arr1 where "arr1 = arr[i - 1 := arr ! i]"
  define arr2 where "arr2 = (if i = n - 1 then arr1[i := None] else arr1)"
  have "rm_loop c n i True arr = rm_loop c n (Suc i) True arr2"
    using i by (subst rm_loop.simps) (simp add: arr1_def arr2_def Let_def)
  moreover have len2: "length arr2 = length arr" by (simp add: arr1_def arr2_def)
  moreover obtain arr' where "rm_loop c n (Suc i) True arr2 = (True, arr')" "length arr' = length arr"
      "take (n - 1) arr' = take i arr2 @ drop (Suc i) (take n arr2)"
    using Suc.hyps(1) [of "Suc i" arr2] Suc.prems i k len2 by auto
  moreover have "take i arr2 = take (i - 1) arr @ [arr ! i]"
  proof -
    have "take i arr2 = take i arr1" by (simp add: arr2_def take_update_cancel)
    also have "\<dots> = take (i - 1) arr @ [arr ! i]" using Suc.prems i by (simp add: arr1_def take_shift)
    finally show ?thesis .
  qed
  moreover have "drop (Suc i) (take n arr2) = drop (Suc i) (take n arr)"
    using Suc.prems i by (simp add: arr1_def arr2_def take_update_swap drop_update_cancel)
  moreover have "arr ! i # drop (Suc i) (take n arr) = drop i (take n arr)"
    using Suc.prems i by (metis Cons_nth_drop_Suc length_take min.absorb2 nth_take)
  ultimately show ?case by simp
qed

lemma rm_loop_spec:
  assumes "i \<le> n" and "n \<le> length arr"
  shows "if Some c \<in> set (drop i (take n arr))
     then \<exists>arr'. rm_loop c n i False arr = (True, arr') \<and> length arr' = length arr \<and>
        take (n - 1) arr' = take i arr @ remove1 (Some c) (drop i (take n arr))
     else rm_loop c n i False arr = (False, arr)"
  using assms
proof (induction "n - i" arbitrary: i)
  case 0
  then show ?case by (simp add: rm_loop.simps)
next
  case (Suc k)
  then have i: "i < n" by simp
  have d: "drop i (take n arr) = arr ! i # drop (Suc i) (take n arr)"
    using Suc.prems i by (metis Cons_nth_drop_Suc length_take min.absorb2 nth_take)
  show ?case
  proof (cases "arr ! i = Some c")
    case True
    have "take i (arr[i := None]) = take i arr" by simp
    moreover have "drop (Suc i) (take n (arr[i := None])) = drop (Suc i) (take n arr)"
      by (simp add: take_update_swap drop_update_cancel)
    ultimately show ?thesis
      using rm_loop_found [of "Suc i" n "arr[i := None]" c] True Suc.prems i d
      by (subst (1 2) rm_loop.simps) auto
  next
    case False
    have "take (Suc i) arr = take i arr @ [arr ! i]" using Suc.prems i by (simp add: take_Suc_conv_app_nth)
    then show ?thesis
      using Suc.hyps(1) [of "Suc i"] Suc False i d
      by (subst (1 2) rm_loop.simps) (auto split: if_splits)
  qed
qed

text \<open>
  C25. Removing a context removes its first occurrence and keeps the order of the others; a context that is not in
  the pool changes nothing.
\<close>

theorem context_rm_removes:
  assumes inv: "ctx_pool_inv pool" and "\<And>l e. fst (E_lock E l e)"
  shows "wp (context_rm_pool E c pool) (\<lambda>pool' _. ctx_pool_inv pool' \<and> contexts_of pool' = remove1 c (contexts_of pool)) w"
proof -
  have l: "E_lock E l e = (b, e') \<Longrightarrow> b" for l e b e' using assms(2) [of l e] by simp
  let ?n = "cp_num pool" and ?arr = "cp_contexts pool"
  have n: "?n \<le> length ?arr" and some: "\<forall>i < ?n. ?arr ! i \<noteq> None" using inv by (simp_all add: ctx_pool_inv_def)
  have eq: "take ?n ?arr = map Some (contexts_of pool)"
    unfolding contexts_of_def using some n by (intro nth_equalityI) auto
  show ?thesis
  proof (cases "c \<in> set (contexts_of pool)")
    case False
    then have "rm_loop c ?n 0 False ?arr = (False, ?arr)"
      using rm_loop_spec [of 0 ?n ?arr c] n by (simp add: eq image_iff)
    then show ?thesis using False inv
      by (auto simp: context_rm_pool_def wp_simps remove1_idem ctx_pool_inv_def contexts_of_def split: prod.split dest!: l)
  next
    case True
    then obtain arr' where a: "rm_loop c ?n 0 False ?arr = (True, arr')" "length arr' = length ?arr"
        "take (?n - 1) arr' = remove1 (Some c) (map Some (contexts_of pool))"
      using rm_loop_spec [of 0 ?n ?arr c] n by (auto simp: eq)
    have r: "remove1 (Some c) (map Some xs) = map Some (remove1 c xs)" for xs :: "nat list" by (induction xs) auto
    have pos: "0 < ?n" using True inv by (metis contexts_of_length length_pos_if_in_set)
    have len: "length (remove1 c (contexts_of pool)) = ?n - 1" using True inv by (simp add: length_remove1)
    let ?pool = "\<lparr>cp_contexts = arr', cp_num = ?n - 1\<rparr>"
    have c: "contexts_of ?pool = remove1 c (contexts_of pool)" 
    proof -
      have "contexts_of ?pool = map the (take (?n - 1) arr')" by (simp add: contexts_of_def)
      then show ?thesis unfolding a(3) r by (simp add: comp_def)
    qed
    have "arr' ! i \<noteq> None" if "i < ?n - 1" for i
    proof -
      have "arr' ! i = map Some (remove1 c (contexts_of pool)) ! i" using a(3) r that by (metis nth_take)
      then show ?thesis using that len by simp
    qed
    then have "?n - 1 \<noteq> 0 \<Longrightarrow> ctx_pool_inv ?pool" using inv a(2) by (auto simp: ctx_pool_inv_def)
    moreover have "?n - 1 = 0 \<Longrightarrow> remove1 c (contexts_of pool) = []" using len by simp
    moreover have "ctx_pool_inv empty_ctx_pool" "contexts_of empty_ctx_pool = []"
      by (simp_all add: ctx_pool_inv_def empty_ctx_pool_def contexts_of_def)
    ultimately show ?thesis using c
      by (auto simp: context_rm_pool_def wp_simps a(1) split: prod.split dest!: l)
  qed
qed

section \<open>Witnesses\<close>


lemma empty_ctx_pool_inv: "ctx_pool_inv empty_ctx_pool"
  by (simp add: ctx_pool_inv_def empty_ctx_pool_def)

theorem context_add_appends_witness:
  "wp (context_add_pool sim_env 5 empty_ctx_pool) (\<lambda>pool' _. contexts_of pool' = [5]) sim_world"
  by (rule wp_mono [OF context_add_appends [OF empty_ctx_pool_inv]])
    (simp_all add: sim_env_def contexts_of_def empty_ctx_pool_def)

theorem context_rm_removes_witness:
  "wp (context_rm_pool sim_env 5 \<lparr>cp_contexts = [Some 4, Some 5, Some 6, None], cp_num = 3\<rparr>)
     (\<lambda>pool' _. contexts_of pool' = [4, 6]) sim_world"
proof -
  let ?pool = "\<lparr>cp_contexts = [Some 4, Some 5, Some 6, None], cp_num = 3\<rparr>"
  have inv: "ctx_pool_inv ?pool"
  proof -
    have three: "i < 3 \<longleftrightarrow> i = 0 \<or> i = 1 \<or> i = 2" for i :: nat by linarith
    show ?thesis by (auto simp: ctx_pool_inv_def CTX_POOL_ALLOC_def three)
  qed
  have c: "contexts_of ?pool = [4, 5, 6]" by (simp add: contexts_of_def numeral_3_eq_3)
  have l: "fst (E_lock sim_env l e)" for l e by (simp add: sim_env_def)
  show ?thesis by (rule wp_mono [OF context_rm_removes [OF inv l]]) (simp add: c)
qed

end
