(* ===== verification/P11_Module.thy ===== *)
theory P11_Module
  imports P11_Register P11_Context
begin

unbundle bit_operations_syntax

text \<open>
  Loading of the PKCS#11 module (\<^verbatim>\<open>src/src/interface.c\<close>) and the life cycle of a provider context
  (\<^verbatim>\<open>src/src/provider.c\<close>: \<open>p11prov_ctx_status\<close> and the fork handlers). The module context is a value that is passed
  along; its mutex is \<open>LkModule\<close>. The function pointers of an interface are the environment's functions, so that only
  the version and the flags of an interface are kept.
\<close>

section \<open>Model\<close>

record module_ctx =
  mo_path :: string
  mo_init_args :: "string option"
  mo_dlhandle :: bool
  mo_interface :: "p11prov_interface option"
  mo_ck_info :: ck_info
  mo_initialized :: bool
  mo_reinit :: bool

definition zero_info :: ck_info where
  "zero_info = \<lparr>ci_cryptokiVersion = (0, 0), ci_manufacturerID = [], ci_flags = 0, ci_libraryDescription = [],
     ci_libraryVersion = (0, 0)\<rparr>"

definition sizeof_interface :: nat where
  "sizeof_interface = 432"

definition sizeof_module_ctx :: nat where
  "sizeof_module_ctx = 176"

text \<open>\<open>C_GetInterface\<close>, or \<open>p11prov_NO_GetInterface\<close>; the argument says that version 3.2 is asked for.\<close>

definition get_interface :: "'e p11env \<Rightarrow> bool \<Rightarrow> bool \<Rightarrow> ('e world, CK_RV \<times> p11prov_interface) state" where
  "get_interface E available specific =
     (if available then ecall (E_GetInterface E specific)
      else ret (CKR_FUNCTION_NOT_SUPPORTED, \<lparr>if_version = (0, 0), if_flags = 0\<rparr>))"

definition p11prov_interface_init :: "'e p11env \<Rightarrow> module_ctx \<Rightarrow> ('e world, CK_RV \<times> module_ctx) state" where
  "p11prov_interface_init E mctx = do {
     ok \<leftarrow> ecall (E_malloc E sizeof_interface);
     if \<not> ok then ret (CKR_HOST_MEMORY, mctx)
     else do {
       gi \<leftarrow> ecall (E_dlsym E ''C_GetInterface'');
       (r, intf) \<leftarrow> get_interface E gi True;
       (r, intf) \<leftarrow> (if r \<noteq> CKR_OK \<and> r \<noteq> CKR_FUNCTION_NOT_SUPPORTED then get_interface E gi False else ret (r, intf));
       (r, intf) \<leftarrow>
         (if r = CKR_FUNCTION_NOT_SUPPORTED then do {
            fl \<leftarrow> ecall (E_dlsym E ''C_GetFunctionList'');
            if fl then do {
              (r, intf) \<leftarrow> ecall (E_GetFunctionList E);
              ret (r, intf\<lparr>if_flags := 0\<rparr>) }
            else ret (CKR_GENERAL_ERROR, intf) }
          else ret (r, intf));
       ret (r, if r = CKR_OK then mctx\<lparr>mo_interface := Some intf\<rparr> else mctx) } }"

text \<open>\<open>deflt\<close> is \<^verbatim>\<open>DEFAULT_PKCS11_MODULE\<close>, which a build may leave undefined.\<close>

definition p11prov_module_new ::
    "'e p11env \<Rightarrow> string option \<Rightarrow> string option \<Rightarrow> string option \<Rightarrow> ('e world, CK_RV \<times> module_ctx option) state" where
  "p11prov_module_new E deflt path init_args = do {
     ok \<leftarrow> ecall (E_malloc E sizeof_module_ctx);
     if \<not> ok then ret (CKR_HOST_MEMORY, None)
     else do {
       env \<leftarrow> ecall (E_getenv E ''PKCS11_PROVIDER_MODULE'');
       let src = (case env of
                    Some v \<Rightarrow> if v \<noteq> [] then Some v else (case path of Some p \<Rightarrow> Some p | None \<Rightarrow> deflt)
                  | None \<Rightarrow> (case path of Some p \<Rightarrow> Some p | None \<Rightarrow> deflt));
       case src of
         None \<Rightarrow> ret (CKR_ARGUMENTS_BAD, None)
       | Some p \<Rightarrow> do {
           ok \<leftarrow> ecall (E_malloc E (length p + 1));
           if \<not> ok then ret (CKR_HOST_MEMORY, None)
           else do {
             ok \<leftarrow> (case init_args of None \<Rightarrow> ret True | Some a \<Rightarrow> ecall (E_malloc E (length a + 1)));
             if \<not> ok then ret (CKR_HOST_MEMORY, None)
             else do {
               r \<leftarrow> p11prov_mutex_init E LkModule;
               if r \<noteq> CKR_OK then ret (r, None)
               else ret (CKR_OK, Some \<lparr>mo_path = p, mo_init_args = init_args, mo_dlhandle = False, mo_interface = None,
                 mo_ck_info = zero_info, mo_initialized = False, mo_reinit = False\<rparr>) } } } } }"

text \<open>
  The wrappers of \<^verbatim>\<open>interface.gen.c\<close> around the module: without an interface, or when the context must not touch the module
  any more, or when the call is blocked, they fail without calling it. Only \<open>GetOperationState\<close> and \<open>SetOperationState\<close> have a
  mask other than 0 in \<^verbatim>\<open>interface.h\<close>. A function the module's list lacks is one that returns
  \<open>CKR_FUNCTION_NOT_SUPPORTED\<close>.
\<close>

definition p11prov_ctx_get_interface :: "p11prov_ctx \<Rightarrow> module_ctx option \<Rightarrow> p11prov_interface option" where
  "p11prov_ctx_get_interface ctx m =
     (if cx_status ctx = P11PROV_NO_DEINIT then None else Option.bind m mo_interface)"

definition p11prov_ctx_is_call_blocked :: "p11prov_ctx \<Rightarrow> 64 word \<Rightarrow> bool" where
  "p11prov_ctx_is_call_blocked ctx bits \<longleftrightarrow> cx_blocked_calls ctx AND bits \<noteq> 0"

definition P11PROV_BLOCK_Initialize :: "64 word" where "P11PROV_BLOCK_Initialize = 0"
definition P11PROV_BLOCK_Finalize :: "64 word" where "P11PROV_BLOCK_Finalize = 0"
definition P11PROV_BLOCK_GetInfo :: "64 word" where "P11PROV_BLOCK_GetInfo = 0"

definition wrapped :: "module_ctx \<Rightarrow> 64 word \<Rightarrow> 'a \<Rightarrow> ('e \<Rightarrow> (CK_RV \<times> 'a) \<times> 'e) \<Rightarrow> ('e world, CK_RV \<times> 'a) state" where
  "wrapped mctx bits none f = do {
     ctx \<leftarrow> gets w_ctx;
     case p11prov_ctx_get_interface ctx (Some mctx) of
       None \<Rightarrow> ret (CKR_GENERAL_ERROR, none)
     | Some _ \<Rightarrow>
         if p11prov_ctx_is_call_blocked ctx bits then ret (CKR_FUNCTION_NOT_SUPPORTED, none) else ecall f }"

definition only_rv :: "('e \<Rightarrow> CK_RV \<times> 'e) \<Rightarrow> 'e \<Rightarrow> (CK_RV \<times> unit) \<times> 'e" where
  "only_rv f e = (case f e of (r, e') \<Rightarrow> ((r, ()), e'))"

definition p11prov_Initialize :: "'e p11env \<Rightarrow> module_ctx \<Rightarrow> ('e world, CK_RV \<times> unit) state" where
  "p11prov_Initialize E mctx = wrapped mctx P11PROV_BLOCK_Initialize () (only_rv (E_Initialize E (mo_init_args mctx)))"

definition p11prov_Finalize :: "'e p11env \<Rightarrow> module_ctx \<Rightarrow> ('e world, CK_RV \<times> unit) state" where
  "p11prov_Finalize E mctx = wrapped mctx P11PROV_BLOCK_Finalize () (only_rv (E_Finalize E))"

definition p11prov_GetInfo :: "'e p11env \<Rightarrow> module_ctx \<Rightarrow> ck_info \<Rightarrow> ('e world, CK_RV \<times> ck_info) state" where
  "p11prov_GetInfo E mctx info = wrapped mctx P11PROV_BLOCK_GetInfo info (E_GetInfo E)"

definition trim_info :: "ck_info \<Rightarrow> ck_info" where
  "trim_info i = i\<lparr>ci_manufacturerID := trim_padded_field (ci_manufacturerID i),
     ci_libraryDescription := trim_padded_field (ci_libraryDescription i)\<rparr>"

definition p11prov_ctx_set_slots :: "'e p11env \<Rightarrow> slots_ctx option \<Rightarrow> ('e world, unit) state" where
  "p11prov_ctx_set_slots E slots = do {
     old \<leftarrow> gets w_slots;
     _ \<leftarrow> (case old of None \<Rightarrow> ret True | Some _ \<Rightarrow> p11prov_free_slots E old);
     modify (\<lambda>w. w\<lparr>w_slots := slots\<rparr>) }"

text \<open>The part of \<open>p11prov_module_init\<close> after the interface was obtained.\<close>

definition start_module :: "'e p11env \<Rightarrow> module_ctx \<Rightarrow> ('e world, CK_RV \<times> module_ctx) state" where
  "start_module E mctx = do {
     (r, _) \<leftarrow> p11prov_Initialize E mctx;
     if r \<noteq> CKR_OK \<and> r \<noteq> CKR_CRYPTOKI_ALREADY_INITIALIZED then ret (r, mctx)
     else do {
       (r, info) \<leftarrow> p11prov_GetInfo E mctx (mo_ck_info mctx);
       let mctx = mctx\<lparr>mo_ck_info := info\<rparr>;
       if r \<noteq> CKR_OK then ret (r, mctx)
       else do {
         let mctx = mctx\<lparr>mo_ck_info := trim_info info\<rparr>;
         (r, slots) \<leftarrow> p11prov_init_slots E (fst (if_version (the (mo_interface mctx))));
         if r \<noteq> CKR_OK then ret (r, mctx)
         else do { p11prov_ctx_set_slots E slots; ret (CKR_OK, mctx) } } } }"

definition load_module :: "'e p11env \<Rightarrow> module_ctx \<Rightarrow> ('e world, CK_RV \<times> module_ctx) state" where
  "load_module E mctx = do {
     ok \<leftarrow> ecall (E_dlopen E (mo_path mctx));
     let mctx = mctx\<lparr>mo_dlhandle := ok\<rparr>;
     if \<not> ok then ret (CKR_GENERAL_ERROR, mctx)
     else do {
       (r, mctx) \<leftarrow> p11prov_interface_init E mctx;
       if r \<noteq> CKR_OK then ret (r, mctx) else start_module E mctx } }"

definition p11prov_module_init :: "'e p11env \<Rightarrow> module_ctx option \<Rightarrow> ('e world, CK_RV \<times> module_ctx option) state" where
  "p11prov_module_init E x = (case x of
     None \<Rightarrow> ret (CKR_GENERAL_ERROR, None)
   | Some mctx \<Rightarrow> do {
       r \<leftarrow> p11prov_mutex_lock E LkModule;
       if r \<noteq> CKR_OK then ret (r, x)
       else do {
         (r, mctx) \<leftarrow> (if mo_initialized mctx then ret (CKR_OK, mctx) else load_module E mctx);
         _ \<leftarrow> p11prov_mutex_unlock E LkModule;
         ret (r, Some mctx) } })"

definition p11prov_module_mark_reinit :: "module_ctx \<Rightarrow> module_ctx" where
  "p11prov_module_mark_reinit mctx = mctx\<lparr>mo_reinit := True\<rparr>"

text \<open>The comparison of the module before and after; \<^verbatim>\<open>strncmp\<close> compares up to a NUL and at most 32 characters.\<close>

definition same_module :: "ck_info \<Rightarrow> ck_info \<Rightarrow> bool" where
  "same_module i j \<longleftrightarrow> ci_cryptokiVersion i = ci_cryptokiVersion j \<and>
     strneq 32 (ci_manufacturerID i) (ci_manufacturerID j) \<and> ci_flags i = ci_flags j \<and>
     strneq 32 (ci_libraryDescription i) (ci_libraryDescription j) \<and> ci_libraryVersion i = ci_libraryVersion j"

definition restart_module :: "'e p11env \<Rightarrow> module_ctx \<Rightarrow> ('e world, CK_RV \<times> module_ctx) state" where
  "restart_module E mctx = do {
     _ \<leftarrow> p11prov_Finalize E mctx;
     (r, _) \<leftarrow> p11prov_Initialize E mctx;
     if r \<noteq> CKR_OK \<and> r \<noteq> CKR_CRYPTOKI_ALREADY_INITIALIZED then ret (r, mctx)
     else do {
       let mctx = mctx\<lparr>mo_reinit := False\<rparr>;
       (r, info) \<leftarrow> p11prov_GetInfo E mctx zero_info;
       if r \<noteq> CKR_OK then ret (r, mctx)
       else ret (if same_module (trim_info info) (mo_ck_info mctx) then CKR_OK else CKR_GENERAL_ERROR, mctx) } }"

definition p11prov_module_reinit :: "'e p11env \<Rightarrow> module_ctx option \<Rightarrow> ('e world, CK_RV \<times> module_ctx option) state" where
  "p11prov_module_reinit E x = (case x of
     None \<Rightarrow> ret (CKR_GENERAL_ERROR, None)
   | Some mctx \<Rightarrow> do {
       r \<leftarrow> p11prov_mutex_lock E LkModule;
       if r \<noteq> CKR_OK then ret (r, x)
       else do {
         (r, mctx) \<leftarrow> (if \<not> mo_reinit mctx then ret (r, mctx) else restart_module E mctx);
         _ \<leftarrow> p11prov_mutex_unlock E LkModule;
         ret (r, Some mctx) } })"

definition p11prov_module_free :: "'e p11env \<Rightarrow> module_ctx option \<Rightarrow> ('e world, unit) state" where
  "p11prov_module_free E x = (case x of
     None \<Rightarrow> ret ()
   | Some mctx \<Rightarrow> if mo_dlhandle mctx then do { _ \<leftarrow> p11prov_Finalize E mctx; ret () } else ret ())"

subsection \<open>The life cycle of a context\<close>

text \<open>A context with its module and its algorithm tables; the other fields of the context are in the world.\<close>

record prov =
  pv_module :: "module_ctx option"
  pv_op :: "op_id \<Rightarrow> cell_val list"

abbreviation set_status :: "ctx_status \<Rightarrow> ('e world, unit) state" where
  "set_status st \<equiv> modify (\<lambda>w. w\<lparr>w_ctx := (w_ctx w)\<lparr>cx_status := st\<rparr>\<rparr>)"

text \<open>Setting the status from a result, and the registration of the operations after the module is initialised.\<close>

definition set_outcome :: "CK_RV \<Rightarrow> prov \<Rightarrow> ('e world, CK_RV \<times> prov) state" where
  "set_outcome r pv = do {
     set_status (if r \<noteq> CKR_OK then P11PROV_IN_ERROR else P11PROV_INITIALIZED);
     ret (r, pv) }"

definition init_operations :: "'e p11env \<Rightarrow> bool \<Rightarrow> bool \<Rightarrow> prov \<Rightarrow> ('e world, CK_RV \<times> prov) state" where
  "init_operations E msg skey pv = do {
     (r, op) \<leftarrow> operations_init E msg skey (pv_op pv);
     set_outcome r (pv\<lparr>pv_op := op\<rparr>) }"

definition p11prov_ctx_status :: "'e p11env \<Rightarrow> bool \<Rightarrow> bool \<Rightarrow> prov \<Rightarrow> ('e world, CK_RV \<times> prov) state" where
  "p11prov_ctx_status E msg skey pv = do {
     status \<leftarrow> gets (\<lambda>w. cx_status (w_ctx w));
     case status of
       P11PROV_UNINITIALIZED \<Rightarrow> do {
         (r, m) \<leftarrow> p11prov_module_init E (pv_module pv);
         let pv = pv\<lparr>pv_module := m\<rparr>;
         if r \<noteq> CKR_OK then set_outcome r pv else init_operations E msg skey pv }
     | P11PROV_INITIALIZED \<Rightarrow> ret (CKR_OK, pv)
     | P11PROV_NO_DEINIT \<Rightarrow> ret (CKR_OK, pv)
     | P11PROV_NEEDS_REINIT \<Rightarrow> do {
         (r, m) \<leftarrow> p11prov_module_reinit E (pv_module pv);
         set_outcome r (pv\<lparr>pv_module := m\<rparr>) }
     | P11PROV_IN_ERROR \<Rightarrow> ret (CKR_GENERAL_ERROR, pv) }"

text \<open>What the fork handlers do for one context of the pool.\<close>

definition fork_prepare :: "'e p11env \<Rightarrow> ('e world, unit) state" where
  "fork_prepare E = do {
     status \<leftarrow> gets (\<lambda>w. cx_status (w_ctx w));
     if status = P11PROV_INITIALIZED then p11prov_slot_fork_prepare E else ret () }"

definition fork_parent :: "'e p11env \<Rightarrow> ('e world, unit) state" where
  "fork_parent E = do {
     status \<leftarrow> gets (\<lambda>w. cx_status (w_ctx w));
     if status = P11PROV_INITIALIZED then p11prov_slot_fork_release E else ret () }"

definition fork_child :: "'e p11env \<Rightarrow> prov \<Rightarrow> ('e world, prov) state" where
  "fork_child E pv = do {
     status \<leftarrow> gets (\<lambda>w. cx_status (w_ctx w));
     if status = P11PROV_INITIALIZED then do {
       set_status P11PROV_NEEDS_REINIT;
       p11prov_slot_fork_reset E;
       ret (pv\<lparr>pv_module := map_option p11prov_module_mark_reinit (pv_module pv)\<rparr>) }
     else ret pv }"

definition p11prov_rand_instantiate :: "'e p11env \<Rightarrow> bool \<Rightarrow> bool \<Rightarrow> prov \<Rightarrow> ('e world, int \<times> prov) state" where
  "p11prov_rand_instantiate E msg skey pv = do {
     (r, pv) \<leftarrow> p11prov_ctx_status E msg skey pv;
     ret (if r \<noteq> CKR_OK then RET_OSSL_ERR else RET_OSSL_OK, pv) }"

section \<open>What the registration of the algorithms leaves alone\<close>

context world_preorder
begin

lemma keeps_exec_all: "(\<And>f st. f \<in> set fs \<Longrightarrow> keeps R (f st)) \<Longrightarrow> keeps R (exec_all fs st)"
  by (induction fs arbitrary: st) (auto intro!: keeps_ret keeps_bind keeps_prod)

lemma keeps_store_alg: "keeps R (store_alg E op alg st)"
  unfolding store_alg_def alg_set_op_def by (intro keeps_rules)

lemma keeps_term_algo: "keeps R (term_algo E op st)"
  unfolding term_algo_def by (intro keeps_rules keeps_store_alg)

lemma keeps_exec_stmt: "keeps R (exec_stmt E pr s st)"
  unfolding exec_stmt_def add_algo_def by (cases s) (auto intro!: keeps_ret keeps_bind keeps_prod keeps_store_alg)

lemma keeps_exec_stmts: "keeps R (exec_stmts E pr ss st)"
  unfolding exec_stmts_def by (rule keeps_exec_all) (auto intro: keeps_exec_stmt)

lemma keeps_mechs_loop: "keeps R (mechs_loop E pr msg skey ms st)"
  by (induction ms arbitrary: st) (auto intro!: keeps_ret keeps_bind keeps_prod keeps_exec_stmts)

lemma keeps_init_random:
  assumes "keeps R (p11prov_check_random E)"
  shows "keeps R (init_random E pr st)"
  unfolding init_random_def
  by (rule keeps_bind [OF assms]) (auto simp del: exec_all.simps intro!: keeps_if keeps_ret keeps_exec_all keeps_exec_stmt keeps_term_algo)

lemma keeps_operations_init:
  assumes "keeps R (p11prov_check_random E)"
  shows "keeps R (operations_init E msg skey op)"
  unfolding operations_init_def
  by (intro keeps_rules keeps_exec_stmts keeps_init_random [OF assms])
    (auto intro!: keeps_exec_all keeps_mechs_loop keeps_term_algo)

end

lemma safe_operations_init: "keeps (safe {}) (operations_init E msg skey op)"
  by (rule sf.keeps_operations_init [OF safe_check_random])

section \<open>The state of a context\<close>

lemma wp_ctx_status_outcome:
  "wp (p11prov_ctx_status E msg skey pv) (\<lambda>(r, _) w'. cx_status (w_ctx w') =
     (if r \<noteq> CKR_OK then P11PROV_IN_ERROR
      else if cx_status (w_ctx w) = P11PROV_NO_DEINIT then P11PROV_NO_DEINIT else P11PROV_INITIALIZED)) w"
proof (cases "cx_status (w_ctx w)")
qed (simp_all add: p11prov_ctx_status_def set_outcome_def init_operations_def wp_simps case_prod_beta cong: if_cong)


section \<open>First use\<close>

text \<open>
  \<open>loaded w m w'\<close>: what a successful \<open>p11prov_module_init\<close> leaves: a library handle, an interface, and slots that are ready;
  the sessions and the context are as before.
\<close>

definition loaded :: "'e world \<Rightarrow> module_ctx \<Rightarrow> 'e world \<Rightarrow> bool" where
  "loaded w m w' \<longleftrightarrow> mo_dlhandle m \<and> mo_interface m \<noteq> None \<and> (\<exists>s. w_slots w' = Some s \<and> sctx_ok w' s) \<and>
     w_sess w' = w_sess w \<and> w_ctx w' = w_ctx w"

lemma loaded_unobs [simp]:
  "loaded (w\<lparr>w_env := e\<rparr>) m w' = loaded w m w'" "loaded (w\<lparr>w_held := l\<rparr>) m w' = loaded w m w'"
  "loaded w m (w'\<lparr>w_env := e\<rparr>) = loaded w m w'" "loaded w m (w'\<lparr>w_held := l\<rparr>) = loaded w m w'"
  by (simp_all add: loaded_def sctx_ok_def slot_ok_def)

lemma env_only_held [simp]: "env_only w (w'\<lparr>w_held := l\<rparr>) = env_only w w'"
proof
  assume "env_only w (w'\<lparr>w_held := l\<rparr>)"
  then obtain e l' where "w'\<lparr>w_held := l\<rparr> = w\<lparr>w_env := e, w_held := l'\<rparr>" by (auto simp: env_only_def)
  then have "w' = w\<lparr>w_env := e, w_held := w_held w'\<rparr>" by (cases w; cases w') simp
  then show "env_only w w'" unfolding env_only_def by blast
next
  assume "env_only w w'"
  then obtain e l' where "w' = w\<lparr>w_env := e, w_held := l'\<rparr>" by (auto simp: env_only_def)
  then have "w'\<lparr>w_held := l\<rparr> = w\<lparr>w_env := e, w_held := l\<rparr>" by simp
  then show "env_only w (w'\<lparr>w_held := l\<rparr>)" unfolding env_only_def by blast
qed

lemma env_only_trans:
  assumes "env_only w w1" and "env_only w1 w2"
  shows "env_only w w2"
proof -
  obtain e l e' l' where "w1 = w\<lparr>w_env := e, w_held := l\<rparr>" "w2 = w1\<lparr>w_env := e', w_held := l'\<rparr>"
    using assms by (auto simp: env_only_def)
  then have "w2 = w\<lparr>w_env := e', w_held := l'\<rparr>" by simp
  then show ?thesis unfolding env_only_def by blast
qed

interpretation eo: world_preorder env_only
  by unfold_locales (auto intro: env_only_trans)

lemma wp_interface_init:
  "wp (p11prov_interface_init E m) (\<lambda>(r, m') w'. env_only w w' \<and>
     (if r = CKR_OK then \<exists>i. m' = m\<lparr>mo_interface := Some i\<rparr> else m' = m)) w"
  by (auto simp: p11prov_interface_init_def get_interface_def wp_simps split: prod.split)

lemma keeps_wrapped: "keeps env_only (wrapped m bits x f)"
  unfolding wrapped_def by (intro eo.keeps_rules)

lemma loaded_env_only: "env_only w v \<Longrightarrow> loaded v m w' = loaded w m w'"
  by (auto dest: env_only_simps simp: loaded_def)

lemma wp_set_slots:
  assumes "w_slots w = None" and "sctx_ok w s"
  shows "wp (p11prov_ctx_set_slots E (Some s)) (\<lambda>_ w'. w' = w\<lparr>w_slots := Some s\<rparr> \<and> sctx_ok w' s) w"
  using assms by (simp add: p11prov_ctx_set_slots_def wp_simps sctx_ok_def slot_ok_def)

lemma wp_start_module:
  assumes "w_slots w = None" and "mo_dlhandle m" and "mo_interface m \<noteq> None"
  shows "wp (start_module E m) (\<lambda>(r, m') w'. r = CKR_OK \<longrightarrow> loaded w m' w') w"
proof -
  have slots: "wp (do { (r, slots) \<leftarrow> p11prov_init_slots E n;
      if r \<noteq> CKR_OK then ret (r, m') else do { p11prov_ctx_set_slots E slots; ret (CKR_OK, m') } })
    (\<lambda>(r, m') w'. r = CKR_OK \<longrightarrow> loaded w m' w') v"
    if v: "env_only w v" "mo_dlhandle m'" "mo_interface m' \<noteq> None" for v m' n
  proof (rule wp_seq [OF wp_init_slots], clarify)
    fix r x v'
    assume x: "case x of None \<Rightarrow> r \<noteq> CKR_OK | Some sctx \<Rightarrow> r = CKR_OK \<and> sctx_ok v' sctx \<and> same_rest v v'"
    show "wp (if r \<noteq> CKR_OK then ret (r, m') else do { p11prov_ctx_set_slots E x; ret (CKR_OK, m') })
        (\<lambda>(r, m') w'. r = CKR_OK \<longrightarrow> loaded w m' w') v'"
    proof (cases x)
      case None
      then show ?thesis using x by (simp add: wp_simps)
    next
      case (Some s)
      then have s: "r = CKR_OK" "sctx_ok v' s" "same_rest v v'" using x by simp_all
      have "w_slots v' = None" using s(3) v(1) assms(1) by (auto simp: same_rest_def dest: env_only_simps)
      note set = wp_set_slots [OF this s(2)]
      show ?thesis
        unfolding Some using s v
        by (auto simp: wp_return loaded_def same_rest_def dest!: env_only_simps intro!: wp_seq [OF set])
    qed
  qed
  show ?thesis
    unfolding start_module_def p11prov_Initialize_def p11prov_GetInfo_def
  proof (rule wp_seq [OF keepsD [OF keeps_wrapped]], clarify, rule wp_ifI)
    fix r u v
    assume v: "env_only w v"
    show "wp (do { (r, info) \<leftarrow> wrapped m P11PROV_BLOCK_GetInfo (mo_ck_info m) (E_GetInfo E);
       let mctx = m\<lparr>mo_ck_info := info\<rparr>;
       if r \<noteq> CKR_OK then ret (r, mctx)
       else do {
         let mctx = mctx\<lparr>mo_ck_info := trim_info info\<rparr>;
         (r, slots) \<leftarrow> p11prov_init_slots E (fst (if_version (the (mo_interface mctx))));
         if r \<noteq> CKR_OK then ret (r, mctx)
         else do { p11prov_ctx_set_slots E slots; ret (CKR_OK, mctx) } } }) (\<lambda>(r, m') w'. r = CKR_OK \<longrightarrow> loaded w m' w') v"
      by (rule wp_seq [OF keepsD [OF keeps_wrapped]])
        (use assms v in \<open>auto simp: Let_def wp_return intro!: wp_ifI slots intro: env_only_trans\<close>)
  qed (simp add: wp_return)
qed

lemma wp_module_init:
  assumes "w_slots w = None" and "\<not> mo_initialized m"
  shows "wp (p11prov_module_init E (Some m)) (\<lambda>(r, x) w'. r = CKR_OK \<longrightarrow> (\<exists>m'. x = Some m' \<and> loaded w m' w')) w"
proof -
  let ?Q = "\<lambda>(r, x) w'. r = CKR_OK \<longrightarrow> (\<exists>m'. x = Some m' \<and> loaded w m' w')"
  have start: "wp (start_module E m') (\<lambda>(r, m') w'. r = CKR_OK \<longrightarrow> loaded w m' w') v"
    if "env_only w v" "mo_dlhandle m'" "mo_interface m' \<noteq> None" for v m'
    using wp_start_module [of v m' E] that assms(1) by (auto simp: loaded_env_only dest!: env_only_simps)
  have body: "wp (load_module E m) (\<lambda>(r, m') w'. r = CKR_OK \<longrightarrow> loaded w m' w') v"
    if v: "env_only w v" for v
    unfolding load_module_def
    by (rule wp_seq [OF keepsD [OF eo.keeps_ecall]])
      (use v in \<open>auto simp: Let_def wp_return intro!: wp_ifI wp_seq [OF wp_interface_init] start intro: env_only_trans\<close>)
  have fin: "wp (do { _ \<leftarrow> p11prov_mutex_unlock E LkModule; ret (r, Some m') }) ?Q v"
    if "r = CKR_OK \<longrightarrow> loaded w m' v" for r m' v
    using that by (simp add: wp_simps split: prod.split)
  show ?thesis
    unfolding p11prov_module_init_def option.case if_not_P [OF assms(2)]
    by (rule wp_seq [OF keepsD [OF eo.keeps_lock]], rule wp_ifI, simp add: wp_return, rule wp_seq [OF body], assumption)
      (auto intro: fin)
qed

lemma slots_ready_inv:
  assumes "heap_ok (w_sess w)" and "w_slots w = Some s" and "sctx_ok w s"
  shows "api_inv w"
  using assms by (fastforce simp: api_inv_def slots_list_def sctx_ok_def slot_ok_def pool_inv_def)

lemma api_inv_ctx [simp]: "api_inv (w\<lparr>w_ctx := c\<rparr>) = api_inv w"
  by (simp add: api_inv_def slots_list_def pool_inv_def)

lemma wp_first_use:
  assumes "cx_status (w_ctx w) = P11PROV_UNINITIALIZED" and "heap_ok (w_sess w)" and "w_slots w = None"
    and "pv_module pv = Some m" and "\<not> mo_initialized m"
  shows "wp (p11prov_ctx_status E msg skey pv) (\<lambda>(r, pv') w'. r = CKR_OK \<longrightarrow> api_inv w' \<and> w_slots w' \<noteq> None \<and>
     (\<exists>m'. pv_module pv' = Some m' \<and> mo_dlhandle m' \<and> mo_interface m' \<noteq> None)) w"
proof -
  let ?Q = "\<lambda>(r, pv') w'. r = CKR_OK \<longrightarrow> api_inv w' \<and> w_slots w' \<noteq> None \<and>
     (\<exists>m'. pv_module pv' = Some m' \<and> mo_dlhandle m' \<and> mo_interface m' \<noteq> None)"
  have ops: "wp (init_operations E msg skey pv') ?Q v" if v: "loaded w m' v" "pv_module pv' = Some m'" for v m' pv'
    unfolding init_operations_def
  proof (rule wp_seq [OF keepsD [OF safe_operations_init]])
    fix r v'
    assume "safe {} v v'"
    moreover have ok: "heap_ok (w_sess v)" using v(1) assms(2) by (simp add: loaded_def)
    moreover have "api_inv v" using v(1) ok by (auto simp: loaded_def intro: slots_ready_inv)
    ultimately have "api_inv v'" "w_slots v' = None \<longleftrightarrow> w_slots v = None" by (auto intro: api_inv_safe simp: safe_def)
    then show "wp (case r of (r, op) \<Rightarrow> set_outcome r (pv'\<lparr>pv_op := op\<rparr>)) ?Q v'"
      using v by (cases r) (auto simp: wp_simps loaded_def set_outcome_def)
  qed
  show ?thesis
    unfolding p11prov_ctx_status_def wp_bind [of "gets _"] wp_gets assms(1) ctx_status.case assms(4)
  proof (rule wp_seq [OF wp_module_init [OF assms(3,5)]], clarify, unfold Let_def, rule wp_ifI)
    fix r x v
    assume x: "r = CKR_OK \<longrightarrow> (\<exists>m'. x = Some m' \<and> loaded w m' v)"
    show "wp (set_outcome r (pv\<lparr>pv_module := x\<rparr>)) ?Q v" if "r \<noteq> CKR_OK"
      using that by (simp add: set_outcome_def wp_simps)
    show "wp (init_operations E msg skey (pv\<lparr>pv_module := x\<rparr>)) ?Q v" if ok: "\<not> r \<noteq> CKR_OK"
    proof -
      obtain m' where m': "x = Some m'" "loaded w m' v" using x ok by auto
      show ?thesis unfolding m'(1) by (rule ops [OF m'(2)]) simp
    qed
  qed
qed


subsection \<open>A module that works\<close>

text \<open>
  \<open>cooperative E\<close>: memory and locks are available, the library can be opened and offers an interface, and the module answers
  the calls of the initialisation. Nothing is said about the content of the slots: a slot may have no token.
\<close>

definition cooperative :: "'e p11env \<Rightarrow> bool" where
  "cooperative E \<longleftrightarrow>
     (\<forall>n e. fst (E_malloc E n e)) \<and> (\<forall>l e. fst (E_lock E l e)) \<and> (\<forall>l e. fst (E_mutex_init E l e)) \<and>
     (\<forall>p e. fst (E_dlopen E p e)) \<and> (\<forall>s e. fst (E_dlsym E s e)) \<and>
     (\<forall>b e. fst (fst (E_GetInterface E b e)) = CKR_OK) \<and> (\<forall>a e. fst (E_Initialize E a e) = CKR_OK) \<and>
     (\<forall>e. fst (fst (E_GetInfo E e)) = CKR_OK) \<and>
     (\<forall>e. fst (fst (E_GetSlotCount E e)) = CKR_OK \<and> snd (fst (E_GetSlotCount E e)) \<le> 0x10000) \<and>
     (\<forall>n e. fst (fst (E_GetSlotList E n e)) = CKR_OK) \<and> (\<forall>i e. fst (fst (E_GetSlotInfo E i e)) = CKR_OK) \<and>
     (\<forall>i e. fst (fst (E_GetTokenInfo E i e)) = CKR_OK)"

lemma cooperativeD:
  assumes "cooperative E"
  shows "E_malloc E n e = (b, e') \<Longrightarrow> b" "E_lock E l e = (b, e') \<Longrightarrow> b" "E_mutex_init E l e = (b, e') \<Longrightarrow> b"
    "E_dlopen E s e = (b, e') \<Longrightarrow> b" "E_dlsym E s e = (b, e') \<Longrightarrow> b" "E_GetInterface E b e = ((r, i), e') \<Longrightarrow> r = CKR_OK"
    "E_Initialize E a e = (r, e') \<Longrightarrow> r = CKR_OK" "E_GetInfo E e = ((r, info), e') \<Longrightarrow> r = CKR_OK"
    "E_GetSlotCount E e = ((r, num), e') \<Longrightarrow> r = CKR_OK \<and> num \<le> 0x10000" "E_GetSlotList E n e = ((r, ids), e') \<Longrightarrow> r = CKR_OK"
    "E_GetSlotInfo E sid e = ((r, si), e') \<Longrightarrow> r = CKR_OK" "E_GetTokenInfo E sid e = ((r, ti), e') \<Longrightarrow> r = CKR_OK"
  using assms unfolding cooperative_def by (metis fst_conv snd_conv)+

lemma wp_True_eq: "wp m (\<lambda>_ _. True) = (\<lambda>_. True)"
  by (simp add: fun_eq_iff)

lemma init_slot_rest_works:
  assumes "cooperative E"
  shows "wp (init_slot_rest E major slot) (\<lambda>(r, _) _. r = CKR_OK) w"
proof -
  have mem: "p11prov_alloc_sprintf (\<lambda>n. fst (E_malloc E n (w_env w))) h s = SpBuf s" for h s
    by (rule alloc_sprintf_ok) (use assms in \<open>simp add: cooperative_def\<close>)
  have pool: "wp (p11prov_session_pool_init E tok sid) (\<lambda>(r, _) _. r = CKR_OK) v" for tok sid v
    by (auto simp: p11prov_session_pool_init_def wp_simps split: prod.split dest!: cooperativeD [OF assms])
  have objs: "wp (p11prov_obj_pool_init E sid) (\<lambda>(r, _) _. r = CKR_OK) v" for sid v
    by (auto simp: p11prov_obj_pool_init_def wp_simps split: prod.split dest!: cooperativeD [OF assms])
  show ?thesis
    unfolding init_slot_rest_def wp_bind [of "gets _"] wp_gets mem sprintf_out.case Let_def
    by (rule wp_seq [OF pool], clarify, simp only: HOL.simp_thms not_True_eq_False if_False,
        rule wp_seq [OF objs], clarify, simp only: HOL.simp_thms not_True_eq_False if_False)
      (simp add: wp_bind wp_return wp_True_eq)
qed

lemma init_slots_loop_works:
  assumes "cooperative E"
  shows "wp (init_slots_loop E major ids CKR_OK sctx) (\<lambda>(r, _) _. r = CKR_OK) w"
proof (induction ids arbitrary: sctx w)
  case Nil
  then show ?case by (simp add: wp_simps)
next
  case (Cons i ids)
  have rest: "wp (do { (r, slot) \<leftarrow> init_slot_rest E major slot;
       let sctx' = sctx\<lparr>sc_slots := sc_slots sctx @ [slot]\<rparr>;
       if r \<noteq> CKR_OK then ret (r, sctx')
       else init_slots_loop E major ids r
         (if sc_default_slot sctx' = CK_UNAVAILABLE_INFORMATION \<and> default_candidate slot
          then sctx'\<lparr>sc_default_slot := sl_id slot\<rparr> else sctx') }) (\<lambda>(r, _) _. r = CKR_OK) v" for slot v
    by (rule wp_seq [OF init_slot_rest_works [OF assms]], clarify)
      (simp only: Let_def HOL.simp_thms not_True_eq_False if_False Cons.IH)
  show ?case
    unfolding init_slots_loop.simps
    using Cons.IH rest
    by (auto simp: wp_bind [of "ecall _"] wp_ecall wp_if wp_return wp_case_prod wp_Let split: prod.split
        simp del: init_slots_loop.simps dest!: cooperativeD [OF assms])
qed

lemma init_slots_works:
  assumes "cooperative E"
  shows "wp (p11prov_init_slots E major) (\<lambda>(r, _) _. r = CKR_OK) w"
  unfolding p11prov_init_slots_def
  by (auto simp: wp_simps split: prod.split dest!: cooperativeD [OF assms]
      intro!: wp_mono [OF init_slots_loop_works [OF assms]])

lemma interface_init_works:
  assumes "cooperative E" and "env_only w v"
  shows "wp (p11prov_interface_init E m) (\<lambda>(r, m') w'. r = CKR_OK \<and> (\<exists>i. m' = m\<lparr>mo_interface := Some i\<rparr>) \<and> env_only w w') v"
  using assms(2)
  by (auto simp: p11prov_interface_init_def get_interface_def wp_simps split: prod.split dest!: cooperativeD [OF assms(1)])

lemma not_blocked [simp]: "\<not> p11prov_ctx_is_call_blocked c 0"
  by (simp add: p11prov_ctx_is_call_blocked_def)

lemma wrapped_works:
  assumes "cx_status (w_ctx w) \<noteq> P11PROV_NO_DEINIT" and "mo_interface m \<noteq> None"
  shows "wp (wrapped m 0 x f) Q w = wp (ecall f) Q w"
  using assms by (auto simp: wrapped_def p11prov_ctx_get_interface_def wp_simps)

lemma start_module_works:
  assumes "cooperative E" and "cx_status (w_ctx w) \<noteq> P11PROV_NO_DEINIT" and "mo_interface m \<noteq> None"
  shows "wp (start_module E m) (\<lambda>(r, _) _. r = CKR_OK) w"
proof -
  have slots: "wp (do { (r, slots) \<leftarrow> p11prov_init_slots E n;
      if r \<noteq> CKR_OK then ret (r, m') else do { p11prov_ctx_set_slots E slots; ret (CKR_OK, m') } })
    (\<lambda>(r, _) _. r = CKR_OK) v" for n m' v
    by (rule wp_seq [OF init_slots_works [OF assms(1)]], clarify)
      (simp add: wp_bind [of "p11prov_ctx_set_slots _ _"] wp_return)
  have init: "wp (p11prov_Initialize E m) (\<lambda>(r, _) w'. r = CKR_OK \<and> env_only w w') w"
    unfolding p11prov_Initialize_def P11PROV_BLOCK_Initialize_def wrapped_works [OF assms(2,3)]
    by (auto simp: wp_simps only_rv_def split: prod.split dest!: cooperativeD [OF assms(1)])
  have info: "wp (p11prov_GetInfo E m x) (\<lambda>(r, _) w'. r = CKR_OK) v" if "env_only w v" for x v
  proof -
    have st: "cx_status (w_ctx v) \<noteq> P11PROV_NO_DEINIT" using that assms(2) by (auto dest: env_only_simps)
    show ?thesis unfolding p11prov_GetInfo_def P11PROV_BLOCK_GetInfo_def wrapped_works [OF st assms(3)]
      by (auto simp: wp_simps split: prod.split dest!: cooperativeD [OF assms(1)])
  qed
  show ?thesis
    unfolding start_module_def
    by (rule wp_seq [OF init], clarify, simp only: HOL.simp_thms not_True_eq_False if_False,
        rule wp_seq [OF info], assumption, clarify)
      (simp only: Let_def HOL.simp_thms not_True_eq_False if_False slots)
qed

lemma load_module_works:
  assumes "cooperative E" and "cx_status (w_ctx w) \<noteq> P11PROV_NO_DEINIT"
  shows "wp (load_module E m) (\<lambda>(r, _) _. r = CKR_OK) w"
proof -
  have dl: "wp (ecall (E_dlopen E (mo_path m))) (\<lambda>ok v. ok \<and> env_only w v) w"
    by (auto simp: wp_ecall split: prod.split dest!: cooperativeD [OF assms(1)])
  have start: "wp (start_module E m') (\<lambda>(r, _) _. r = CKR_OK) v" if "env_only w v" "mo_interface m' = Some i" for v m' i
    by (rule start_module_works [OF assms(1)]) (use that assms(2) in \<open>auto dest: env_only_simps\<close>)
  show ?thesis
    unfolding load_module_def
    by (rule wp_seq [OF dl], elim conjE, simp only: Let_def not_True_eq_False if_False,
        rule wp_seq [OF interface_init_works [OF assms(1)]], assumption) (auto intro!: start)
qed

lemma module_init_works:
  assumes "cooperative E" and "cx_status (w_ctx w) \<noteq> P11PROV_NO_DEINIT"
  shows "wp (p11prov_module_init E (Some m)) (\<lambda>(r, _) _. r = CKR_OK) w"
proof -
  have lk: "wp (p11prov_mutex_lock E LkModule) (\<lambda>r v. r = CKR_OK \<and> env_only w v) w"
    by (auto simp: wp_simps split: prod.split dest!: cooperativeD [OF assms(1)])
  have "wp (if mo_initialized m then ret (CKR_OK, m) else load_module E m) (\<lambda>(r, _) _. r = CKR_OK) v" if "env_only w v" for v
    using load_module_works [OF assms(1), of v m] that assms(2) by (auto simp: wp_return dest: env_only_simps)
  note body = this
  show ?thesis
    unfolding p11prov_module_init_def option.case
    by (rule wp_seq [OF lk], elim conjE, simp only: HOL.simp_thms not_True_eq_False if_False, rule wp_seq [OF body], assumption, clarify)
      (simp add: wp_bind wp_return wp_True_eq)
qed

lemma operations_init_works:
  assumes "cooperative E" and "w_slots w \<noteq> None"
  shows "wp (operations_init E msg skey op) (\<lambda>(r, _) _. r = CKR_OK) w"
proof -
  have take: "wp (p11prov_take_slots E) (\<lambda>r _. r = CKR_OK) w"
    using assms(2) by (auto simp: wp_simps split: prod.split dest!: cooperativeD [OF assms(1)])
  show ?thesis
    unfolding operations_init_def wp_bind [of "gets _"] wp_gets
    by (rule wp_seq [OF take]) (simp add: wp_bind wp_return case_prod_beta wp_gets wp_if wp_True_eq cong: if_cong)
qed

lemma wp_first_use_succeeds:
  assumes "cooperative E" and "cx_status (w_ctx w) = P11PROV_UNINITIALIZED" and "w_slots w = None"
    and "pv_module pv = Some m" and "\<not> mo_initialized m"
  shows "wp (p11prov_ctx_status E msg skey pv) (\<lambda>(r, _) w'. r = CKR_OK \<and> cx_status (w_ctx w') = P11PROV_INITIALIZED) w"
proof -
  have st: "cx_status (w_ctx w) \<noteq> P11PROV_NO_DEINIT" using assms(2) by simp
  note load = conjI [OF module_init_works [OF assms(1) st, of m] wp_module_init [OF assms(3,5), of E], folded wp_conj]
  have "wp (init_operations E msg skey pv') (\<lambda>(r, _) w'. r = CKR_OK \<and> cx_status (w_ctx w') = P11PROV_INITIALIZED) v"
    if "w_slots v \<noteq> None" for pv' v
    unfolding init_operations_def
    by (rule wp_seq [OF operations_init_works [OF assms(1) that]]) (auto simp: set_outcome_def wp_simps)
  then show ?thesis
    unfolding p11prov_ctx_status_def wp_bind [of "gets _"] wp_gets assms(2) ctx_status.case assms(4)
    by (intro wp_seq [OF load]) (auto simp: loaded_def)
qed


text \<open>The fresh context of the simulated module.\<close>

definition fresh_module :: module_ctx where
  "fresh_module = \<lparr>mo_path = ''/usr/lib/pkcs11.so'', mo_init_args = None, mo_dlhandle = False, mo_interface = None,
     mo_ck_info = zero_info, mo_initialized = False, mo_reinit = False\<rparr>"

definition fresh_prov :: prov where
  "fresh_prov = \<lparr>pv_module = Some fresh_module, pv_op = (\<lambda>_. [])\<rparr>"

definition fresh_world :: "sim world" where
  "fresh_world = sim_world\<lparr>w_ctx := sim_ctx\<lparr>cx_status := P11PROV_UNINITIALIZED\<rparr>\<rparr>"

lemma fresh_facts:
  "cx_status (w_ctx fresh_world) = P11PROV_UNINITIALIZED" "heap_ok (w_sess fresh_world)" "w_slots fresh_world = None"
  "pv_module fresh_prov = Some fresh_module" "\<not> mo_initialized fresh_module"
  by (simp_all add: fresh_world_def sim_world_def fresh_prov_def fresh_module_def heap_ok_def hempty_def)

lemma sim_cooperative:
  "cooperative (sim_env\<lparr>E_GetSlotCount := \<lambda>e. ((CKR_OK, 1), e)\<rparr>)"
  by (simp add: cooperative_def sim_env_def)



section \<open>After a fork\<close>

text \<open>The module answers with the same identity as before.\<close>

definition module_confirmed :: "'e p11env \<Rightarrow> module_ctx \<Rightarrow> bool" where
  "module_confirmed E m \<longleftrightarrow> (\<exists>info. (\<exists>e. fst (E_GetInfo E e) = (CKR_OK, info)) \<and> same_module (trim_info info) (mo_ck_info m))"

lemma module_confirmedI:
  "fst (E_GetInfo E e) = (CKR_OK, info) \<Longrightarrow> same_module (trim_info info) (mo_ck_info m) \<Longrightarrow> module_confirmed E m"
  unfolding module_confirmed_def by blast

lemma wp_restart_module:
  "wp (restart_module E m) (\<lambda>(r, m') w'. env_only w w' \<and> (r = CKR_OK \<longrightarrow> \<not> mo_reinit m' \<and>
     module_confirmed E m)) w"
proof -
  let ?Q = "\<lambda>(r, m') w'. env_only w w' \<and> (r = CKR_OK \<longrightarrow> \<not> mo_reinit m' \<and>
     module_confirmed E m)"
  have info: "wp (p11prov_GetInfo E m' zero_info) (\<lambda>(r, info) w'. env_only w w' \<and> (r = CKR_OK \<longrightarrow> (\<exists>e. fst (E_GetInfo E e) = (CKR_OK, info)))) v"
    if "env_only w v" for v m'
  proof -
    have "\<exists>e. fst (E_GetInfo E e) = p" if "E_GetInfo E x = (p, y)" for x p y using that by (metis fst_conv)
    then show ?thesis
      using that by (auto simp: p11prov_GetInfo_def wrapped_def wp_simps split: option.split prod.split)
  qed
  have rest: "wp (do { (r, info) \<leftarrow> p11prov_GetInfo E (m\<lparr>mo_reinit := False\<rparr>) zero_info;
       if r \<noteq> CKR_OK then ret (r, m\<lparr>mo_reinit := False\<rparr>)
       else ret (if same_module (trim_info info) (mo_ck_info (m\<lparr>mo_reinit := False\<rparr>)) then CKR_OK else CKR_GENERAL_ERROR, m\<lparr>mo_reinit := False\<rparr>) }) ?Q v"
    if "env_only w v" for v
    by (rule wp_seq [OF info [OF that]]) (auto simp: wp_return wp_if intro: module_confirmedI)
  have init: "wp (do { (r, _) \<leftarrow> p11prov_Initialize E m;
       if r \<noteq> CKR_OK \<and> r \<noteq> CKR_CRYPTOKI_ALREADY_INITIALIZED then ret (r, m)
       else do { let mctx = m\<lparr>mo_reinit := False\<rparr>;
         (r, info) \<leftarrow> p11prov_GetInfo E mctx zero_info;
         if r \<noteq> CKR_OK then ret (r, mctx)
         else ret (if same_module (trim_info info) (mo_ck_info mctx) then CKR_OK else CKR_GENERAL_ERROR, mctx) } }) ?Q v"
    if v: "env_only w v" for v
    unfolding p11prov_Initialize_def Let_def
    by (rule wp_seq [OF keepsD [OF keeps_wrapped]], clarify, rule wp_ifI)
      (use v in \<open>auto simp: wp_return intro: rest env_only_trans\<close>)
  show ?thesis
    unfolding restart_module_def p11prov_Finalize_def
    by (rule wp_seq [OF keepsD [OF keeps_wrapped] init])
qed

lemma wp_module_reinit:
  assumes "mo_reinit m"
  shows "wp (p11prov_module_reinit E (Some m)) (\<lambda>(r, x) w'. env_only w w' \<and> (r = CKR_OK \<longrightarrow> (\<exists>m'. x = Some m' \<and> \<not> mo_reinit m' \<and>
     module_confirmed E m))) w"
proof -
  let ?Q = "\<lambda>(r, x) w'. env_only w w' \<and> (r = CKR_OK \<longrightarrow> (\<exists>m'. x = Some m' \<and> \<not> mo_reinit m' \<and>
     module_confirmed E m))"
  have ur: "wp (do { _ \<leftarrow> p11prov_mutex_unlock E LkModule; ret (r, Some m') }) ?Q v" if "?Q (r, Some m') v" for r m' v
    using that by (auto simp: wp_simps split: prod.split)
  show ?thesis
    unfolding p11prov_module_reinit_def option.case
    using assms
    by (intro wp_seq [OF keepsD [OF eo.keeps_lock]] wp_ifI)
      (auto simp: wp_return intro!: wp_seq [OF wp_restart_module] ur intro: env_only_trans)
qed

lemma slot_reset_env_only: "env_only w w' \<Longrightarrow> slot_reset w' s = slot_reset w s" "env_only w w' \<Longrightarrow> slots_list w' = slots_list w"
  by (auto simp: env_only_def slot_reset_def slots_list_def)

lemma slot_reset_ctx [simp]: "slot_reset (w\<lparr>w_ctx := c\<rparr>) s = slot_reset w s" "slots_list (w\<lparr>w_ctx := c\<rparr>) = slots_list w"
  by (simp_all add: slot_reset_def slots_list_def)

lemma wp_fork_child:
  assumes "\<And>l e. fst (E_lock E l e)" and "\<And>l e. fst (E_mutex_init E l e)"
    and "cx_status (w_ctx w) = P11PROV_INITIALIZED"
  shows "wp (fork_child E pv) (\<lambda>pv' w'. pv' = pv\<lparr>pv_module := map_option p11prov_module_mark_reinit (pv_module pv)\<rparr> \<and>
     cx_status (w_ctx w') = P11PROV_NEEDS_REINIT \<and> slots_list w' = slots_list w \<and> (\<forall>s \<in> set (slots_list w). slot_reset w' s)) w"
  unfolding fork_child_def wp_bind [of "gets _"] wp_gets wp_bind [of "modify _"] wp_modify
  using assms(3) by (auto simp: wp_return wp_bind [of "modify _"] wp_modify reset_step_def slots_list_def
      intro!: wp_seq [OF wp_slot_fork_reset [OF assms(1,2)]])



end
