(* ===== verification/P11_Config.thy ===== *)
theory P11_Config
  imports P11_Module "HOL-Library.Sublist"
begin

unbundle bit_operations_syntax

text \<open>
  The entry point of the provider (\<^verbatim>\<open>src/src/provider.c\<close>: \<open>OSSL_provider_init\<close> with the parsing of the
  configuration) and the end of a context (\<open>p11prov_ctx_free\<close>). OpenSSL's core is a parameter: \<open>libctx\<close> makes the library
  context and \<open>params\<close> gives the values of the configuration, NUL-free strings or nothing.
\<close>

section \<open>Model\<close>

subsection \<open>The configuration\<close>

datatype p11prov_cfg_enum = P11PROV_CFG_PATH | P11PROV_CFG_INIT_ARGS | P11PROV_CFG_TOKEN_PIN | P11PROV_CFG_ALLOW_EXPORT
  | P11PROV_CFG_LOGIN_BEHAVIOR | P11PROV_CFG_LOAD_BEHAVIOR | P11PROV_CFG_CACHE_PINS | P11PROV_CFG_CACHE_KEYS
  | P11PROV_CFG_QUIRKS | P11PROV_CFG_CACHE_SESSIONS | P11PROV_CFG_ENCODE_PROVIDER_URI_TO_PEM | P11PROV_CFG_BLOCK_OPS
  | P11PROV_CFG_ASSUME_FIPS

fun p11prov_cfg_names :: "p11prov_cfg_enum \<Rightarrow> string" where
  "p11prov_cfg_names P11PROV_CFG_PATH = ''pkcs11-module-path''"
| "p11prov_cfg_names P11PROV_CFG_INIT_ARGS = ''pkcs11-module-init-args''"
| "p11prov_cfg_names P11PROV_CFG_TOKEN_PIN = ''pkcs11-module-token-pin''"
| "p11prov_cfg_names P11PROV_CFG_ALLOW_EXPORT = ''pkcs11-module-allow-export''"
| "p11prov_cfg_names P11PROV_CFG_LOGIN_BEHAVIOR = ''pkcs11-module-login-behavior''"
| "p11prov_cfg_names P11PROV_CFG_LOAD_BEHAVIOR = ''pkcs11-module-load-behavior''"
| "p11prov_cfg_names P11PROV_CFG_CACHE_PINS = ''pkcs11-module-cache-pins''"
| "p11prov_cfg_names P11PROV_CFG_CACHE_KEYS = ''pkcs11-module-cache-keys''"
| "p11prov_cfg_names P11PROV_CFG_QUIRKS = ''pkcs11-module-quirks''"
| "p11prov_cfg_names P11PROV_CFG_CACHE_SESSIONS = ''pkcs11-module-cache-sessions''"
| "p11prov_cfg_names P11PROV_CFG_ENCODE_PROVIDER_URI_TO_PEM = ''pkcs11-module-encode-provider-uri-to-pem''"
| "p11prov_cfg_names P11PROV_CFG_BLOCK_OPS = ''pkcs11-module-block-operations''"
| "p11prov_cfg_names P11PROV_CFG_ASSUME_FIPS = ''pkcs11-module-assume-fips''"

type_synonym config = "p11prov_cfg_enum \<Rightarrow> string option"

text \<open>
  \<^verbatim>\<open>strtol(str, &end, 0)\<close>: the value, the offset of \<open>end\<close> and whether \<open>errno\<close> was set. A prefix \<^verbatim>\<open>0x\<close> that is followed by a
  hexadecimal digit selects base 16, another leading 0 base 8.
\<close>

definition digit_value :: "nat \<Rightarrow> char \<Rightarrow> nat option" where
  "digit_value base c =
     (let n = (of_char c :: nat);
          v = (if of_char CHR ''0'' \<le> n \<and> n \<le> of_char CHR ''9'' then n - of_char CHR ''0''
               else if of_char CHR ''a'' \<le> n \<and> n \<le> of_char CHR ''f'' then n - of_char CHR ''a'' + 10
               else if of_char CHR ''A'' \<le> n \<and> n \<le> of_char CHR ''F'' then n - of_char CHR ''A'' + 10
               else base)
      in if v < base then Some v else None)"

definition strtol_base :: "string \<Rightarrow> nat \<times> nat" where
  "strtol_base s =
     (if char_at s 0 = CHR ''0'' \<and> (char_at s 1 = CHR ''x'' \<or> char_at s 1 = CHR ''X'') \<and> digit_value 16 (char_at s 2) \<noteq> None
      then (16, 2) else if char_at s 0 = CHR ''0'' then (8, 0) else (10, 0))"

definition strtol :: "string \<Rightarrow> int \<times> nat \<times> bool" where
  "strtol str =
     (let ws = length (takeWhile c_isspace str);
          c = char_at str ws;
          sg = (if c = CHR ''-'' \<or> c = CHR ''+'' then 1 else 0);
          (base, skip) = strtol_base (drop (ws + sg) str);
          ds = takeWhile (\<lambda>d. digit_value base d \<noteq> None) (drop (ws + sg + skip) str);
          n = int (foldl (\<lambda>acc d. acc * base + the (digit_value base d)) 0 ds);
          v = (if c = CHR ''-'' then - n else n)
      in if ds = [] then (0, 0, False)
         else if v > 2 ^ 63 - 1 then (2 ^ 63 - 1, ws + sg + skip + length ds, True)
         else if v < - (2 ^ 63) then (- (2 ^ 63), ws + sg + skip + length ds, True)
         else (v, ws + sg + skip + length ds, False))"

definition cfg_allow_export :: "string option \<Rightarrow> p11prov_ctx \<Rightarrow> p11prov_ctx option" where
  "cfg_allow_export x ctx = (case x of
     None \<Rightarrow> Some ctx
   | Some s \<Rightarrow> (case strtol s of (v, e, err) \<Rightarrow>
       if err \<or> char_at s e \<noteq> NUL then None else Some (ctx\<lparr>cx_allow_export := sint (word_of_int v :: 32 word)\<rparr>)))"

definition cfg_login_behavior :: "string option \<Rightarrow> p11prov_ctx \<Rightarrow> p11prov_ctx option" where
  "cfg_login_behavior x ctx = (case x of
     None \<Rightarrow> Some ctx
   | Some s \<Rightarrow>
       if s = ''auto'' then Some (ctx\<lparr>cx_login_behavior := PUBKEY_LOGIN_AUTO\<rparr>)
       else if s = ''always'' then Some (ctx\<lparr>cx_login_behavior := PUBKEY_LOGIN_ALWAYS\<rparr>)
       else if s = ''never'' then Some (ctx\<lparr>cx_login_behavior := PUBKEY_LOGIN_NEVER\<rparr>)
       else None)"

definition cfg_caches :: "config \<Rightarrow> p11prov_ctx \<Rightarrow> p11prov_ctx" where
  "cfg_caches cfg ctx =
     (let ctx = (if cfg P11PROV_CFG_CACHE_PINS = Some ''cache'' then ctx\<lparr>cx_cache_pins := True\<rparr> else ctx)
      in case cfg P11PROV_CFG_CACHE_KEYS of
           Some s \<Rightarrow> if s = ''true'' then ctx\<lparr>cx_cache_keys := P11PROV_CACHE_KEYS_IN_SESSION\<rparr>
                      else if s = ''false'' then ctx\<lparr>cx_cache_keys := P11PROV_CACHE_KEYS_NEVER\<rparr>
                      else ctx
         | None \<Rightarrow> ctx\<lparr>cx_cache_keys := P11PROV_CACHE_KEYS_IN_SESSION\<rparr>)"

text \<open>
  The loop over the blank-separated tokens of a value, used for the quirks and for the blocked operations. The body gets the
  rest of the value and the length of the token.
\<close>

function token_loop :: "(string \<Rightarrow> nat \<Rightarrow> 'a \<Rightarrow> 'a) \<Rightarrow> string \<Rightarrow> nat \<Rightarrow> 'a \<Rightarrow> 'a" where
  "token_loop f str len x =
     (if CHR '' '' \<in> set str then
        let toklen = length (takeWhile (\<lambda>c. c \<noteq> CHR '' '') str)
        in token_loop f (drop (toklen + 1) str) (len - toklen - 1) (f str toklen x)
      else f str len x)"
  by pat_completeness auto
termination
  by (relation "measure (\<lambda>(f, str, len, x). length str)") (auto intro!: diff_less length_pos_if_in_set)

declare token_loop.simps [simp del]

definition P11PROV_BLOCK_GetOperationState :: "64 word" where
  "P11PROV_BLOCK_GetOperationState = 8"

definition quirk_token :: "string \<Rightarrow> nat \<Rightarrow> p11prov_ctx \<Rightarrow> p11prov_ctx" where
  "quirk_token str toklen ctx =
     (if strneq toklen str ''no-deinit'' then ctx\<lparr>cx_no_deinit := True\<rparr>
      else if strneq toklen str ''no-allowed-mechanisms'' then ctx\<lparr>cx_no_allowed_mechanisms := True\<rparr>
      else if strneq toklen str ''no-operation-state''
      then ctx\<lparr>cx_blocked_calls := cx_blocked_calls ctx OR P11PROV_BLOCK_GetOperationState\<rparr>
      else if strneq toklen str ''no-session-callbacks'' then ctx\<lparr>cx_no_session_callbacks := True\<rparr>
      else ctx)"

definition cfg_quirks :: "string option \<Rightarrow> p11prov_ctx \<Rightarrow> p11prov_ctx" where
  "cfg_quirks x ctx = (case x of None \<Rightarrow> ctx | Some s \<Rightarrow> token_loop quirk_token s (length s) ctx)"

definition MAX_CACHE_SESSIONS :: CK_ULONG where
  "MAX_CACHE_SESSIONS = 5"

definition cfg_cache_sessions :: "string option \<Rightarrow> p11prov_ctx \<Rightarrow> p11prov_ctx option" where
  "cfg_cache_sessions x ctx = (case x of
     None \<Rightarrow> Some (ctx\<lparr>cx_cache_sessions := MAX_CACHE_SESSIONS\<rparr>)
   | Some s \<Rightarrow> (case parse_ulong s (int (length s)) of
       Inl _ \<Rightarrow> None
     | Inr val \<Rightarrow> if val > MAX_CONCURRENT_SESSIONS then None else Some (ctx\<lparr>cx_cache_sessions := val\<rparr>)))"

definition cfg_switches :: "config \<Rightarrow> p11prov_ctx \<Rightarrow> p11prov_ctx" where
  "cfg_switches cfg ctx = ctx\<lparr>cx_assume_fips := (cfg P11PROV_CFG_ASSUME_FIPS = Some ''true''),
     cx_encode_pkey_as_pk11_uri := (cfg P11PROV_CFG_ENCODE_PROVIDER_URI_TO_PEM = Some ''true'')\<rparr>"

text \<open>The table of the operation names, indexed by the operation; a missing entry is NULL.\<close>

definition p11prov_block_ops_names :: "bool \<Rightarrow> nat \<Rightarrow> string option" where
  "p11prov_block_ops_names skey = map_of
     ([(OSSL_OP_DIGEST, ''digest''), (OSSL_OP_MAC, ''mac''), (OSSL_OP_KDF, ''kdf''), (OSSL_OP_RAND, ''rand''),
       (OSSL_OP_KEYMGMT, ''keymgmt''), (OSSL_OP_KEYEXCH, ''keyexch''), (OSSL_OP_SIGNATURE, ''signature''),
       (OSSL_OP_ASYM_CIPHER, ''asym-cipher''), (OSSL_OP_KEM, ''kem''), (OSSL_OP_ENCODER, ''encoder''),
       (OSSL_OP_DECODER, ''decoder''), (OSSL_OP_STORE, ''store'')] @
      (if skey then [(OSSL_OP_CIPHER, ''cipher''), (OSSL_OP_SKEYMGMT, ''skeymgmt'')] else []))"

text \<open>The inner loop stops before \<^verbatim>\<open>OSSL_OP__HIGHEST\<close>.\<close>

definition block_token :: "bool \<Rightarrow> string \<Rightarrow> nat \<Rightarrow> p11prov_ctx \<Rightarrow> p11prov_ctx" where
  "block_token skey str tokl ctx =
     (case find (\<lambda>i. case p11prov_block_ops_names skey i of None \<Rightarrow> False | Some n \<Rightarrow> strneq tokl str n)
             [0..<OSSL_OP_HIGHEST] of
        None \<Rightarrow> ctx
      | Some i \<Rightarrow> ctx\<lparr>cx_blocked_ops := i # cx_blocked_ops ctx\<rparr>)"

definition cfg_block_ops :: "bool \<Rightarrow> string option \<Rightarrow> p11prov_ctx \<Rightarrow> p11prov_ctx" where
  "cfg_block_ops skey x ctx = (case x of None \<Rightarrow> ctx | Some s \<Rightarrow> token_loop (block_token skey) s (length s) ctx)"

text \<open>All settings after the PIN, in the order of the code.\<close>

definition cfg_settings :: "bool \<Rightarrow> config \<Rightarrow> p11prov_ctx \<Rightarrow> p11prov_ctx option" where
  "cfg_settings skey cfg ctx = do {
     ctx \<leftarrow> cfg_allow_export (cfg P11PROV_CFG_ALLOW_EXPORT) ctx;
     ctx \<leftarrow> cfg_login_behavior (cfg P11PROV_CFG_LOGIN_BEHAVIOR) ctx;
     let ctx = cfg_quirks (cfg P11PROV_CFG_QUIRKS) (cfg_caches cfg ctx);
     ctx \<leftarrow> cfg_cache_sessions (cfg P11PROV_CFG_CACHE_SESSIONS) ctx;
     Some (cfg_block_ops skey (cfg P11PROV_CFG_BLOCK_OPS) (cfg_switches cfg ctx)) }"

subsection \<open>The end of a context\<close>

text \<open>
  What the wrapper of \<open>C_CloseSession\<close>, the only function of the module that the release of the slots calls, does when there
  is no interface.
\<close>

definition releasing_env :: "p11prov_ctx \<Rightarrow> module_ctx option \<Rightarrow> 'e p11env \<Rightarrow> 'e p11env" where
  "releasing_env ctx m E = (case p11prov_ctx_get_interface ctx m of
     None \<Rightarrow> E\<lparr>E_CloseSession := \<lambda>h e. (CKR_GENERAL_ERROR, e)\<rparr>
   | Some _ \<Rightarrow> E)"

definition p11prov_ctx_free :: "'e p11env \<Rightarrow> nat \<Rightarrow> prov \<Rightarrow> ctx_pool \<Rightarrow> ('e world, ctx_pool) state" where
  "p11prov_ctx_free E c pv pool = do {
     no_deinit \<leftarrow> gets (\<lambda>w. cx_no_deinit (w_ctx w));
     (if no_deinit then set_status P11PROV_NO_DEINIT else ret ());
     ctx \<leftarrow> gets w_ctx;
     slots \<leftarrow> gets w_slots;
     _ \<leftarrow> p11prov_free_slots (releasing_env ctx (pv_module pv) E) slots;
     modify (\<lambda>w. w\<lparr>w_slots := None\<rparr>);
     p11prov_module_free E (pv_module pv);
     _ \<leftarrow> p11prov_mutex_lock E LkQuirks;
     modify (\<lambda>w. w\<lparr>w_ctx := (w_ctx w)\<lparr>cx_quirks := []\<rparr>\<rparr>);
     _ \<leftarrow> p11prov_mutex_unlock E LkQuirks;
     _ \<leftarrow> p11prov_mutex_destroy E LkQuirks;
     context_rm_pool E c pool }"

subsection \<open>The entry point\<close>

definition zero_ctx :: p11prov_ctx where
  "zero_ctx = \<lparr>cx_status = P11PROV_UNINITIALIZED, cx_pin = None, cx_allow_export = 0,
     cx_login_behavior = PUBKEY_LOGIN_AUTO, cx_cache_pins = False, cx_cache_keys = P11PROV_CACHE_KEYS_NEVER,
     cx_cache_sessions = 0, cx_encode_pkey_as_pk11_uri = False, cx_assume_fips = False, cx_no_deinit = False,
     cx_no_allowed_mechanisms = False, cx_no_session_callbacks = False, cx_blocked_calls = 0,
     cx_blocked_ops = [], cx_quirks = []\<rparr>"

definition sizeof_ctx :: nat where
  "sizeof_ctx = 448"

text \<open>The PIN of the configuration; \<open>pf\<close> reads a PIN file.\<close>

definition cfg_pin :: "'e p11env \<Rightarrow> (string \<Rightarrow> nat \<Rightarrow> pin_read) \<Rightarrow> string option \<Rightarrow> ('e world, bool) state" where
  "cfg_pin E pf x = (case x of
     None \<Rightarrow> ret True
   | Some s \<Rightarrow> do {
       mem \<leftarrow> gets (\<lambda>w n. fst (E_malloc E n (w_env w)));
       case p11prov_get_pin mem pf s of
         Inl _ \<Rightarrow> ret False
       | Inr pin \<Rightarrow> do { modify (\<lambda>w. w\<lparr>w_ctx := (w_ctx w)\<lparr>cx_pin := Some pin\<rparr>\<rparr>); ret True } })"

text \<open>
  With a bad value the context is freed before the module is open, so that the settings made up to there are not observed.
\<close>

definition cfg_apply :: "bool \<Rightarrow> config \<Rightarrow> ('e world, bool) state" where
  "cfg_apply skey cfg = do {
     ctx \<leftarrow> gets w_ctx;
     case cfg_settings skey cfg ctx of
       None \<Rightarrow> ret False
     | Some ctx \<Rightarrow> do { modify (\<lambda>w. w\<lparr>w_ctx := ctx\<rparr>); ret True } }"

text \<open>The static tables, and the module when it is to be loaded early.\<close>

definition load_operations :: "'e p11env \<Rightarrow> bool \<Rightarrow> bool \<Rightarrow> config \<Rightarrow> prov \<Rightarrow> ('e world, bool \<times> prov) state" where
  "load_operations E msg skey cfg pv = do {
     (r, op) \<leftarrow> static_operations_init E skey (pv_op pv);
     let pv = pv\<lparr>pv_op := op\<rparr>;
     if r \<noteq> CKR_OK then ret (False, pv)
     else if cfg P11PROV_CFG_LOAD_BEHAVIOR = Some ''early'' then do {
       (r, pv) \<leftarrow> p11prov_ctx_status E msg skey pv;
       ret (r = CKR_OK, pv) }
     else ret (True, pv) }"

text \<open>Everything after the module context was made: whether the context can be used, and the context.\<close>

definition provider_setup ::
    "'e p11env \<Rightarrow> bool \<Rightarrow> bool \<Rightarrow> (string \<Rightarrow> nat \<Rightarrow> pin_read) \<Rightarrow> config \<Rightarrow> prov \<Rightarrow> ('e world, bool \<times> prov) state" where
  "provider_setup E msg skey pf cfg pv = do {
     ok \<leftarrow> cfg_pin E pf (cfg P11PROV_CFG_TOKEN_PIN);
     if \<not> ok then ret (False, pv)
     else do {
       ok \<leftarrow> cfg_apply skey cfg;
       if \<not> ok then ret (False, pv)
       else load_operations E msg skey cfg pv } }"

definition make_context ::
    "'e p11env \<Rightarrow> bool \<Rightarrow> bool \<Rightarrow> string option \<Rightarrow> (string \<Rightarrow> nat \<Rightarrow> pin_read) \<Rightarrow> config \<Rightarrow> ('e world, bool \<times> prov) state" where
  "make_context E msg skey deflt pf cfg = do {
     (r, m) \<leftarrow> p11prov_module_new E deflt (cfg P11PROV_CFG_PATH) (cfg P11PROV_CFG_INIT_ARGS);
     let pv = \<lparr>pv_module = m, pv_op = (\<lambda>_. [])\<rparr>;
     if r \<noteq> CKR_OK then ret (False, pv) else provider_setup E msg skey pf cfg pv }"

text \<open>The result for OpenSSL: a context that cannot be used is freed.\<close>

definition finish_context ::
    "'e p11env \<Rightarrow> nat \<Rightarrow> ctx_pool \<Rightarrow> bool \<Rightarrow> prov \<Rightarrow> ('e world, int \<times> prov option \<times> ctx_pool) state" where
  "finish_context E c pool ok pv =
     (if \<not> ok then do {
        pool \<leftarrow> p11prov_ctx_free E c pv pool;
        ret (RET_OSSL_ERR, None, pool) }
      else do {
        pool \<leftarrow> context_add_pool E c pool;
        ret (RET_OSSL_OK, Some pv, pool) })"

text \<open>\<open>c\<close> is the address of the new context and \<open>pool\<close> the pool of all contexts; the result is the context for OpenSSL.\<close>

definition OSSL_provider_init ::
    "'e p11env \<Rightarrow> bool \<Rightarrow> bool \<Rightarrow> string option \<Rightarrow> ('e \<Rightarrow> bool \<times> 'e) \<Rightarrow> ('e \<Rightarrow> (int \<times> config) \<times> 'e) \<Rightarrow>
     (string \<Rightarrow> nat \<Rightarrow> pin_read) \<Rightarrow> nat \<Rightarrow> ctx_pool \<Rightarrow> ('e world, int \<times> prov option \<times> ctx_pool) state" where
  "OSSL_provider_init E msg skey deflt libctx params pf c pool = do {
     ok \<leftarrow> ecall (E_malloc E sizeof_ctx);
     if \<not> ok then ret (RET_OSSL_ERR, None, pool)
     else do {
       modify (\<lambda>w. w\<lparr>w_ctx := zero_ctx, w_slots := None\<rparr>);
       r \<leftarrow> p11prov_mutex_init E LkQuirks;
       if r \<noteq> CKR_OK then ret (RET_OSSL_ERR, None, pool)
       else do {
         ok \<leftarrow> ecall libctx;
         if \<not> ok then ret (RET_OSSL_ERR, None, pool)
         else do {
           (res, cfg) \<leftarrow> ecall params;
           if res \<noteq> RET_OSSL_OK then do {
             pool \<leftarrow> p11prov_ctx_free E c \<lparr>pv_module = None, pv_op = (\<lambda>_. [])\<rparr> pool;
             ret (res, None, pool) }
           else do {
             (ok, pv) \<leftarrow> make_context E msg skey deflt pf cfg;
             finish_context E c pool ok pv } } } } }"

section \<open>Lists of tokens\<close>

text \<open>The tokens of a value: it is cut at every blank, so that two blanks in a row enclose an empty token.\<close>

fun split_blank :: "string \<Rightarrow> string list" where
  "split_blank [] = [[]]"
| "split_blank (c # cs) =
     (if c = CHR '' '' then [] # split_blank cs
      else case split_blank cs of [] \<Rightarrow> [[c]] | t # ts \<Rightarrow> (c # t) # ts)"

lemma split_blank_nonempty: "split_blank s \<noteq> []"
  by (induction s) (auto split: list.split)

lemma split_blank_word: "CHR '' '' \<notin> set s \<Longrightarrow> split_blank s = [s]"
  by (induction s) auto

lemma split_blank_step:
  "CHR '' '' \<in> set s \<Longrightarrow> split_blank s = takeWhile (\<lambda>c. c \<noteq> CHR '' '') s #
     split_blank (drop (Suc (length (takeWhile (\<lambda>c. c \<noteq> CHR '' '') s))) s)"
  by (induction s) auto

lemma split_blank_NUL: "(\<forall>t \<in> set (split_blank s). NUL \<notin> set t) \<longleftrightarrow> NUL \<notin> set s"
proof (induction s)
  case (Cons c cs)
  then show ?case using split_blank_nonempty [of cs] by (cases "split_blank cs") auto
qed simp

text \<open>A loop whose body only looks at the token is a fold over the tokens.\<close>

lemma token_loop_fold:
  assumes "NUL \<notin> set s" and "\<And>str n y. NUL \<notin> set str \<Longrightarrow> n \<le> length str \<Longrightarrow> f str n y = g (take n str) y"
  shows "token_loop f s (length s) x = fold g (split_blank s) x"
  using assms(1)
proof (induction s arbitrary: x rule: length_induct)
  case (1 s)
  show ?case
  proof (cases "CHR '' '' \<in> set s")
    case True
    let ?n = "length (takeWhile (\<lambda>c. c \<noteq> CHR '' '') s)"
    have n: "take ?n s = takeWhile (\<lambda>c. c \<noteq> CHR '' '') s" by (simp add: takeWhile_eq_take [symmetric])
    have f: "f s ?n x = g (takeWhile (\<lambda>c. c \<noteq> CHR '' '') s) x" using assms(2) [OF 1(2)] n length_takeWhile_le by metis
    have lt: "length (drop (Suc ?n) s) < length s" using True by (auto intro!: diff_less length_pos_if_in_set)
    have "token_loop f (drop (Suc ?n) s) (length (drop (Suc ?n) s)) (f s ?n x) = fold g (split_blank (drop (Suc ?n) s)) (f s ?n x)"
      using 1(1) lt 1(2) by (meson in_set_dropD)
    then show ?thesis
      using True by (subst token_loop.simps) (simp add: Let_def split_blank_step f)
  next
    case False
    then show ?thesis by (subst token_loop.simps) (simp add: split_blank_word assms(2) [OF 1(2)])
  qed
qed

lemma strneq_take_self: "strneq n (take n a) b = strneq n a b"
  by (induction n arbitrary: a b) (case_tac a; auto)+

subsection \<open>Quirks\<close>

definition quirk_names :: "string list" where
  "quirk_names = [''no-deinit'', ''no-allowed-mechanisms'', ''no-operation-state'', ''no-session-callbacks'']"

definition with_quirks :: "string list \<Rightarrow> p11prov_ctx \<Rightarrow> p11prov_ctx" where
  "with_quirks ts ctx = ctx\<lparr>
     cx_no_deinit := (cx_no_deinit ctx \<or> ''no-deinit'' \<in> set ts),
     cx_no_allowed_mechanisms := (cx_no_allowed_mechanisms ctx \<or> ''no-allowed-mechanisms'' \<in> set ts),
     cx_no_session_callbacks := (cx_no_session_callbacks ctx \<or> ''no-session-callbacks'' \<in> set ts),
     cx_blocked_calls := (if ''no-operation-state'' \<in> set ts then cx_blocked_calls ctx OR 8 else cx_blocked_calls ctx)\<rparr>"

lemma quirk_names_compared: "list_all (\<lambda>a. list_all (\<lambda>b. strneq (length a) a b = (a = b)) quirk_names) quirk_names"
  by code_simp

lemma quirk_token_word:
  assumes "t \<in> set quirk_names"
  shows "quirk_token t (length t) ctx = with_quirks [t] ctx"
proof -
  have cmp: "strneq (length t) t b \<longleftrightarrow> t = b" if "b \<in> set quirk_names" for b
    using quirk_names_compared assms that by (auto simp: list_all_iff)
  have "quirk_token t (length t) ctx =
     (if t = ''no-deinit'' then ctx\<lparr>cx_no_deinit := True\<rparr>
      else if t = ''no-allowed-mechanisms'' then ctx\<lparr>cx_no_allowed_mechanisms := True\<rparr>
      else if t = ''no-operation-state'' then ctx\<lparr>cx_blocked_calls := cx_blocked_calls ctx OR 8\<rparr>
      else if t = ''no-session-callbacks'' then ctx\<lparr>cx_no_session_callbacks := True\<rparr> else ctx)"
    unfolding quirk_token_def P11PROV_BLOCK_GetOperationState_def
    by (subst (1 2 3 4) cmp) (simp_all add: quirk_names_def)
  also have "\<dots> = with_quirks [t] ctx"
    using assms unfolding quirk_names_def with_quirks_def by (cases ctx) auto
  finally show ?thesis .
qed

lemma with_quirks_append: "with_quirks ts (with_quirks [t] ctx) = with_quirks (t # ts) ctx"
  by (auto simp: with_quirks_def)

lemma fold_quirks:
  assumes "list_all (\<lambda>t. t \<in> set quirk_names) ts"
  shows "fold (\<lambda>t. quirk_token t (length t)) ts ctx = with_quirks ts ctx"
  using assms by (induction ts arbitrary: ctx) (simp_all add: quirk_token_word with_quirks_append, simp add: with_quirks_def)

text \<open>
  A list of quirks does what it says: when every token of \<^verbatim>\<open>pkcs11-module-quirks\<close> is the name of a quirk, exactly the named
  quirks are switched on, whatever their number and order, and nothing else of the context changes.
\<close>

lemma quirks_as_listed:
  assumes "list_all (\<lambda>t. t \<in> set quirk_names) (split_blank s)"
  shows "cfg_quirks (Some s) ctx = with_quirks (split_blank s) ctx"
proof -
  have "list_all (\<lambda>t. NUL \<notin> set t) quirk_names" by code_simp
  then have "\<forall>t \<in> set (split_blank s). NUL \<notin> set t" using assms unfolding list_all_iff by blast
  then have nul: "NUL \<notin> set s" by (rule split_blank_NUL [THEN iffD1])
  have "token_loop quirk_token s (length s) ctx = fold (\<lambda>t. quirk_token t (length t)) (split_blank s) ctx"
  proof (rule token_loop_fold [OF nul])
    show "quirk_token str n y = quirk_token (take n str) (length (take n str)) y" if "n \<le> length str" for str n y
      using that unfolding quirk_token_def by (simp only: length_take min.absorb2 strneq_take_self)
  qed
  then show ?thesis using fold_quirks [OF assms] by (simp add: cfg_quirks_def)
qed

lemma quirks_as_listed_example:
  "cfg_quirks (Some ''no-operation-state no-deinit'') sim_ctx = sim_ctx\<lparr>cx_no_deinit := True, cx_blocked_calls := 8\<rparr>"
  by (subst quirks_as_listed) (simp_all add: quirk_names_def with_quirks_def sim_ctx_def)

text \<open>A token is compared up to its own length: any prefix of a name counts, and so does the empty token.\<close>

lemma quirk_empty_token: "cx_no_deinit (cfg_quirks (Some '''') ctx)" "cx_no_deinit (cfg_quirks (Some ''n'') ctx)"
  by (simp_all add: cfg_quirks_def token_loop.simps quirk_token_def)

subsection \<open>Blocked operations\<close>

text \<open>The operations that can be blocked, with their names: all but the store, which the loop never reaches.\<close>

definition blockable :: "bool \<Rightarrow> (nat \<times> string) list" where
  "blockable skey = List.map_filter (\<lambda>i. map_option (Pair i) (p11prov_block_ops_names skey i)) [0..<OSSL_OP_HIGHEST]"

definition token_op :: "bool \<Rightarrow> string \<Rightarrow> nat \<Rightarrow> nat option" where
  "token_op skey str n = find (\<lambda>i. case p11prov_block_ops_names skey i of None \<Rightarrow> False | Some nm \<Rightarrow> strneq n str nm)
     [0..<OSSL_OP_HIGHEST]"

lemma blockable_compared:
  "list_all (\<lambda>(i, a). token_op skey a (length a) = Some i \<and> NUL \<notin> set a) (blockable skey)"
  "distinct (map fst (blockable skey))" "list_all (\<lambda>(i, a). i < OSSL_OP_HIGHEST) (blockable skey)"
  by (induction skey; code_simp)+

lemma block_token_op:
  "block_token skey str n ctx = (case token_op skey str n of None \<Rightarrow> ctx | Some i \<Rightarrow> ctx\<lparr>cx_blocked_ops := i # cx_blocked_ops ctx\<rparr>)"
  by (simp add: block_token_def token_op_def)

lemma token_op_take: "token_op skey (take n str) n = token_op skey str n"
  unfolding token_op_def by (simp only: strneq_take_self cong: option.case_cong)

lemma fold_blocks:
  assumes "list_all (\<lambda>t. t \<in> snd ` set (blockable skey)) ts"
  shows "\<exists>js. fold (\<lambda>t. block_token skey t (length t)) ts ctx = ctx\<lparr>cx_blocked_ops := js\<rparr> \<and>
     set js = set (cx_blocked_ops ctx) \<union> {i. \<exists>t \<in> set ts. (i, t) \<in> set (blockable skey)}"
  using assms
proof (induction ts arbitrary: ctx)
  case Nil
  then show ?case by (auto intro: exI [of _ "cx_blocked_ops ctx"])
next
  case (Cons t ts)
  then obtain i where i: "(i, t) \<in> set (blockable skey)" by auto
  have uniq: "token_op skey t (length t) = Some j" if "(j, t) \<in> set (blockable skey)" for j
    using blockable_compared(1) that by (fastforce simp: list_all_iff)
  have only: "j = i" if "(j, t) \<in> set (blockable skey)" for j using uniq [OF that] uniq [OF i] by simp
  obtain js where "fold (\<lambda>t. block_token skey t (length t)) ts (ctx\<lparr>cx_blocked_ops := i # cx_blocked_ops ctx\<rparr>) = ctx\<lparr>cx_blocked_ops := js\<rparr>"
    "set js = insert i (set (cx_blocked_ops ctx)) \<union> {i. \<exists>t \<in> set ts. (i, t) \<in> set (blockable skey)}"
    using Cons.IH [of "ctx\<lparr>cx_blocked_ops := i # cx_blocked_ops ctx\<rparr>"] Cons.prems by auto
  moreover have "{j. \<exists>u \<in> set (t # ts). (j, u) \<in> set (blockable skey)} = insert i {j. \<exists>u \<in> set ts. (j, u) \<in> set (blockable skey)}"
    by (auto intro: i dest: only)
  moreover have "fold (\<lambda>t. block_token skey t (length t)) (t # ts) ctx =
      fold (\<lambda>t. block_token skey t (length t)) ts (ctx\<lparr>cx_blocked_ops := i # cx_blocked_ops ctx\<rparr>)"
    by (simp add: block_token_op uniq [OF i])
  ultimately show ?case by (metis Un_insert_left Un_insert_right)
qed



text \<open>The store cannot be blocked, and an empty token (two blanks in a row) blocks the digests.\<close>

lemma store_not_blocked: "cfg_block_ops skey (Some ''store'') ctx = ctx"
proof -
  have "token_op skey ''store'' (length ''store'') = None" by (induction skey; code_simp)
  then show ?thesis by (simp add: cfg_block_ops_def token_loop.simps block_token_op)
qed

lemma empty_token_blocks_digests: "OSSL_OP_DIGEST \<in> set (cx_blocked_ops (cfg_block_ops skey (Some '''') ctx))"
proof -
  have "token_op skey [] 0 = Some OSSL_OP_DIGEST" by (induction skey; code_simp)
  then show ?thesis by (simp add: cfg_block_ops_def token_loop.simps block_token_op)
qed

section \<open>Loading the provider\<close>

lemma wp_module_new:
  "wp (p11prov_module_new E deflt path args) (\<lambda>(r, x) w'. env_only w w' \<and>
     (r = CKR_OK \<longrightarrow> (\<exists>m. x = Some m \<and> \<not> mo_initialized m \<and> \<not> mo_dlhandle m \<and> mo_init_args m = args))) w"
  by (auto simp: p11prov_module_new_def wp_simps Let_def split: prod.split option.split)

lemma token_loop_keeps:
  "P x \<Longrightarrow> (\<And>str n y. P y \<Longrightarrow> P (f str n y)) \<Longrightarrow> P (token_loop f str len x)"
  by (induction f str len x rule: token_loop.induct) (subst token_loop.simps, auto simp: Let_def)

lemma cfg_settings_keeps:
  assumes "cfg_settings skey cfg ctx = Some ctx'"
  shows "cx_status ctx' = cx_status ctx" and "cx_cache_sessions ctx' \<le> MAX_CONCURRENT_SESSIONS" and "cx_pin ctx' = cx_pin ctx"
proof -
  have q: "cx_status (cfg_quirks x c) = cx_status c \<and> cx_pin (cfg_quirks x c) = cx_pin c" for x c
    unfolding cfg_quirks_def
    by (cases x) (auto intro!: token_loop_keeps [where P = "\<lambda>y. cx_status y = cx_status c \<and> cx_pin y = cx_pin c"] simp: quirk_token_def)
  have b: "cx_status (cfg_block_ops skey x c) = cx_status c \<and> cx_pin (cfg_block_ops skey x c) = cx_pin c \<and>
      cx_cache_sessions (cfg_block_ops skey x c) = cx_cache_sessions c" for x c
    unfolding cfg_block_ops_def
    by (cases x) (auto intro!: token_loop_keeps [where P = "\<lambda>y. cx_status y = cx_status c \<and> cx_pin y = cx_pin c \<and>
        cx_cache_sessions y = cx_cache_sessions c"] simp: block_token_op split: option.split)
  have s: "cx_cache_sessions c' \<le> MAX_CONCURRENT_SESSIONS \<and> cx_status c' = cx_status c \<and> cx_pin c' = cx_pin c"
    if "cfg_cache_sessions x c = Some c'" for x c c'
    using that by (auto simp: cfg_cache_sessions_def MAX_CACHE_SESSIONS_def MAX_CONCURRENT_SESSIONS_def not_less
        split: option.splits sum.splits if_splits)
  obtain c1 c2 c3 where c: "cfg_allow_export (cfg P11PROV_CFG_ALLOW_EXPORT) ctx = Some c1"
    "cfg_login_behavior (cfg P11PROV_CFG_LOGIN_BEHAVIOR) c1 = Some c2"
    "cfg_cache_sessions (cfg P11PROV_CFG_CACHE_SESSIONS) (cfg_quirks (cfg P11PROV_CFG_QUIRKS) (cfg_caches cfg c2)) = Some c3"
    "ctx' = cfg_block_ops skey (cfg P11PROV_CFG_BLOCK_OPS) (cfg_switches cfg c3)"
    using assms by (auto simp: cfg_settings_def Let_def split: bind_splits)
  have "cx_status c1 = cx_status ctx \<and> cx_pin c1 = cx_pin ctx"
    using c(1) by (auto simp: cfg_allow_export_def split: option.splits prod.splits if_splits)
  moreover have "cx_status c2 = cx_status c1 \<and> cx_pin c2 = cx_pin c1"
    using c(2) by (auto simp: cfg_login_behavior_def split: option.splits if_splits)
  moreover have "cx_status (cfg_caches cfg c2) = cx_status c2 \<and> cx_pin (cfg_caches cfg c2) = cx_pin c2"
    by (auto simp: cfg_caches_def Let_def split: option.splits)
  ultimately show "cx_status ctx' = cx_status ctx" and "cx_cache_sessions ctx' \<le> MAX_CONCURRENT_SESSIONS" and "cx_pin ctx' = cx_pin ctx"
    using s [OF c(3)] c(4) b q by (auto simp: cfg_switches_def)
qed

text \<open>
  \<open>settled w pv w'\<close>: a context that OpenSSL may use: either nothing was loaded yet and the first use will do it, or the module
  was loaded early and the session pools have their invariant.
\<close>

definition settled :: "'e world \<Rightarrow> config \<Rightarrow> prov \<Rightarrow> 'e world \<Rightarrow> bool" where
  "settled w cfg pv w' \<longleftrightarrow>
     (if cfg P11PROV_CFG_LOAD_BEHAVIOR = Some ''early''
      then cx_status (w_ctx w') = P11PROV_INITIALIZED \<and> api_inv w' \<and> w_slots w' \<noteq> None
      else cx_status (w_ctx w') = P11PROV_UNINITIALIZED \<and> w_slots w' = None \<and> w_sess w' = w_sess w \<and>
        cx_cache_sessions (w_ctx w') \<le> MAX_CONCURRENT_SESSIONS \<and>
        (\<exists>m. pv_module pv = Some m \<and> \<not> mo_initialized m \<and> mo_init_args m = cfg P11PROV_CFG_INIT_ARGS))"

lemma settled_env_only: "env_only w1 w2 \<Longrightarrow> settled w cfg pv w2 = settled w cfg pv w1"
  by (auto simp: settled_def env_only_def api_inv_def slots_list_def pool_inv_def)

definition cfg_kept :: "'e world \<Rightarrow> 'e world \<Rightarrow> bool" where
  "cfg_kept w w' \<longleftrightarrow> w_sess w' = w_sess w \<and> w_slots w' = w_slots w \<and> cx_status (w_ctx w') = cx_status (w_ctx w)"

lemma wp_cfg_pin: "wp (cfg_pin E pf x) (\<lambda>_ w'. cfg_kept w w') w"
  by (auto simp: cfg_pin_def wp_simps cfg_kept_def split: option.split sum.split)

lemma wp_cfg_apply:
  "wp (cfg_apply skey cfg) (\<lambda>ok w'. cfg_kept w w' \<and> (ok \<longrightarrow> cx_cache_sessions (w_ctx w') \<le> MAX_CONCURRENT_SESSIONS)) w"
  by (auto simp: cfg_apply_def wp_simps cfg_kept_def split: option.split dest: cfg_settings_keeps)

lemma keeps_static_operations: "keeps env_only (static_operations_init E skey op)"
  unfolding static_operations_init_def Let_def
  by (intro eo.keeps_rules eo.keeps_exec_all) (auto simp: alg_group_def intro: eo.keeps_exec_stmt eo.keeps_term_algo split: if_splits)

lemma wp_provider_setup:
  assumes "cx_status (w_ctx w) = P11PROV_UNINITIALIZED" and "heap_ok (w_sess w)" and "w_slots w = None"
    and "pv_module pv = Some m" and "\<not> mo_initialized m" and "mo_init_args m = cfg P11PROV_CFG_INIT_ARGS"
  shows "wp (provider_setup E msg skey pf cfg pv) (\<lambda>(ok, pv') w'. ok \<longrightarrow> settled w cfg pv' w') w"
proof -
  let ?Q = "\<lambda>(ok, pv') w'. ok \<longrightarrow> settled w cfg pv' w'"
  let ?R = "\<lambda>v. cfg_kept w v \<and> cx_cache_sessions (w_ctx v) \<le> MAX_CONCURRENT_SESSIONS"
  have early: "wp (do { (r, pv) \<leftarrow> p11prov_ctx_status E msg skey pv'; ret (r = CKR_OK, pv) }) ?Q v"
    if "?R v" "pv_module pv' = Some m" "cfg P11PROV_CFG_LOAD_BEHAVIOR = Some ''early''" for v pv'
  proof -
    have v: "cx_status (w_ctx v) = P11PROV_UNINITIALIZED" "heap_ok (w_sess v)" "w_slots v = None"
      using that(1) assms by (auto simp: cfg_kept_def)
    note use = conjI [OF wp_first_use [OF v that(2) assms(5), of E msg skey] wp_ctx_status_outcome [of E msg skey pv' v], folded wp_conj]
    show ?thesis by (rule wp_seq [OF use]) (use v that(3) in \<open>auto simp: wp_return settled_def\<close>)
  qed
  have load: "wp (load_operations E msg skey cfg pv) ?Q v" if v: "?R v" for v
    unfolding load_operations_def
  proof (rule wp_seq [OF keepsD [OF keeps_static_operations]], clarify, unfold Let_def, intro wp_ifI)
    fix r op v'
    assume "env_only v v'"
    then have R: "?R v'" using v by (auto simp: cfg_kept_def dest!: env_only_simps)
    show "wp (do { (r, pv) \<leftarrow> p11prov_ctx_status E msg skey (pv\<lparr>pv_op := op\<rparr>); ret (r = CKR_OK, pv) }) ?Q v'"
      if "cfg P11PROV_CFG_LOAD_BEHAVIOR = Some ''early''"
      by (rule early [OF R _ that]) (simp add: assms(4))
    show "wp (ret (True, pv\<lparr>pv_op := op\<rparr>)) ?Q v'" if "cfg P11PROV_CFG_LOAD_BEHAVIOR \<noteq> Some ''early''"
      using that R assms by (simp add: wp_return settled_def cfg_kept_def)
  qed (simp add: wp_return)
  show ?thesis
    unfolding provider_setup_def
  proof (rule wp_seq [OF wp_cfg_pin], rule wp_ifI)
    fix ok v
    assume v: "cfg_kept w v"
    show "wp (do { ok \<leftarrow> cfg_apply skey cfg; if \<not> ok then ret (False, pv) else load_operations E msg skey cfg pv }) ?Q v"
      by (rule wp_seq [OF wp_cfg_apply], rule wp_ifI, simp add: wp_return, rule load) (use v in \<open>auto simp: cfg_kept_def\<close>)
  qed (simp add: wp_return)
qed

lemma wp_make_context:
  assumes "cx_status (w_ctx w) = P11PROV_UNINITIALIZED" and "heap_ok (w_sess w)" and "w_slots w = None"
  shows "wp (make_context E msg skey deflt pf cfg) (\<lambda>(ok, pv) w'. ok \<longrightarrow> settled w cfg pv w') w"
  unfolding make_context_def
proof (rule wp_seq [OF wp_module_new], clarify, unfold Let_def, rule wp_ifI)
  fix r x v
  let ?pv = "\<lparr>pv_module = x, pv_op = (\<lambda>_. [])\<rparr>"
  assume v: "env_only w v" and x: "r = CKR_OK \<longrightarrow> (\<exists>m. x = Some m \<and> \<not> mo_initialized m \<and> \<not> mo_dlhandle m \<and>
      mo_init_args m = cfg P11PROV_CFG_INIT_ARGS)"
  show "wp (provider_setup E msg skey pf cfg ?pv) (\<lambda>(ok, pv) w'. ok \<longrightarrow> settled w cfg pv w') v" if ok: "\<not> r \<noteq> CKR_OK"
  proof -
    obtain m where m: "pv_module ?pv = Some m" "\<not> mo_initialized m" "mo_init_args m = cfg P11PROV_CFG_INIT_ARGS" using x ok by auto
    have u: "cx_status (w_ctx v) = P11PROV_UNINITIALIZED" "heap_ok (w_sess v)" "w_slots v = None" and "w_sess v = w_sess w"
      using assms v by (auto dest!: env_only_simps)
    then have "settled v = settled w" by (simp add: settled_def fun_eq_iff)
    then show ?thesis
      using wp_provider_setup [where cfg = cfg and pv = ?pv and m = m and w = v, OF u m, of E msg skey pf] by (simp only:)
  qed
qed (simp add: wp_return)

lemma wp_finish_context:
  assumes "ok \<longrightarrow> settled w cfg pv v"
  shows "wp (finish_context E c pool ok pv) (\<lambda>r w'. case fst (snd r) of None \<Rightarrow> fst r \<noteq> RET_OSSL_OK
     | Some pv' \<Rightarrow> fst r = RET_OSSL_OK \<and> settled w cfg pv' w') v"
proof -
  have add: "keeps env_only (context_add_pool E c pool)"
    unfolding context_add_pool_def ctx_pool_room_def by (intro eo.keeps_rules)
  show ?thesis
    unfolding finish_context_def
    by (rule wp_ifI, rule wp_seq [OF wp_True], simp add: wp_return, rule wp_seq [OF keepsD [OF add]])
      (use assms in \<open>simp add: wp_return settled_env_only\<close>)
qed

lemma wp_provider_init:
  assumes "heap_ok (w_sess w)"
  shows "wp (OSSL_provider_init E msg skey deflt libctx params pf c pool) (\<lambda>(res, x, _) w'. case x of
       None \<Rightarrow> res \<noteq> RET_OSSL_OK
     | Some pv \<Rightarrow> res = RET_OSSL_OK \<and> (\<exists>cfg. cfg \<in> {cfg. \<exists>e. fst (params e) = (RET_OSSL_OK, cfg)} \<and> settled w cfg pv w')) w"
proof -
  let ?Q = "\<lambda>(res, x, pool') w'. case x of None \<Rightarrow> res \<noteq> RET_OSSL_OK
     | Some pv \<Rightarrow> res = RET_OSSL_OK \<and> (\<exists>cfg. cfg \<in> {cfg. \<exists>e. fst (params e) = (RET_OSSL_OK, cfg)} \<and> settled w cfg pv w')"
  let ?w = "w\<lparr>w_ctx := zero_ctx, w_slots := None\<rparr>"
  have made: "wp (do { (ok, pv) \<leftarrow> make_context E msg skey deflt pf cfg; finish_context E c pool ok pv }) ?Q v"
    if v: "env_only ?w v" "fst (params e) = (RET_OSSL_OK, cfg)" for v cfg e
  proof (rule wp_seq [OF wp_make_context], goal_cases)
    case (4 p v')
    have w: "settled v cfg pv w' = settled w cfg pv w'" for pv and w' :: "'a world"
      using v(1) by (auto simp: settled_def dest!: env_only_simps)
    obtain ok pv where p: "p = (ok, pv)" by fastforce
    have "ok \<longrightarrow> settled w cfg pv v'" using 4 by (simp add: p w)
    from wp_finish_context [OF this, of E c pool] show ?case
      unfolding p prod.case by (rule wp_mono) (use v(2) in \<open>auto simp: case_prod_beta split: option.splits\<close>)
  qed (use v(1) assms in \<open>auto simp: zero_ctx_def dest!: env_only_simps\<close>)
  have cfg: "wp (do { (res, cfg) \<leftarrow> ecall params;
       if res \<noteq> RET_OSSL_OK then do {
         pool \<leftarrow> p11prov_ctx_free E c \<lparr>pv_module = None, pv_op = (\<lambda>_. [])\<rparr> pool;
         ret (res, None, pool) }
       else do { (ok, pv) \<leftarrow> make_context E msg skey deflt pf cfg; finish_context E c pool ok pv } }) ?Q v"
    if v: "env_only ?w v" for v
  proof -
    obtain res cfg e' where p: "params (w_env v) = ((res, cfg), e')" by (metis prod.exhaust)
    have "wp (do { (ok, pv) \<leftarrow> make_context E msg skey deflt pf cfg; finish_context E c pool ok pv }) ?Q (v\<lparr>w_env := e'\<rparr>)"
      if "res = RET_OSSL_OK" by (rule made [of _ "w_env v"]) (use v p that in simp_all)
    then show ?thesis
      unfolding wp_bind [of "ecall _"] wp_ecall p prod.case
      by (intro wp_ifI) (simp_all add: wp_bind [of "p11prov_ctx_free _ _ _ _"] wp_return)
  qed
  show ?thesis
    unfolding OSSL_provider_init_def
    by (auto simp: wp_bind [of "ecall (E_malloc E sizeof_ctx)"] wp_bind [of "ecall libctx"] wp_bind [of "modify _"]
        wp_bind [of "p11prov_mutex_init _ _"] wp_ecall wp_modify wp_mutex_init wp_return split: prod.split intro!: wp_ifI cfg)
qed

text \<open>
  C32. Loading the provider: a call of the entry point that succeeds returns a context that is ready for OpenSSL. Unless early
  loading is configured the module was not touched: there are no slots, no session has changed, the cache of sessions is
  within its bound, and the module waits for the first use with the configured arguments. With early loading the context is
  initialised and its session pools have their invariant. A call that fails returns no context.
\<close>

theorem provider_init_ready:
  assumes "heap_ok (w_sess w)"
  shows "wp (OSSL_provider_init E msg skey deflt libctx params pf c pool) (\<lambda>(res, x, _) w'. case x of
       None \<Rightarrow> res \<noteq> RET_OSSL_OK
     | Some pv \<Rightarrow> res = RET_OSSL_OK \<and> (\<exists>cfg. cfg \<in> {cfg. \<exists>e. fst (params e) = (RET_OSSL_OK, cfg)} \<and> settled w cfg pv w')) w"
  by (rule wp_provider_init [OF assms])

definition sim_params :: "sim \<Rightarrow> (int \<times> config) \<times> sim" where
  "sim_params e = ((RET_OSSL_OK, (\<lambda>_. None)(P11PROV_CFG_PATH := Some ''/usr/lib/pkcs11.so'', P11PROV_CFG_LOAD_BEHAVIOR := Some ''early'')), e)"

theorem provider_init_ready_witness:
  "wp (OSSL_provider_init sim_env True True None (Pair True) sim_params (\<lambda>_ _. PinNoFile) 5 empty_ctx_pool)
     (\<lambda>(res, x, _) w'. (x \<noteq> None \<longleftrightarrow> res = RET_OSSL_OK) \<and> (res = RET_OSSL_OK \<longrightarrow> cx_status (w_ctx w') = P11PROV_INITIALIZED)) sim_world"
  by (rule wp_mono [OF provider_init_ready])
    (auto simp: sim_world_def heap_ok_def hempty_def sim_params_def settled_def split: option.splits)

section \<open>Modules that must not be called at the end\<close>

text \<open>The functions of the environment that the release of a context uses, apart from \<open>C_Finalize\<close>.\<close>

definition same_release :: "'e p11env \<Rightarrow> 'e p11env \<Rightarrow> bool" where
  "same_release E E' \<longleftrightarrow> E_lock E = E_lock E' \<and> E_unlock E = E_unlock E' \<and> E_mutex_destroy E = E_mutex_destroy E'"

lemma same_release_mutex:
  assumes "same_release E E'"
  shows "p11prov_mutex_lock E = p11prov_mutex_lock E'" "p11prov_mutex_unlock E = p11prov_mutex_unlock E'"
    "p11prov_mutex_destroy E = p11prov_mutex_destroy E'"
  by (rule ext, use assms in \<open>simp add: same_release_def p11prov_mutex_lock_def p11prov_mutex_unlock_def p11prov_mutex_destroy_def\<close>)+

lemma same_release_slots:
  assumes "same_release E E'" and "E_CloseSession E = E_CloseSession E'"
  shows "p11prov_free_slots E = p11prov_free_slots E'"
proof -
  note mutex = same_release_mutex [OF assms(1)]
  have sess: "session_free E x = session_free E' x" for x
    unfolding session_free_def token_session_close_def mutex assms(2) ..
  have pool: "p11prov_session_pool_free E x = p11prov_session_pool_free E' x" for x
    unfolding p11prov_session_pool_free_def mutex sess ..
  have objs: "p11prov_obj_pool_free E x = p11prov_obj_pool_free E' x" for x
    unfolding p11prov_obj_pool_free_def mutex ..
  have loop: "free_slots_loop E ss = free_slots_loop E' ss" for ss by (induction ss) (simp_all add: pool objs)
  show ?thesis unfolding p11prov_free_slots_def mutex loop ..
qed

text \<open>The release of the slots leaves the context alone.\<close>

interpretation cs: world_preorder "\<lambda>w w'. w_ctx w' = w_ctx w"
  by unfold_locales auto

lemma keeps_ctx_for_each: "(\<And>x. keeps (\<lambda>w w'. w_ctx w' = w_ctx w) (f x)) \<Longrightarrow> keeps (\<lambda>w w'. w_ctx w' = w_ctx w) (for_each f xs)"
  by (induction xs) (auto intro!: cs.keeps_ret cs.keeps_bind)

lemma keeps_ctx_destroy: "keeps (\<lambda>w w'. w_ctx w' = w_ctx w) (p11prov_mutex_destroy E l)"
  unfolding p11prov_mutex_destroy_def by (intro cs.keeps_rules)

lemma keeps_ctx_free_slots: "keeps (\<lambda>w w'. w_ctx w' = w_ctx w) (p11prov_free_slots E x)"
proof -
  let ?R = "\<lambda>w w'. w_ctx w' = w_ctx w"
  have "keeps ?R (session_free E y)" for y
    unfolding session_free_def token_session_close_def
    by (intro cs.keeps_rules cs.keeps_modify keeps_ctx_destroy) simp_all
  then have "keeps ?R (p11prov_session_pool_free E y)" for y
    unfolding p11prov_session_pool_free_def
    by (intro cs.keeps_rules cs.keeps_modify keeps_ctx_destroy keeps_ctx_for_each) simp_all
  moreover have "keeps ?R (p11prov_obj_pool_free E y)" for y
    unfolding p11prov_obj_pool_free_def
    by (intro cs.keeps_rules cs.keeps_modify keeps_ctx_destroy) simp_all
  ultimately have "keeps ?R (free_slots_loop E ss)" for ss
    by (induction ss) (auto intro!: cs.keeps_ret cs.keeps_bind)
  then show ?thesis unfolding p11prov_free_slots_def by (intro cs.keeps_rules keeps_ctx_destroy)
qed

lemma module_free_spared: "cx_status (w_ctx v) = P11PROV_NO_DEINIT \<Longrightarrow> run_state (p11prov_module_free E x) v = ((), v)"
  by (auto simp: p11prov_module_free_def p11prov_Finalize_def wrapped_def p11prov_ctx_get_interface_def split: option.split)

text \<open>
  C33. With the quirk \<^verbatim>\<open>no-deinit\<close> the end of a context never calls the module: whatever \<open>C_CloseSession\<close> and \<open>C_Finalize\<close> would
  do, even crash, the result and the final state are the same.
\<close>

theorem no_deinit_spares_module:
  assumes "cx_no_deinit (w_ctx w)"
  shows "run_state (p11prov_ctx_free (E\<lparr>E_CloseSession := close, E_Finalize := fin\<rparr>) c pv pool) w =
    run_state (p11prov_ctx_free E c pv pool) w"
proof -
  let ?E = "E\<lparr>E_CloseSession := close, E_Finalize := fin\<rparr>"
  have same: "same_release ?E E" by (simp add: same_release_def)
  note mutex = same_release_mutex [OF same]
  have slots: "p11prov_free_slots (E\<lparr>E_Finalize := fin, E_CloseSession := cs\<rparr>) = p11prov_free_slots (E\<lparr>E_CloseSession := cs\<rparr>)" for cs
    by (rule same_release_slots) (simp_all add: same_release_def)
  have rm: "context_rm_pool ?E c pool = context_rm_pool E c pool" unfolding context_rm_pool_def mutex ..
  let ?w = "w\<lparr>w_ctx := (w_ctx w)\<lparr>cx_status := P11PROV_NO_DEINIT\<rparr>\<rparr>"
  have env: "releasing_env ((w_ctx w)\<lparr>cx_status := P11PROV_NO_DEINIT\<rparr>) m E' = E'\<lparr>E_CloseSession := \<lambda>h e. (CKR_GENERAL_ERROR, e)\<rparr>" for m E'
    by (simp add: releasing_env_def p11prov_ctx_get_interface_def)
  obtain b v where v: "run_state (p11prov_free_slots (E\<lparr>E_CloseSession := \<lambda>h e. (CKR_GENERAL_ERROR, e)\<rparr>) (w_slots w)) ?w = (b, v)"
    by fastforce
  have "w_ctx v = w_ctx ?w" by (rule wp_run [OF keepsD [OF keeps_ctx_free_slots] v])
  then have dead: "run_state (p11prov_module_free E' (pv_module pv)) (v\<lparr>w_slots := None\<rparr>) = ((), v\<lparr>w_slots := None\<rparr>)" for E'
    by (intro module_free_spared) simp
  show ?thesis
    unfolding p11prov_ctx_free_def mutex rm
    by (simp add: assms env v dead slots)
qed

theorem no_deinit_spares_module_witness:
  "run_state (p11prov_ctx_free (sim_env\<lparr>E_CloseSession := \<lambda>h e. (CKR_OK, e\<lparr>sim_logins := 99\<rparr>),
      E_Finalize := \<lambda>e. (CKR_OK, e\<lparr>sim_logins := 99\<rparr>)\<rparr>) 5 fresh_prov empty_ctx_pool) (sim_world\<lparr>w_ctx := sim_ctx\<lparr>cx_no_deinit := True\<rparr>\<rparr>) =
   run_state (p11prov_ctx_free sim_env 5 fresh_prov empty_ctx_pool) (sim_world\<lparr>w_ctx := sim_ctx\<lparr>cx_no_deinit := True\<rparr>\<rparr>)"
  by (rule no_deinit_spares_module) simp

section \<open>An accepted configuration\<close>

text \<open>
  \<open>accepted skey deflt cfg\<close>: a module is known, no PIN is configured, and the other values are accepted.
\<close>

definition accepted :: "bool \<Rightarrow> string option \<Rightarrow> config \<Rightarrow> bool" where
  "accepted skey deflt cfg \<longleftrightarrow> (cfg P11PROV_CFG_PATH \<noteq> None \<or> deflt \<noteq> None) \<and> cfg P11PROV_CFG_TOKEN_PIN = None \<and>
     cfg_settings skey cfg zero_ctx \<noteq> None"

lemma module_new_works:
  assumes "cooperative E" and "path \<noteq> None \<or> deflt \<noteq> None"
  shows "wp (p11prov_module_new E deflt path args) (\<lambda>(r, x) w'. r = CKR_OK \<and> env_only w w' \<and> (\<exists>m. x = Some m \<and> \<not> mo_initialized m)) w"
  using assms(2)
  by (auto simp: p11prov_module_new_def wp_simps Let_def split: prod.split option.split dest!: cooperativeD [OF assms(1)])

lemma load_operations_works:
  assumes "cooperative E" and "cx_status (w_ctx w) = P11PROV_UNINITIALIZED" and "w_slots w = None"
    and "pv_module pv = Some m" and "\<not> mo_initialized m"
  shows "wp (load_operations E msg skey cfg pv) (\<lambda>(ok, _) _. ok) w"
proof -
  have static: "wp (static_operations_init E skey op) (\<lambda>(r, _) w'. r = CKR_OK \<and> env_only w w') w" for op
  proof -
    have "wp (static_operations_init E skey op) (\<lambda>(r, _) _. r = CKR_OK) w"
      unfolding static_operations_init_def by (simp add: wp_bind wp_gets wp_return Let_def case_prod_beta)
    then show ?thesis using keepsD [OF keeps_static_operations, of E skey op w] by (auto simp: wp_def)
  qed
  have early: "wp (do { (r, pv) \<leftarrow> p11prov_ctx_status E msg skey (pv\<lparr>pv_op := op\<rparr>); ret (r = CKR_OK, pv) }) (\<lambda>(ok, _) _. ok) v"
    if "env_only w v" for op v
  proof -
    have v: "cx_status (w_ctx v) = P11PROV_UNINITIALIZED" "w_slots v = None" "pv_module (pv\<lparr>pv_op := op\<rparr>) = Some m"
      using that assms by (auto dest!: env_only_simps)
    show ?thesis
      by (rule wp_seq [OF wp_first_use_succeeds [OF assms(1) v assms(5)]]) (auto simp: wp_return)
  qed
  show ?thesis
    unfolding load_operations_def Let_def
    by (rule wp_seq [OF static]) (auto simp: wp_return intro!: early)
qed

lemma make_context_works:
  assumes "cooperative E" and "w_ctx w = zero_ctx" and "w_slots w = None" and "accepted skey deflt cfg"
  shows "wp (make_context E msg skey deflt pf cfg) (\<lambda>(ok, _) _. ok) w"
proof -
  have path: "cfg P11PROV_CFG_PATH \<noteq> None \<or> deflt \<noteq> None" using assms(4) by (simp add: accepted_def)
  obtain ctx where ctx: "cfg_settings skey cfg zero_ctx = Some ctx" using assms(4) by (auto simp: accepted_def)
  have st: "cx_status ctx = P11PROV_UNINITIALIZED" using cfg_settings_keeps(1) [OF ctx] by (simp add: zero_ctx_def)
  have "wp (provider_setup E msg skey pf cfg pv) (\<lambda>(ok, _) _. ok) v"
    if "env_only w v" "pv_module pv = Some m" "\<not> mo_initialized m" for v pv m
  proof -
    have v: "w_ctx v = zero_ctx" "w_slots v = None" using that(1) assms by (auto dest!: env_only_simps)
    have "wp (load_operations E msg skey cfg pv) (\<lambda>(ok, _) _. ok) (v\<lparr>w_ctx := ctx\<rparr>)"
      by (rule load_operations_works [OF assms(1) _ _ that(2,3)]) (simp_all add: st v)
    then show ?thesis
      using assms(4) by (simp add: provider_setup_def cfg_pin_def cfg_apply_def accepted_def v ctx wp_bind wp_gets wp_modify wp_return)
  qed
  then show ?thesis
    unfolding make_context_def Let_def
    by (intro wp_seq [OF module_new_works [OF assms(1) path]]) auto
qed

lemma provider_init_works:
  assumes "cooperative E" and "\<And>e. fst (libctx e)" and "\<And>e. fst (params e) = (RET_OSSL_OK, cfg)" and "accepted skey deflt cfg"
  shows "wp (OSSL_provider_init E msg skey deflt libctx params pf c pool) (\<lambda>(_, x, _) _. x \<noteq> None) w"
proof -
  have lib: "libctx e = (b, e') \<Longrightarrow> b" for e b e' using assms(2) [of e] by simp
  have par: "params e = ((r, g), e') \<Longrightarrow> r = RET_OSSL_OK \<and> g = cfg" for e r g e' using assms(3) [of e] by simp
  have made: "wp (do { (ok, pv) \<leftarrow> make_context E msg skey deflt pf cfg; finish_context E c pool ok pv }) (\<lambda>(_, x, _) _. x \<noteq> None) v"
    if "w_ctx v = zero_ctx" "w_slots v = None" for v
    by (rule wp_seq [OF make_context_works [OF assms(1) that assms(4)]])
      (auto simp: finish_context_def wp_bind [of "context_add_pool _ _ _"] wp_return)
  show ?thesis
    unfolding OSSL_provider_init_def
    by (auto simp: wp_bind [of "ecall _"] wp_bind [of "modify _"] wp_bind [of "p11prov_mutex_init _ _"] wp_ecall wp_modify wp_mutex_init
        simp del: not_None_eq split: prod.split dest!: cooperativeD [OF assms(1)] lib par intro!: made)
qed

end
