(* ===== verification/P11_Frame.thy ===== *)
theory P11_Frame
  imports P11_Access
begin

text \<open>
  What the session functions leave alone. The locale \<open>session_blind\<close> is for relations between states that do not look at sessions,
  session pools and stored PINs: every function of \<^verbatim>\<open>src/src/session.c\<close> that hands out, checks or returns sessions keeps them. Its
  first interpretation is \<open>same_objs\<close>, the equality of everything the objects are made of.
\<close>

section \<open>The handle of a session\<close>

definition handle_of :: "addr option \<Rightarrow> ('e world, CK_SESSION_HANDLE) state" where
  "handle_of x = (case x of
     None \<Rightarrow> ret (p11prov_session_handle None)
   | Some a \<Rightarrow> do { s \<leftarrow> get_s a; ret (p11prov_session_handle (Some s)) })"

lemma wp_handle_of [wp_simps]:
  "wp (handle_of x) Q = (\<lambda>w. Q (case x of None \<Rightarrow> CK_INVALID_HANDLE | Some a \<Rightarrow> s_session (cell w a)) w)"
  by (cases x) (simp_all add: handle_of_def p11prov_session_handle_def wp_simps)

context world_preorder begin

lemma keeps_handle_of: "keeps R (handle_of x)"
  unfolding handle_of_def by (intro keeps_rules)

end

section \<open>Relations that do not look at sessions\<close>

definition same_slots :: "slots_ctx option \<Rightarrow> slots_ctx option \<Rightarrow> bool" where
  "same_slots x y \<longleftrightarrow> map_option (\<lambda>c. (map without_pins (sc_slots c), sc_default_slot c)) x =
     map_option (\<lambda>c. (map without_pins (sc_slots c), sc_default_slot c)) y"

lemma same_slots_upd:
  assumes "\<And>s. without_pins (f s) = without_pins s"
  shows "same_slots x (map_option (\<lambda>c. c\<lparr>sc_slots := (sc_slots c)[i := f (sc_slots c ! i)]\<rparr>) x)"
proof -
  have "map without_pins (xs[i := f (xs ! i)]) = map without_pins xs" for xs
    by (cases "i < length xs") (simp_all add: map_update assms list_update_same_conv list_update_beyond)
  then show ?thesis by (cases x) (simp_all add: same_slots_def)
qed

locale session_blind = world_preorder +
  assumes rel_sess: "R w (w\<lparr>w_sess := hs\<rparr>)"
    and rel_pools: "R w (w\<lparr>w_pools := hp\<rparr>)"
    and rel_slots: "same_slots (w_slots w) sl \<Longrightarrow> R w (w\<lparr>w_slots := sl\<rparr>)"
begin

lemma keeps_mod_sess: "keeps R (modify (\<lambda>w. w\<lparr>w_sess := f w\<rparr>))"
  by (rule keeps_modify) (rule rel_sess)

lemma keeps_mod_pools: "keeps R (modify (\<lambda>w. w\<lparr>w_pools := f w\<rparr>))"
  by (rule keeps_modify) (rule rel_pools)

lemma keeps_mod_slot: "(\<And>s. without_pins (f s) = without_pins s) \<Longrightarrow> keeps R (upd_slot i f)"
  unfolding upd_slot_def by (intro keeps_modify rel_slots same_slots_upd)

lemma keeps_mutex: "keeps R (p11prov_mutex_init E l)" "keeps R (p11prov_mutex_destroy E l)"
  unfolding p11prov_mutex_init_def p11prov_mutex_destroy_def
  by (intro keeps_rules keeps_modify rel_held)+

lemmas blind_rules = keeps_rules keeps_mod_sess keeps_mod_pools keeps_mutex

lemma keeps_open: "keeps R (token_session_open E a flags)"
  unfolding token_session_open_def open_attempt_def by (intro blind_rules)

lemma keeps_close: "keeps R (token_session_close E a)"
  unfolding token_session_close_def by (intro blind_rules)

lemma keeps_sess_free: "keeps R (session_free E x)"
  unfolding session_free_def by (intro blind_rules keeps_close)

lemma keeps_sess_new: "keeps R (session_new E p)"
  unfolding session_new_def session_new_bare_def by (intro blind_rules keeps_sess_free)

lemma keeps_sess_check: "keeps R (session_check E x flags)"
  unfolding session_check_def by (intro blind_rules)

lemma keeps_sess_ref: "keeps R (p11prov_session_ref x)" "keeps R (p11prov_session_deref x)"
  unfolding p11prov_session_ref_def p11prov_session_deref_def by (intro blind_rules)+

lemma keeps_login_scan: "keeps R (login_scan E r as)"
  by (induction as arbitrary: r) (auto intro!: blind_rules)

lemma keeps_take_scan: "(\<And>a. keeps R (prepare a)) \<Longrightarrow> keeps R (take_scan E test can_take prepare r as)"
  by (induction as arbitrary: r) (auto intro!: blind_rules)

lemma keeps_fetch: "keeps R (fetch_session E p flags login)"
  unfolding fetch_session_def fetch_free_def scan_step_def
  by (intro blind_rules keeps_login_scan keeps_take_scan keeps_close keeps_sess_new)

lemma keeps_return: "keeps R (p11prov_return_session E x)"
  unfolding p11prov_return_session_def p11prov_session_set_callback_def count_open_def
  by (intro blind_rules keeps_close keeps_sess_free)

lemma keeps_pins: "keeps R (p11prov_slot_set_bad_pin E i pin)" "keeps R (p11prov_slot_set_cached_pin E i pin)"
  unfolding p11prov_slot_set_bad_pin_def p11prov_slot_set_cached_pin_def
  by (intro blind_rules keeps_mod_slot; simp add: without_pins_def)+

lemma keeps_login: "keeps R (token_login E a uri pw_cb i ut)"
  unfolding token_login_def login_result_def
  by (intro blind_rules keeps_choose_pin keeps_check_pin_flags keeps_sess_ref keeps_pins)

lemma keeps_slot_login: "keeps R (slot_login E p i uri pw_cb reqlogin want)"
  unfolding slot_login_def login_finish_def login_on_def login_undo_def
  by (intro blind_rules keeps_fetch keeps_login keeps_sess_check keeps_open keeps_sess_ref keeps_return)

lemma keeps_check_and_login: "keeps R (check_and_login E i uri m pw_cb reqlogin rw)"
  unfolding check_and_login_def by (intro blind_rules keeps_check_slot keeps_slot_login)

lemma keeps_cycle: "keeps R (cycle_slots E uri m pw_cb reqlogin rw sid r is)"
  by (induction "is" arbitrary: sid r) (auto intro!: blind_rules keeps_check_and_login)

lemma keeps_get_session: "keeps R (p11prov_get_session E slotid iter uri m pw_cb reqlogin rw)"
  unfolding p11prov_get_session_def slot_with_id_def next_slot_def grant_session_def open_in_pool_def open_fetched_def
  by (intro blind_rules keeps_get_slot_by_id keeps_check_and_login keeps_cycle keeps_fetch keeps_return keeps_sess_check keeps_open)

lemma keeps_try_session: "keeps R (p11prov_try_session_ref E ob m reqlogin rw)"
  unfolding p11prov_try_session_ref_def try_ref_def ref_take_def ref_check_def ref_release_def
  by (intro blind_rules keeps_check_mechanism keeps_get_session keeps_sess_check keeps_open)

lemma keeps_take_login: "keeps R (p11prov_take_login_session E slotid)"
  unfolding p11prov_take_login_session_def
  by (intro blind_rules keeps_get_slot_by_id keeps_slot_login)

end

text \<open>Objects, object pools, the context and the slots but for the PINs are the same.\<close>

definition same_objs :: "'e world \<Rightarrow> 'e world \<Rightarrow> bool" where
  "same_objs w w' \<longleftrightarrow> w_objs w' = w_objs w \<and> w_opools w' = w_opools w \<and> w_ctx w' = w_ctx w \<and> same_slots (w_slots w) (w_slots w')"

interpretation sob: session_blind same_objs
  by unfold_locales (auto simp: same_objs_def same_slots_def)

end
