(* ===== verification/P11_Digest.thy ===== *)
theory P11_Digest
  imports P11_Config P11_Frame
begin

text \<open>
  Digests (\<^verbatim>\<open>src/src/digests.c\<close>): the table of digests, and digest contexts, each of which keeps a session of the token while an
  operation is in progress. A context is a value; the functions return it as they leave it, and a context pointer that may be
  NULL is an option. The digest functions of the module are the record \<open>digest_env\<close>; the wrappers around \<open>GetOperationState\<close> and
  \<open>SetOperationState\<close> can be blocked by a quirk, the masks of the others are 0.
\<close>

section \<open>The table of digests\<close>

record digest_entry =
  dm_digest :: CK_MECHANISM_TYPE
  dm_block_size :: nat
  dm_digest_size :: nat
  dm_names :: "string list"

definition digest_map :: "digest_entry list" where
  "digest_map =
    [\<lparr>dm_digest = CKM_SHA_1, dm_block_size = 64, dm_digest_size = 20,
       dm_names = [''SHA1'', ''SHA-1'', ''SSL3-SHA1'', ''1.3.14.3.2.26'']\<rparr>,
     \<lparr>dm_digest = CKM_SHA224, dm_block_size = 64, dm_digest_size = 28,
       dm_names = [''SHA2-224'', ''SHA-224'', ''SHA224'', ''2.16.840.1.101.3.4.2.4'']\<rparr>,
     \<lparr>dm_digest = CKM_SHA256, dm_block_size = 64, dm_digest_size = 32,
       dm_names = [''SHA2-256'', ''SHA-256'', ''SHA256'', ''2.16.840.1.101.3.4.2.1'']\<rparr>,
     \<lparr>dm_digest = CKM_SHA384, dm_block_size = 128, dm_digest_size = 48,
       dm_names = [''SHA2-384'', ''SHA-384'', ''SHA384'', ''2.16.840.1.101.3.4.2.2'']\<rparr>,
     \<lparr>dm_digest = CKM_SHA512, dm_block_size = 128, dm_digest_size = 64,
       dm_names = [''SHA2-512'', ''SHA-512'', ''SHA512'', ''2.16.840.1.101.3.4.2.3'']\<rparr>,
     \<lparr>dm_digest = CKM_SHA512_224, dm_block_size = 128, dm_digest_size = 28,
       dm_names = [''SHA2-512/224'', ''SHA-512/224'', ''SHA512-224'', ''2.16.840.1.101.3.4.2.5'']\<rparr>,
     \<lparr>dm_digest = CKM_SHA512_256, dm_block_size = 128, dm_digest_size = 32,
       dm_names = [''SHA2-512/256'', ''SHA-512/256'', ''SHA512-256'', ''2.16.840.1.101.3.4.2.6'']\<rparr>,
     \<lparr>dm_digest = CKM_SHA3_224, dm_block_size = (1600 - 224 * 2) div 8, dm_digest_size = 28,
       dm_names = [''SHA3-224'', ''2.16.840.1.101.3.4.2.7'']\<rparr>,
     \<lparr>dm_digest = CKM_SHA3_256, dm_block_size = (1600 - 256 * 2) div 8, dm_digest_size = 32,
       dm_names = [''SHA3-256'', ''2.16.840.1.101.3.4.2.8'']\<rparr>,
     \<lparr>dm_digest = CKM_SHA3_384, dm_block_size = (1600 - 384 * 2) div 8, dm_digest_size = 48,
       dm_names = [''SHA3-384'', ''2.16.840.1.101.3.4.2.9'']\<rparr>,
     \<lparr>dm_digest = CKM_SHA3_512, dm_block_size = (1600 - 512 * 2) div 8, dm_digest_size = 64,
       dm_names = [''SHA3-512'', ''2.16.840.1.101.3.4.2.10'']\<rparr>,
     \<lparr>dm_digest = CK_UNAVAILABLE_INFORMATION, dm_block_size = 0, dm_digest_size = 0, dm_names = []\<rparr>]"

text \<open>The loop that the lookups share; it stops at the end mark.\<close>

fun find_digest :: "CK_MECHANISM_TYPE \<Rightarrow> digest_entry list \<Rightarrow> digest_entry option" where
  "find_digest digest [] = None"
| "find_digest digest (x # xs) =
     (if dm_digest x = CK_UNAVAILABLE_INFORMATION then None
      else if dm_digest x = digest then Some x else find_digest digest xs)"

definition p11prov_digest_get_block_size :: "CK_MECHANISM_TYPE \<Rightarrow> CK_RV \<times> nat option" where
  "p11prov_digest_get_block_size digest = (case find_digest digest digest_map of
     None \<Rightarrow> (CKR_MECHANISM_INVALID, None) | Some x \<Rightarrow> (CKR_OK, Some (dm_block_size x)))"

definition p11prov_digest_get_digest_size :: "CK_MECHANISM_TYPE \<Rightarrow> CK_RV \<times> nat option" where
  "p11prov_digest_get_digest_size digest = (case find_digest digest digest_map of
     None \<Rightarrow> (CKR_MECHANISM_INVALID, None) | Some x \<Rightarrow> (CKR_OK, Some (dm_digest_size x)))"

definition p11prov_digest_get_name :: "CK_MECHANISM_TYPE \<Rightarrow> CK_RV \<times> string option" where
  "p11prov_digest_get_name digest = (case find_digest digest digest_map of
     None \<Rightarrow> (CKR_MECHANISM_INVALID, None) | Some x \<Rightarrow> (CKR_OK, Some (hd (dm_names x))))"

text \<open>\<open>cmp\<close> is \<^verbatim>\<open>OPENSSL_strcasecmp\<close>.\<close>

fun find_name :: "(string \<Rightarrow> string \<Rightarrow> int) \<Rightarrow> string \<Rightarrow> digest_entry list \<Rightarrow> CK_MECHANISM_TYPE option" where
  "find_name cmp name [] = None"
| "find_name cmp name (x # xs) =
     (if dm_digest x = CK_UNAVAILABLE_INFORMATION then None
      else if \<exists>n \<in> set (dm_names x). cmp name n = 0 then Some (dm_digest x) else find_name cmp name xs)"

definition p11prov_digest_get_by_name :: "(string \<Rightarrow> string \<Rightarrow> int) \<Rightarrow> string \<Rightarrow> CK_RV \<times> CK_MECHANISM_TYPE option" where
  "p11prov_digest_get_by_name cmp name = (case find_name cmp name digest_map of
     None \<Rightarrow> (CKR_MECHANISM_INVALID, None) | Some d \<Rightarrow> (CKR_OK, Some d))"

section \<open>Digest contexts\<close>

text \<open>
  \<open>D_GetOperationStateLen\<close> is the call with a NULL buffer. \<open>D_DigestFinal h n\<close> gives what the module writes into a buffer of
  \<open>n\<close> bytes; its length is the length the call reports.
\<close>

record 'e digest_env =
  D_DigestInit :: "CK_SESSION_HANDLE \<Rightarrow> CK_MECHANISM_TYPE \<Rightarrow> 'e \<Rightarrow> CK_RV \<times> 'e"
  D_DigestUpdate :: "CK_SESSION_HANDLE \<Rightarrow> bytes \<Rightarrow> 'e \<Rightarrow> CK_RV \<times> 'e"
  D_DigestFinal :: "CK_SESSION_HANDLE \<Rightarrow> nat \<Rightarrow> 'e \<Rightarrow> (CK_RV \<times> bytes) \<times> 'e"
  D_GetOperationStateLen :: "CK_SESSION_HANDLE \<Rightarrow> 'e \<Rightarrow> (CK_RV \<times> nat) \<times> 'e"
  D_GetOperationState :: "CK_SESSION_HANDLE \<Rightarrow> nat \<Rightarrow> 'e \<Rightarrow> (CK_RV \<times> bytes) \<times> 'e"
  D_SetOperationState :: "CK_SESSION_HANDLE \<Rightarrow> bytes \<Rightarrow> 'e \<Rightarrow> CK_RV \<times> 'e"

definition P11PROV_BLOCK_SetOperationState :: "64 word" where
  "P11PROV_BLOCK_SetOperationState = 8"

definition P11PROV_BLOCK_Digest :: "64 word" where
  "P11PROV_BLOCK_Digest = 0"

text \<open>A wrapper of a context: the context's module, which may be missing.\<close>

definition ctx_wrapped :: "prov \<Rightarrow> 64 word \<Rightarrow> 'a \<Rightarrow> ('e \<Rightarrow> (CK_RV \<times> 'a) \<times> 'e) \<Rightarrow> ('e world, CK_RV \<times> 'a) state" where
  "ctx_wrapped pv bits none f =
     (case pv_module pv of None \<Rightarrow> ret (CKR_GENERAL_ERROR, none) | Some m \<Rightarrow> wrapped m bits none f)"

definition p11prov_GetOperationState_len :: "'e digest_env \<Rightarrow> prov \<Rightarrow> CK_SESSION_HANDLE \<Rightarrow> ('e world, CK_RV \<times> nat) state" where
  "p11prov_GetOperationState_len D pv h = ctx_wrapped pv P11PROV_BLOCK_GetOperationState 0 (D_GetOperationStateLen D h)"

definition p11prov_GetOperationState ::
    "'e digest_env \<Rightarrow> prov \<Rightarrow> CK_SESSION_HANDLE \<Rightarrow> nat \<Rightarrow> ('e world, CK_RV \<times> bytes) state" where
  "p11prov_GetOperationState D pv h n = ctx_wrapped pv P11PROV_BLOCK_GetOperationState [] (D_GetOperationState D h n)"

definition p11prov_SetOperationState ::
    "'e digest_env \<Rightarrow> prov \<Rightarrow> CK_SESSION_HANDLE \<Rightarrow> bytes \<Rightarrow> ('e world, CK_RV \<times> unit) state" where
  "p11prov_SetOperationState D pv h st = ctx_wrapped pv P11PROV_BLOCK_SetOperationState () (only_rv (D_SetOperationState D h st))"

definition p11prov_DigestInit ::
    "'e digest_env \<Rightarrow> prov \<Rightarrow> CK_SESSION_HANDLE \<Rightarrow> CK_MECHANISM_TYPE \<Rightarrow> ('e world, CK_RV \<times> unit) state" where
  "p11prov_DigestInit D pv h mech = ctx_wrapped pv P11PROV_BLOCK_Digest () (only_rv (D_DigestInit D h mech))"

definition p11prov_DigestUpdate ::
    "'e digest_env \<Rightarrow> prov \<Rightarrow> CK_SESSION_HANDLE \<Rightarrow> bytes \<Rightarrow> ('e world, CK_RV \<times> unit) state" where
  "p11prov_DigestUpdate D pv h bs = ctx_wrapped pv P11PROV_BLOCK_Digest () (only_rv (D_DigestUpdate D h bs))"

definition p11prov_DigestFinal ::
    "'e digest_env \<Rightarrow> prov \<Rightarrow> CK_SESSION_HANDLE \<Rightarrow> nat \<Rightarrow> ('e world, CK_RV \<times> bytes) state" where
  "p11prov_DigestFinal D pv h n = ctx_wrapped pv P11PROV_BLOCK_Digest [] (D_DigestFinal D h n)"

record p11prov_digest_ctx =
  dc_mechtype :: CK_MECHANISM_TYPE
  dc_session :: "addr option"

definition sizeof_digest_ctx :: nat where
  "sizeof_digest_ctx = 24"

definition p11prov_digest_newctx :: "'e p11env \<Rightarrow> CK_MECHANISM_TYPE \<Rightarrow> ('e world, p11prov_digest_ctx option) state" where
  "p11prov_digest_newctx E mech = do {
     ok \<leftarrow> ecall (E_malloc E sizeof_digest_ctx);
     ret (if ok then Some \<lparr>dc_mechtype = mech, dc_session = None\<rparr> else None) }"

text \<open>The handle of a session pointer; NULL gives the invalid handle.\<close>

text \<open>
  \<open>p11prov_digest_dupctx\<close>. \<open>save_state\<close> asks the module for the state of the operation; \<open>restore_state\<close> puts it into a new session
  for the old context and gives the session of the old context. The new context, if any, has the old session.
\<close>

definition save_state :: "'e p11env \<Rightarrow> 'e digest_env \<Rightarrow> prov \<Rightarrow> CK_SESSION_HANDLE \<Rightarrow> ('e world, bytes option) state" where
  "save_state E D pv sess = do {
     (r, n) \<leftarrow> p11prov_GetOperationState_len D pv sess;
     if r \<noteq> CKR_OK then ret None
     else do {
       ok \<leftarrow> ecall (E_malloc E n);
       if \<not> ok then ret None
       else do {
         (r, st) \<leftarrow> p11prov_GetOperationState D pv sess n;
         ret (if r \<noteq> CKR_OK then None else Some st) } } }"

definition restore_state ::
    "'e p11env \<Rightarrow> 'e digest_env \<Rightarrow> prov \<Rightarrow> CK_MECHANISM_TYPE \<Rightarrow> bytes \<Rightarrow> ('e world, addr option) state" where
  "restore_state E D pv mech st = do {
     g \<leftarrow> p11prov_get_session E CK_UNAVAILABLE_INFORMATION False None mech None False False;
     if gs_rv g \<noteq> CKR_OK then ret None
     else do {
       sess \<leftarrow> handle_of (gs_session g);
       (r, _) \<leftarrow> p11prov_SetOperationState D pv sess st;
       if r \<noteq> CKR_OK then do { p11prov_return_session E (gs_session g); ret None }
       else ret (gs_session g) } }"

definition p11prov_digest_dupctx ::
    "'e p11env \<Rightarrow> 'e digest_env \<Rightarrow> prov \<Rightarrow> p11prov_digest_ctx option \<Rightarrow>
     ('e world, p11prov_digest_ctx option \<times> p11prov_digest_ctx option) state" where
  "p11prov_digest_dupctx E D pv ctx = (case ctx of
     None \<Rightarrow> ret (None, None)
   | Some dctx \<Rightarrow> do {
       ok \<leftarrow> ecall (E_malloc E sizeof_digest_ctx);
       if \<not> ok then ret (None, Some dctx)
       else (case dc_session dctx of
         None \<Rightarrow> ret (Some \<lparr>dc_mechtype = dc_mechtype dctx, dc_session = None\<rparr>, Some dctx)
       | Some a \<Rightarrow> do {
           sess \<leftarrow> handle_of (Some a);
           st \<leftarrow> save_state E D pv sess;
           x \<leftarrow> (case st of None \<Rightarrow> ret None | Some bs \<Rightarrow> restore_state E D pv (dc_mechtype dctx) bs);
           ret (Some \<lparr>dc_mechtype = dc_mechtype dctx, dc_session = Some a\<rparr>, Some (dctx\<lparr>dc_session := x\<rparr>)) }) })"

definition p11prov_digest_freectx :: "'e p11env \<Rightarrow> p11prov_digest_ctx option \<Rightarrow> ('e world, unit) state" where
  "p11prov_digest_freectx E ctx = (case ctx of
     None \<Rightarrow> ret ()
   | Some dctx \<Rightarrow> p11prov_return_session E (dc_session dctx))"

text \<open>
  \<open>p11prov_digest_init\<close>. \<open>param\<close> is the slot identifier among the parameters, if it is there: what \<^verbatim>\<open>OSSL_PARAM_get_ulong\<close> returns and
  the value. \<open>start_digest\<close> is the part from the session on; a session the context had before is not given back.
\<close>

definition start_digest ::
    "'e p11env \<Rightarrow> 'e digest_env \<Rightarrow> prov \<Rightarrow> CK_SLOT_ID \<Rightarrow> p11prov_digest_ctx \<Rightarrow> ('e world, int \<times> p11prov_digest_ctx) state" where
  "start_digest E D pv slotid dctx = do {
     g \<leftarrow> p11prov_get_session E slotid False None (dc_mechtype dctx) None False False;
     if gs_rv g \<noteq> CKR_OK then ret (RET_OSSL_ERR, dctx)
     else do {
       sess \<leftarrow> handle_of (gs_session g);
       (r, _) \<leftarrow> p11prov_DigestInit D pv sess (dc_mechtype dctx);
       if r \<noteq> CKR_OK then do {
         p11prov_return_session E (gs_session g);
         ret (RET_OSSL_ERR, dctx\<lparr>dc_session := None\<rparr>) }
       else ret (RET_OSSL_OK, dctx\<lparr>dc_session := gs_session g\<rparr>) } }"

definition p11prov_digest_init ::
    "'e p11env \<Rightarrow> 'e digest_env \<Rightarrow> bool \<Rightarrow> bool \<Rightarrow> prov \<Rightarrow> (int \<times> CK_ULONG) option \<Rightarrow> p11prov_digest_ctx option \<Rightarrow>
     ('e world, int \<times> prov \<times> p11prov_digest_ctx option) state" where
  "p11prov_digest_init E D msg skey pv param ctx = (case ctx of
     None \<Rightarrow> ret (RET_OSSL_ERR, pv, None)
   | Some dctx \<Rightarrow> do {
       (r, pv) \<leftarrow> p11prov_ctx_status E msg skey pv;
       if r \<noteq> CKR_OK then ret (RET_OSSL_ERR, pv, Some dctx)
       else (case param of
         None \<Rightarrow> do {
           (res, dctx) \<leftarrow> start_digest E D pv CK_UNAVAILABLE_INFORMATION dctx;
           ret (res, pv, Some dctx) }
       | Some (err, slotid) \<Rightarrow>
           if err \<noteq> RET_OSSL_OK then ret (err, pv, Some dctx)
           else do {
             (res, dctx) \<leftarrow> start_digest E D pv slotid dctx;
             ret (res, pv, Some dctx) }) })"

definition p11prov_digest_update ::
    "'e digest_env \<Rightarrow> prov \<Rightarrow> p11prov_digest_ctx option \<Rightarrow> bytes \<Rightarrow> ('e world, int) state" where
  "p11prov_digest_update D pv ctx data = (case ctx of
     None \<Rightarrow> ret RET_OSSL_ERR
   | Some dctx \<Rightarrow>
       if data = [] then ret RET_OSSL_OK
       else do {
         sess \<leftarrow> handle_of (dc_session dctx);
         (r, _) \<leftarrow> p11prov_DigestUpdate D pv sess data;
         ret (if r \<noteq> CKR_OK then RET_OSSL_ERR else RET_OSSL_OK) })"

text \<open>The bytes written into the buffer and the size written back, if they are written.\<close>

definition p11prov_digest_final ::
    "'e digest_env \<Rightarrow> prov \<Rightarrow> p11prov_digest_ctx option \<Rightarrow> nat \<Rightarrow> ('e world, int \<times> bytes option \<times> nat option) state" where
  "p11prov_digest_final D pv ctx buf_size = (case ctx of
     None \<Rightarrow> ret (RET_OSSL_ERR, None, None)
   | Some dctx \<Rightarrow>
       (case p11prov_digest_get_digest_size (dc_mechtype dctx) of
          (_, None) \<Rightarrow> ret (RET_OSSL_ERR, None, None)
        | (_, Some digest_size) \<Rightarrow>
            if buf_size = 0 then ret (RET_OSSL_OK, None, Some digest_size)
            else if buf_size < digest_size then ret (RET_OSSL_OK, None, None)
            else do {
              sess \<leftarrow> handle_of (dc_session dctx);
              (r, out) \<leftarrow> p11prov_DigestFinal D pv sess digest_size;
              if r \<noteq> CKR_OK then ret (RET_OSSL_ERR, Some out, None)
              else ret (RET_OSSL_OK, Some out, Some (length out)) }))"

text \<open>
  \<open>p11prov_digest_get_params\<close>. \<open>locate p\<close> is the setter of a parameter of the request, if the request has it; it gets the number and
  says whether it could be stored. The numbers stored are listed in order.
\<close>

datatype digest_param = DIGEST_BLOCK_SIZE | DIGEST_SIZE | DIGEST_XOF | DIGEST_ALGID_ABSENT

definition digest_param_value :: "CK_MECHANISM_TYPE \<Rightarrow> digest_param \<Rightarrow> nat option" where
  "digest_param_value digest p = (case p of
     DIGEST_BLOCK_SIZE \<Rightarrow> snd (p11prov_digest_get_block_size digest)
   | DIGEST_SIZE \<Rightarrow> snd (p11prov_digest_get_digest_size digest)
   | DIGEST_XOF \<Rightarrow> Some 0
   | DIGEST_ALGID_ABSENT \<Rightarrow> Some 1)"

definition p11prov_digest_gettable_params :: "digest_param list" where
  "p11prov_digest_gettable_params = [DIGEST_BLOCK_SIZE, DIGEST_SIZE, DIGEST_XOF, DIGEST_ALGID_ABSENT]"

fun set_params ::
    "CK_MECHANISM_TYPE \<Rightarrow> (digest_param \<Rightarrow> (nat \<Rightarrow> bool) option) \<Rightarrow> digest_param list \<Rightarrow> int \<times> (digest_param \<times> nat) list" where
  "set_params digest locate [] = (RET_OSSL_OK, [])"
| "set_params digest locate (p # ps) = (case locate p of
     None \<Rightarrow> set_params digest locate ps
   | Some setter \<Rightarrow> (case digest_param_value digest p of
       None \<Rightarrow> (RET_OSSL_ERR, [])
     | Some v \<Rightarrow>
         if \<not> setter v then (RET_OSSL_ERR, [])
         else (case set_params digest locate ps of (res, out) \<Rightarrow> (res, (p, v) # out))))"

definition p11prov_digest_get_params ::
    "CK_MECHANISM_TYPE \<Rightarrow> (digest_param \<Rightarrow> (nat \<Rightarrow> bool) option) \<Rightarrow> int \<times> (digest_param \<times> nat) list" where
  "p11prov_digest_get_params digest locate =
     set_params digest locate [DIGEST_BLOCK_SIZE, DIGEST_SIZE, DIGEST_XOF, DIGEST_ALGID_ABSENT]"

section \<open>The table\<close>

text \<open>What OpenSSL documents of \<^verbatim>\<open>OPENSSL_strcasecmp\<close>: it compares without regard to the case of ASCII letters.\<close>

definition lower :: "char \<Rightarrow> char" where
  "lower c = (if of_char c \<ge> (65 :: nat) \<and> of_char c \<le> (90 :: nat) then char_of (of_char c + 32 :: nat) else c)"

definition caseless :: "(string \<Rightarrow> string \<Rightarrow> int) \<Rightarrow> bool" where
  "caseless cmp \<longleftrightarrow> (\<forall>s t. cmp s t = 0 \<longleftrightarrow> map lower s = map lower t)"

text \<open>The rows of the table, and its names with the digest each stands for.\<close>

definition digest_rows :: "digest_entry list" where
  "digest_rows = butlast digest_map"

definition digest_names :: "(string \<times> CK_MECHANISM_TYPE) list" where
  "digest_names = concat (map (\<lambda>x. map (\<lambda>n. (map lower n, dm_digest x)) (dm_names x)) digest_rows)"

lemma digest_names_distinct: "distinct (map fst digest_names)"
  by code_simp

lemma digest_rows_distinct: "distinct (map dm_digest digest_rows)"
  by code_simp

lemma digest_rows_marked: "list_all (\<lambda>x. dm_digest x \<noteq> CK_UNAVAILABLE_INFORMATION \<and> dm_names x \<noteq> []) digest_rows"
  by code_simp

lemma digest_map_rows: "\<exists>x. dm_digest x = CK_UNAVAILABLE_INFORMATION \<and> digest_map = digest_rows @ [x]"
  by (rule exI [of _ "last digest_map"]) (simp add: digest_map_def digest_rows_def)

lemma find_digest_append:
  assumes "list_all (\<lambda>x. dm_digest x \<noteq> CK_UNAVAILABLE_INFORMATION) xs" and "dm_digest y = CK_UNAVAILABLE_INFORMATION"
  shows "find_digest d (xs @ [y]) = find (\<lambda>x. dm_digest x = d) xs"
  using assms by (induction xs) auto

lemma find_digest_map: "find_digest d digest_map = find (\<lambda>x. dm_digest x = d) digest_rows"
proof -
  obtain x where x: "dm_digest x = CK_UNAVAILABLE_INFORMATION" "digest_map = digest_rows @ [x]" using digest_map_rows by blast
  show ?thesis unfolding x(2) by (rule find_digest_append) (use digest_rows_marked x(1) in \<open>auto simp: list_all_iff\<close>)
qed

lemma find_digest_row:
  assumes "x \<in> set digest_rows"
  shows "find_digest (dm_digest x) digest_map = Some x"
proof -
  obtain i where i: "i < length digest_rows" "digest_rows ! i = x" using assms by (metis in_set_conv_nth)
  have "dm_digest (digest_rows ! j) \<noteq> dm_digest x" if "j < i" for j
    using nth_eq_iff_index_eq [OF digest_rows_distinct, of j i] i that by auto
  then show ?thesis unfolding find_digest_map find_Some_iff using i by (intro exI [of _ i]) auto
qed

lemma find_digest_some: "find_digest d digest_map = Some x \<longleftrightarrow> x \<in> set digest_rows \<and> dm_digest x = d"
proof
  assume "find_digest d digest_map = Some x"
  then obtain i where "i < length digest_rows" "dm_digest (digest_rows ! i) = d" "x = digest_rows ! i"
    unfolding find_digest_map find_Some_iff by blast
  then show "x \<in> set digest_rows \<and> dm_digest x = d" by (simp add: nth_mem)
next
  assume "x \<in> set digest_rows \<and> dm_digest x = d"
  then show "find_digest d digest_map = Some x" using find_digest_row by blast
qed

lemma row_names: "map_of (map (\<lambda>n. (map lower n, d)) ns) t = (if \<exists>n \<in> set ns. t = map lower n then Some d else None)"
  by (induction ns) auto

lemma find_name_append:
  assumes "list_all (\<lambda>x. dm_digest x \<noteq> CK_UNAVAILABLE_INFORMATION) xs" and "dm_digest y = CK_UNAVAILABLE_INFORMATION"
    and "caseless cmp"
  shows "find_name cmp s (xs @ [y]) =
    map_of (concat (map (\<lambda>x. map (\<lambda>n. (map lower n, dm_digest x)) (dm_names x)) xs)) (map lower s)"
  using assms(1)
proof (induction xs)
  case Nil
  then show ?case using assms(2) by simp
next
  case (Cons x xs)
  let ?ns = "map (\<lambda>n. (map lower n, dm_digest x)) (dm_names x)"
  have names: "map_of ?ns t = (if \<exists>n \<in> set (dm_names x). t = map lower n then Some (dm_digest x) else None)" for t
    by (rule row_names)
  show ?case
    using Cons assms(3) names [of "map lower s"] by (simp add: caseless_def map_add_def)
qed

lemma find_name_map:
  assumes "caseless cmp"
  shows "find_name cmp s digest_map = map_of digest_names (map lower s)"
proof -
  obtain x where x: "dm_digest x = CK_UNAVAILABLE_INFORMATION" "digest_map = digest_rows @ [x]" using digest_map_rows by blast
  show ?thesis unfolding x(2) digest_names_def
    by (rule find_name_append) (use digest_rows_marked x(1) assms in \<open>auto simp: list_all_iff\<close>)
qed

lemma digest_found:
  assumes "caseless cmp"
  shows "p11prov_digest_get_by_name cmp s = (CKR_OK, Some d) \<longleftrightarrow>
      (\<exists>x \<in> set digest_rows. dm_digest x = d \<and> (\<exists>n \<in> set (dm_names x). map lower n = map lower s))"
proof -
  have "p11prov_digest_get_by_name cmp s = (CKR_OK, Some d) \<longleftrightarrow> map_of digest_names (map lower s) = Some d"
    by (simp add: p11prov_digest_get_by_name_def find_name_map [OF assms] split: option.split)
  also have "\<dots> \<longleftrightarrow> (map lower s, d) \<in> set digest_names" by (rule map_of_eq_Some_iff [OF digest_names_distinct])
  also have "\<dots> \<longleftrightarrow> (\<exists>x \<in> set digest_rows. dm_digest x = d \<and> (\<exists>n \<in> set (dm_names x). map lower n = map lower s))"
    unfolding digest_names_def by (simp add: image_iff eq_commute) blast
  finally show ?thesis .
qed

text \<open>
  C36. Digest names. A name finds a digest exactly when it is, up to the case of letters, one of the names listed for
  it; no name stands for two digests. Then the digest has a canonical name, which finds the same digest, a size and a block size;
  any other name is refused.
\<close>

theorem digest_by_name:
  assumes "caseless cmp"
  shows "(p11prov_digest_get_by_name cmp s = (CKR_OK, Some d) \<longleftrightarrow>
      (\<exists>x \<in> set digest_rows. dm_digest x = d \<and> (\<exists>n \<in> set (dm_names x). map lower n = map lower s) \<and>
         p11prov_digest_get_name d = (CKR_OK, Some (hd (dm_names x))) \<and>
         p11prov_digest_get_by_name cmp (hd (dm_names x)) = (CKR_OK, Some d) \<and>
         p11prov_digest_get_digest_size d = (CKR_OK, Some (dm_digest_size x)) \<and>
         p11prov_digest_get_block_size d = (CKR_OK, Some (dm_block_size x)))) \<and>
    (fst (p11prov_digest_get_by_name cmp s) \<noteq> CKR_OK \<longrightarrow>
      p11prov_digest_get_by_name cmp s = (CKR_MECHANISM_INVALID, None))"
    (is "(_ \<longleftrightarrow> (\<exists>x \<in> _. ?P x)) \<and> _")
proof (intro conjI iffI)
  note found = digest_found [OF assms]
  assume "p11prov_digest_get_by_name cmp s = (CKR_OK, Some d)"
  then obtain x where x: "x \<in> set digest_rows" "dm_digest x = d" "\<exists>n \<in> set (dm_names x). map lower n = map lower s"
    unfolding found by blast
  note row = find_digest_row [OF x(1), unfolded x(2)]
  have "dm_names x \<noteq> []" using digest_rows_marked x(1) by (simp add: list_all_iff)
  then have "p11prov_digest_get_by_name cmp (hd (dm_names x)) = (CKR_OK, Some d)"
    unfolding found using x(1,2) by (intro bexI [of _ x]) (auto intro!: bexI [of _ "hd (dm_names x)"])
  then show "\<exists>x \<in> set digest_rows. ?P x"
    using x row by (intro bexI [of _ x])
      (simp_all add: p11prov_digest_get_name_def p11prov_digest_get_digest_size_def p11prov_digest_get_block_size_def)
next
  assume "\<exists>x \<in> set digest_rows. ?P x"
  then show "p11prov_digest_get_by_name cmp s = (CKR_OK, Some d)" unfolding digest_found [OF assms] by blast
next
  show "fst (p11prov_digest_get_by_name cmp s) \<noteq> CKR_OK \<longrightarrow>
      p11prov_digest_get_by_name cmp s = (CKR_MECHANISM_INVALID, None)"
    by (simp add: p11prov_digest_get_by_name_def split: option.split)
qed

definition sim_strcasecmp :: "string \<Rightarrow> string \<Rightarrow> int" where
  "sim_strcasecmp s t = (if map lower s = map lower t then 0 else 1)"

lemma sim_caseless: "caseless sim_strcasecmp"
  by (simp add: caseless_def sim_strcasecmp_def)

theorem digest_by_name_witness:
  "p11prov_digest_get_by_name sim_strcasecmp ''sha512-256'' = (CKR_OK, Some CKM_SHA512_256) \<and>
   p11prov_digest_get_by_name sim_strcasecmp ''md5'' = (CKR_MECHANISM_INVALID, None)"
proof (rule conjI)
  show "p11prov_digest_get_by_name sim_strcasecmp ''sha512-256'' = (CKR_OK, Some CKM_SHA512_256)"
    by (rule iffD2 [OF conjunct1 [OF digest_by_name [OF sim_caseless]]]) code_simp
  show "p11prov_digest_get_by_name sim_strcasecmp ''md5'' = (CKR_MECHANISM_INVALID, None)"
    by (rule mp [OF conjunct2 [OF digest_by_name [OF sim_caseless]]]) code_simp
qed

section \<open>Sessions of digest contexts\<close>

context world_preorder
begin

lemma keeps_ctx_wrapped: "keeps R (ctx_wrapped pv bits x f)"
  unfolding ctx_wrapped_def wrapped_def by (intro keeps_rules)

lemma keeps_save_state: "keeps R (save_state E D pv h)"
  unfolding save_state_def p11prov_GetOperationState_len_def p11prov_GetOperationState_def
  by (intro keeps_rules keeps_ctx_wrapped)

lemma keeps_digest_update: "keeps R (p11prov_digest_update D pv c bs)"
  unfolding p11prov_digest_update_def p11prov_DigestUpdate_def
  by (intro keeps_rules keeps_handle_of keeps_ctx_wrapped)

lemma keeps_digest_final: "keeps R (p11prov_digest_final D pv c n)"
  unfolding p11prov_digest_final_def p11prov_DigestFinal_def
  by (intro keeps_rules keeps_handle_of keeps_ctx_wrapped)

end

lemma env_only_safe: "env_only w w' \<Longrightarrow> safe A w w'"
  by (auto simp: env_only_def safe_def in_hand_def pcell_same pool_inv_def)

text \<open>
  The functions that take a session have this in common: they put the handle to use, give the session back when that fails and
  keep it otherwise. \<open>U\<close> is what a successful use shows.
\<close>

lemma wp_session_use:
  assumes inv: "api_inv w"
    and used: "\<And>h v. wp (use h) (\<lambda>(r, _) v'. env_only v v' \<and> (r = CKR_OK \<longrightarrow> U h)) v"
    and failed: "\<And>v. safe {} w v \<Longrightarrow> Q fail v" and undone: "\<And>v. safe {} w v \<Longrightarrow> Q undo v"
    and kept: "\<And>a v. handed w (Some a) v \<Longrightarrow> U (s_session (cell v a)) \<Longrightarrow> Q (keep (Some a)) v"
  shows "wp (do {
     g \<leftarrow> p11prov_get_session E slotid False None mech None False False;
     if gs_rv g \<noteq> CKR_OK then ret fail
     else do {
       sess \<leftarrow> handle_of (gs_session g);
       (r, _) \<leftarrow> use sess;
       if r \<noteq> CKR_OK then do { p11prov_return_session E (gs_session g); ret undo }
       else ret (keep (gs_session g)) } }) Q w"
proof (rule wp_seq [OF conjI [OF wp_get_session [OF api_inv_heap_ok [OF inv], of E slotid False None mech None False False]
      wp_get_session_handed [OF inv, of E slotid False None mech None False False], folded wp_conj]], rule wp_ifI)
  fix g v
  assume g: "session_granted E None mech False w g v \<and> handed w (gs_session g) v"
  then show "wp (ret fail) Q v" using failed by (simp add: wp_return session_granted_def)
  assume "\<not> gs_rv g \<noteq> CKR_OK"
  then obtain a where a: "gs_session g = Some a" using g by (auto simp: session_granted_def split: option.splits)
  then have h: "handed w (Some a) v" "safe {} w v" "\<not> in_hand w a" using g by (auto simp: handed_def)
  show "wp (do { sess \<leftarrow> handle_of (gs_session g); (r, _) \<leftarrow> use sess;
       if r \<noteq> CKR_OK then do { p11prov_return_session E (gs_session g); ret undo } else ret (keep (gs_session g)) }) Q v"
    unfolding a wp_bind [of "handle_of _"] wp_handle_of option.case
  proof (rule wp_seq [OF used], clarify, rule wp_ifI)
    fix r x and v' :: "'a world"
    assume v': "env_only v v'" and U: "r = CKR_OK \<longrightarrow> U (s_session (cell v a))"
    have back': "wp (p11prov_return_session E (Some a)) (\<lambda>_ w'. safe {} w w') v'"
      by (rule wp_give_back_private [OF safe_trans [OF h(2) env_only_safe [OF v']] h(3)])
    show "wp (do { p11prov_return_session E (Some a); ret undo }) Q v'"
      by (rule wp_seq [OF back']) (simp add: wp_return undone)
    assume "\<not> r \<noteq> CKR_OK"
    then show "wp (ret (keep (Some a))) Q v'"
      using U h(1) v' kept [of a v'] by (auto simp: wp_return env_only_def)
  qed
qed

lemma wp_ctx_wrapped:
  "wp (ctx_wrapped pv bits x f) (\<lambda>(r, y) v'. env_only v v' \<and> (r = CKR_OK \<longrightarrow> (\<exists>e. fst (f e) = (CKR_OK, y)))) v"
proof -
  have "\<exists>e. fst (f e) = (r, y)" if "f e0 = ((r, y), e1)" for r y e0 e1 using that by (intro exI [of _ e0]) simp
  then show ?thesis by (auto simp: ctx_wrapped_def wrapped_def wp_simps split: option.split prod.split)
qed

lemma wp_ctx_wrapped_rv:
  "wp (ctx_wrapped pv bits () (only_rv f)) (\<lambda>(r, _) v'. env_only v v' \<and> (r = CKR_OK \<longrightarrow> (\<exists>e. fst (f e) = CKR_OK))) v"
proof -
  have "fst (only_rv f e) = (fst (f e), ())" for e by (simp add: only_rv_def split: prod.split)
  then show ?thesis by (intro wp_mono [OF wp_ctx_wrapped]) auto
qed

lemma wp_restore_state:
  assumes "api_inv w"
  shows "wp (restore_state E D pv mech st) (\<lambda>x w'. handed w x w' \<and>
     (\<forall>a. x = Some a \<longrightarrow> (\<exists>e. fst (D_SetOperationState D (s_session (cell w' a)) st e) = CKR_OK))) w"
  unfolding restore_state_def p11prov_SetOperationState_def
  by (rule wp_session_use [OF assms wp_ctx_wrapped_rv]) auto

lemma wp_start_digest:
  assumes "api_inv w"
  shows "wp (start_digest E D pv slotid c) (\<lambda>(res, c') w'. dc_mechtype c' = dc_mechtype c \<and>
     (if res = RET_OSSL_OK then \<exists>a. dc_session c' = Some a \<and> handed w (Some a) w' \<and>
        (\<exists>e. fst (D_DigestInit D (s_session (cell w' a)) (dc_mechtype c) e) = CKR_OK)
      else res = RET_OSSL_ERR \<and> safe {} w w' \<and> (dc_session c' = dc_session c \<or> dc_session c' = None))) w"
  unfolding start_digest_def p11prov_DigestInit_def
  by (rule wp_session_use [OF assms wp_ctx_wrapped_rv]) auto


lemma wp_save_state:
  "wp (save_state E D pv h) (\<lambda>x w'. env_only w w' \<and>
     (\<forall>st. x = Some st \<longrightarrow> (\<exists>n e. fst (D_GetOperationState D h n e) = (CKR_OK, st)))) w"
proof -
  let ?Q = "\<lambda>x w'. env_only w w' \<and> (\<forall>st. x = Some st \<longrightarrow> (\<exists>n e. fst (D_GetOperationState D h n e) = (CKR_OK, st)))"
  have get: "wp (do { (r, st) \<leftarrow> p11prov_GetOperationState D pv h n; ret (if r \<noteq> CKR_OK then None else Some st) }) ?Q v"
    if "env_only w v" for v n
    unfolding p11prov_GetOperationState_def
    by (rule wp_seq [OF wp_ctx_wrapped]) (use that env_only_trans in \<open>simp add: wp_return case_prod_beta\<close>, blast)
  have alloc: "wp (do { ok \<leftarrow> ecall (E_malloc E n); if \<not> ok then ret None else do {
      (r, st) \<leftarrow> p11prov_GetOperationState D pv h n; ret (if r \<noteq> CKR_OK then None else Some st) } }) ?Q v"
    if "env_only w v" for v n
    by (rule wp_seq [OF keepsD [OF eo.keeps_ecall]])
      (use that get in \<open>auto simp: wp_return intro: env_only_trans intro!: wp_ifI\<close>)
  show ?thesis
    unfolding save_state_def p11prov_GetOperationState_len_def
    by (rule wp_seq [OF keepsD [OF eo.keeps_ctx_wrapped]])
      (use alloc in \<open>auto simp: wp_return intro!: wp_ifI\<close>)
qed

text \<open>
  The outcome of \<open>p11prov_digest_dupctx\<close> for a context with a session \<open>a\<close>: no new context and nothing changed, or the new
  context has the session, and the old one has none or a session of its own with the saved state.
\<close>

definition digest_dupped ::
    "'e digest_env \<Rightarrow> p11prov_digest_ctx \<Rightarrow> addr \<Rightarrow> 'e world \<Rightarrow> p11prov_digest_ctx option \<times> p11prov_digest_ctx option \<Rightarrow> 'e world \<Rightarrow> bool" where
  "digest_dupped D c a w res w' \<longleftrightarrow> (case res of
     (None, old) \<Rightarrow> old = Some c \<and> safe {} w w'
   | (Some d, old) \<Rightarrow> d = c \<and> (\<exists>x. old = Some (c\<lparr>dc_session := x\<rparr>) \<and> handed w x w' \<and>
       (\<forall>b. x = Some b \<longrightarrow> (\<exists>st.
          (\<exists>n e. fst (D_GetOperationState D (s_session (cell w a)) n e) = (CKR_OK, st)) \<and>
          (\<exists>e. fst (D_SetOperationState D (s_session (cell w' b)) st e) = CKR_OK)))))"

lemma wp_digest_dupctx:
  assumes inv: "api_inv w" and a: "dc_session c = Some a"
  shows "wp (p11prov_digest_dupctx E D pv (Some c)) (digest_dupped D c a w) w"
proof -
  let ?h = "s_session (cell w a)"
  have dup: "\<lparr>dc_mechtype = dc_mechtype c, dc_session = Some a\<rparr> = c" using a by simp
  have dupped: "digest_dupped D c a w (Some c, Some (c\<lparr>dc_session := x\<rparr>)) v" if "handed w x v"
    and "\<And>b. x = Some b \<Longrightarrow> \<exists>st. (\<exists>n e. fst (D_GetOperationState D ?h n e) = (CKR_OK, st)) \<and>
          (\<exists>e. fst (D_SetOperationState D (s_session (cell v b)) st e) = CKR_OK)" for x v
    unfolding digest_dupped_def prod.case option.case using that by blast
  have move: "wp (do { sess \<leftarrow> handle_of (Some a); st \<leftarrow> save_state E D pv sess;
      x \<leftarrow> (case st of None \<Rightarrow> ret None | Some bs \<Rightarrow> restore_state E D pv (dc_mechtype c) bs);
      ret (Some \<lparr>dc_mechtype = dc_mechtype c, dc_session = Some a\<rparr>, Some (c\<lparr>dc_session := x\<rparr>)) }) (digest_dupped D c a w) v"
    if v: "env_only w v" for v
  proof -
    have h: "s_session (cell v a) = ?h" using v by (auto simp: env_only_def)
    show ?thesis
      unfolding wp_bind [of "handle_of _"] wp_handle_of option.case h
    proof (rule wp_seq [OF wp_save_state], rule wp_seq [of _ "\<lambda>x w'. digest_dupped D c a w (Some c, Some (c\<lparr>dc_session := x\<rparr>)) w'"])
      fix st and v' :: "'a world"
      assume st: "env_only v v' \<and> (\<forall>bs. st = Some bs \<longrightarrow> (\<exists>n e. fst (D_GetOperationState D ?h n e) = (CKR_OK, bs)))"
      then have s: "safe {} w v'" using v by (blast intro: env_only_safe env_only_trans)
      show "wp (case st of None \<Rightarrow> ret None | Some bs \<Rightarrow> restore_state E D pv (dc_mechtype c) bs)
          (\<lambda>x w'. digest_dupped D c a w (Some c, Some (c\<lparr>dc_session := x\<rparr>)) w') v'"
      proof (cases st)
        case None
        then show ?thesis using s by (auto simp: wp_return intro!: dupped)
      next
        case (Some bs)
        show ?thesis unfolding Some option.case
          by (rule wp_mono [OF wp_restore_state [OF api_inv_safe [OF inv s]]])
            (rule dupped, use st Some handed_later [OF s api_inv_heap_ok [OF inv]] in auto)
      qed
    qed (simp add: wp_return dup)
  qed
  show ?thesis
    unfolding p11prov_digest_dupctx_def option.case a
    by (rule wp_seq [OF keepsD [OF eo.keeps_ecall]])
      (use move in \<open>auto simp: wp_return digest_dupped_def intro: env_only_safe intro!: wp_ifI\<close>)
qed

text \<open>The part of the state that asking for the status leaves alone once the module has been started.\<close>

definition started_same :: "'e world \<Rightarrow> 'e world \<Rightarrow> bool" where
  "started_same w w' \<longleftrightarrow> w_sess w' = w_sess w \<and> w_pools w' = w_pools w \<and> w_slots w' = w_slots w \<and>
     cx_status (w_ctx w') \<noteq> P11PROV_UNINITIALIZED"

lemma wp_ctx_status_started:
  assumes "cx_status (w_ctx w) \<noteq> P11PROV_UNINITIALIZED"
  shows "wp (p11prov_ctx_status E msg skey pv) (\<lambda>_. started_same w) w"
proof -
  have "wp (p11prov_module_reinit E m) (\<lambda>_. env_only w) w" for m
    by (rule keepsD) (unfold p11prov_module_reinit_def restart_module_def p11prov_Finalize_def p11prov_Initialize_def
      p11prov_GetInfo_def Let_def, intro eo.keeps_rules keeps_wrapped eo.keeps_lock eo.keeps_unlock)
  then have reinit: "wp (do { (r, m) \<leftarrow> p11prov_module_reinit E (pv_module pv); set_outcome r (pv\<lparr>pv_module := m\<rparr>) })
    (\<lambda>_. started_same w) w"
    by (rule wp_seq) (auto simp: set_outcome_def wp_simps env_only_def started_same_def split: if_splits)
  show ?thesis
    unfolding p11prov_ctx_status_def wp_bind [of "gets _"] wp_gets
    using assms reinit by (cases "cx_status (w_ctx w)") (simp_all add: wp_return started_same_def)
qed

section \<open>All digest contexts of a provider\<close>

text \<open>
  The operations of OpenSSL on digest contexts as one system: the world, the provider and the contexts that exist, by address.
  The module has been started; digests are offered only then.
\<close>

type_synonym 'e digest_sys = "'e world \<times> prov \<times> (addr \<rightharpoonup> p11prov_digest_ctx)"

inductive digest_step :: "'e p11env \<Rightarrow> 'e digest_env \<Rightarrow> bool \<Rightarrow> bool \<Rightarrow> 'e digest_sys \<Rightarrow> 'e digest_sys \<Rightarrow> bool"
  for E D msg skey where
  newctx: "M p = None \<Longrightarrow> run_state (p11prov_digest_newctx E mech) w = (Some c, w') \<Longrightarrow>
    digest_step E D msg skey (w, pv, M) (w', pv, M(p \<mapsto> c))"
| init: "M p = Some c \<Longrightarrow> run_state (p11prov_digest_init E D msg skey pv param (Some c)) w = ((res, pv', Some c'), w') \<Longrightarrow>
    digest_step E D msg skey (w, pv, M) (w', pv', M(p \<mapsto> c'))"
| update: "M p = Some c \<Longrightarrow> run_state (p11prov_digest_update D pv (Some c) bs) w = (res, w') \<Longrightarrow>
    digest_step E D msg skey (w, pv, M) (w', pv, M)"
| final: "M p = Some c \<Longrightarrow> run_state (p11prov_digest_final D pv (Some c) n) w = (res, w') \<Longrightarrow>
    digest_step E D msg skey (w, pv, M) (w', pv, M)"
| dupctx: "M p = Some c \<Longrightarrow> M q = None \<Longrightarrow>
    run_state (p11prov_digest_dupctx E D pv (Some c)) w = ((Some d, Some c'), w') \<Longrightarrow>
    digest_step E D msg skey (w, pv, M) (w', pv, M(p \<mapsto> c', q \<mapsto> d))"
| freectx: "M p = Some c \<Longrightarrow> run_state (p11prov_digest_freectx E (Some c)) w = ((), w') \<Longrightarrow>
    digest_step E D msg skey (w, pv, M) (w', pv, M(p := None))"

text \<open>\<open>holds M p a\<close>: the context at \<open>p\<close> has the session \<open>a\<close>.\<close>

definition holds :: "(addr \<rightharpoonup> p11prov_digest_ctx) \<Rightarrow> addr \<Rightarrow> addr \<Rightarrow> bool" where
  "holds M p a \<longleftrightarrow> (\<exists>c. M p = Some c \<and> dc_session c = Some a)"

definition digests_inv :: "'e world \<Rightarrow> (addr \<rightharpoonup> p11prov_digest_ctx) \<Rightarrow> bool" where
  "digests_inv w M \<longleftrightarrow> api_inv w \<and> cx_status (w_ctx w) \<noteq> P11PROV_UNINITIALIZED \<and>
     (\<forall>p a. holds M p a \<longrightarrow> in_hand w a) \<and> (\<forall>p q a. holds M p a \<longrightarrow> holds M q a \<longrightarrow> p = q)"

lemma holds_upd [simp]: "holds (M(p \<mapsto> c)) q a \<longleftrightarrow> (if q = p then dc_session c = Some a else holds M q a)"
  by (simp add: holds_def)

lemma holds_del [simp]: "holds (M(p := None)) q a \<longleftrightarrow> q \<noteq> p \<and> holds M q a"
  by (simp add: holds_def)

text \<open>Fewer contexts, or contexts without their sessions, keep the invariant, and so does a session for a context.\<close>

lemma digests_inv_safe:
  assumes "digests_inv w M" and "safe {} w w'" and "\<And>p a. holds M' p a \<Longrightarrow> holds M p a"
  shows "digests_inv w' M'"
proof -
  have ok: "heap_ok (w_sess w)" using assms(1) by (auto simp: digests_inv_def intro: api_inv_heap_ok)
  then have "w_ctx w' = w_ctx w" using assms(2) by (simp add: safe_def)
  then show ?thesis
    using assms safe_in_hand [OF assms(2) ok] api_inv_safe [OF _ assms(2)] by (auto simp: digests_inv_def; meson)
qed

lemma digests_inv_handed:
  assumes "digests_inv w M" and "handed w (dc_session c) w'"
  shows "digests_inv w' (M(p \<mapsto> c))"
proof -
  have s: "safe {} w w'" using assms(2) by (simp add: handed_def)
  then have ok: "heap_ok (w_sess w)" "w_ctx w' = w_ctx w"
    using assms(1) by (auto simp: digests_inv_def safe_def intro: api_inv_heap_ok)
  have new: "\<not> holds M q a \<and> in_hand w' a" if "dc_session c = Some a" for a q
    using that assms by (auto simp: handed_def digests_inv_def)
  show ?thesis
    using assms(1) ok(2) new safe_in_hand [OF s ok(1)] api_inv_safe [OF _ s] by (auto simp: digests_inv_def)
qed

lemma digests_inv_same:
  assumes "digests_inv w M" and "started_same w w'"
  shows "digests_inv w' M"
  using assms by (simp add: digests_inv_def started_same_def api_inv_def in_hand_def pool_inv_def slots_list_def)

lemma digests_inv_init:
  assumes inv: "digests_inv w M" and c: "M p = Some c"
  shows "wp (p11prov_digest_init E D msg skey pv param (Some c)) (\<lambda>(_, _, x) w'. \<forall>c'. x = Some c' \<longrightarrow> digests_inv w' (M(p \<mapsto> c'))) w"
proof -
  let ?Q = "\<lambda>(_, _, x) w'. \<forall>c'. x = Some c' \<longrightarrow> digests_inv w' (M(p \<mapsto> c'))"
  have same: "M(p \<mapsto> c) = M" using c by auto
  have start: "wp (do { (res, dctx) \<leftarrow> start_digest E D pv' slotid c; ret (res, pv', Some dctx) }) ?Q v"
    if v: "digests_inv v M" for pv' slotid v
  proof (rule wp_seq [OF wp_start_digest], use v in \<open>simp add: digests_inv_def\<close>, clarify)
    fix res and c' :: p11prov_digest_ctx and v' :: "'a world"
    assume st: "if res = RET_OSSL_OK then \<exists>a. dc_session c' = Some a \<and> handed v (Some a) v' \<and>
        (\<exists>e. fst (D_DigestInit D (s_session (cell v' a)) (dc_mechtype c) e) = CKR_OK)
      else res = RET_OSSL_ERR \<and> safe {} v v' \<and> (dc_session c' = dc_session c \<or> dc_session c' = None)"
    have "digests_inv v' (M(p \<mapsto> c'))"
    proof (cases "res = RET_OSSL_OK")
      case True
      then show ?thesis using st by (auto intro!: digests_inv_handed [OF v])
    next
      case False
      then have "safe {} v v'" "dc_session c' = dc_session c \<or> dc_session c' = None" using st by simp_all
      then show ?thesis using c by (auto intro!: digests_inv_safe [OF v] simp: holds_def split: if_splits)
    qed
    then show "wp (ret (res, pv', Some c')) ?Q v'" by (simp add: wp_return)
  qed
  have status: "wp (p11prov_ctx_status E msg skey pv) (\<lambda>_ v. digests_inv v M) w"
  proof (rule wp_mono [OF wp_ctx_status_started])
    show "cx_status (w_ctx w) \<noteq> P11PROV_UNINITIALIZED" using inv by (simp add: digests_inv_def)
  qed (rule digests_inv_same [OF inv])
  show ?thesis
    unfolding p11prov_digest_init_def option.case
    by (rule wp_seq [OF status])
      (auto simp: wp_return same case_prod_beta split: option.split intro!: wp_ifI start)
qed

lemma digests_inv_dup:
  assumes inv: "digests_inv w M" and c: "M p = Some c" and q: "M q = None"
    and run: "run_state (p11prov_digest_dupctx E D pv (Some c)) w = ((Some d, Some c'), w')"
  shows "digests_inv w' (M(p \<mapsto> c', q \<mapsto> d))"
proof (cases "dc_session c")
  case None
  have "wp (p11prov_digest_dupctx E D pv (Some c))
      (\<lambda>(x, old) v. env_only w v \<and> (\<forall>d. x = Some d \<longrightarrow> dc_session d = None \<and> old = Some c)) w"
    by (auto simp: p11prov_digest_dupctx_def None wp_simps split: prod.split)
  from wp_run [OF this run] have "env_only w w'" "dc_session d = None" "c' = c" by auto
  then show ?thesis
    using None c by (auto intro!: digests_inv_safe [OF inv env_only_safe] simp: holds_def split: if_splits)
next
  case (Some a)
  have "api_inv w" using inv by (simp add: digests_inv_def)
  from wp_run [OF wp_digest_dupctx [OF this Some] run]
  obtain x where x: "d = c" "c' = c\<lparr>dc_session := x\<rparr>" "handed w x w'"
    by (auto simp: digest_dupped_def)
  have "digests_inv w (M(p \<mapsto> c\<lparr>dc_session := None\<rparr>, q \<mapsto> c))"
    using inv c q Some by (auto simp: digests_inv_def holds_def split: if_splits)
  from digests_inv_handed [OF this, of c' w' p] show ?thesis
    using x c q by (simp add: fun_upd_twist) (metis c fun_upd_twist fun_upd_upd option.distinct(1) q)
qed

lemma digests_inv_free:
  assumes inv: "digests_inv w M" and c: "M p = Some c"
    and run: "run_state (p11prov_digest_freectx E (Some c)) w = ((), w')"
  shows "digests_inv w' (M(p := None))"
proof (cases "dc_session c")
  case None
  then have "w' = w" using run by (simp add: p11prov_digest_freectx_def p11prov_return_session_def)
  then show ?thesis by (auto intro!: digests_inv_safe [OF inv])
next
  case (Some a)
  then have "run_state (p11prov_return_session E (Some a)) w = ((), w')" using run by (simp add: p11prov_digest_freectx_def)
  from wp_run [OF keepsD [OF safe_return] this] have s: "safe {a} w w'" .
  have ok: "heap_ok (w_sess w)" using inv by (auto simp: digests_inv_def intro: api_inv_heap_ok)
  have other: "in_hand w' b" if "holds M q b" "q \<noteq> p" for q b
  proof -
    have "holds M p a" using c Some by (simp add: holds_def)
    then have "b \<noteq> a" "in_hand w b" using that inv by (auto simp: digests_inv_def)
    then show ?thesis using s ok by (simp add: safe_def)
  qed
  show ?thesis
    using inv other ok s api_inv_safe [OF _ s] by (simp add: digests_inv_def safe_def) blast
qed

lemma digest_step_inv:
  assumes "digest_step E D msg skey (w, pv, M) (w', pv', M')" and inv: "digests_inv w M"
  shows "digests_inv w' M'"
  using assms(1)
proof (cases rule: digest_step.cases)
  case (newctx p mech c)
  have "wp (p11prov_digest_newctx E mech) (\<lambda>x v. env_only w v \<and> (\<forall>c. x = Some c \<longrightarrow> dc_session c = None)) w"
    by (auto simp: p11prov_digest_newctx_def wp_simps split: prod.split)
  from wp_run [OF this newctx(4)] show ?thesis
    unfolding newctx(2) by (auto intro!: digests_inv_safe [OF inv env_only_safe] simp: holds_def split: if_splits)
next
  case (init p c param res c')
  from wp_run [OF digests_inv_init [OF inv init(2)] init(3)] show ?thesis unfolding init(1) by simp
next
  case (update p c bs res)
  from wp_run [OF keepsD [OF sf.keeps_digest_update] update(4)] show ?thesis
    unfolding update(2) by (rule digests_inv_safe [OF inv])
next
  case (final p c n res)
  from wp_run [OF keepsD [OF sf.keeps_digest_final] final(4)] show ?thesis
    unfolding final(2) by (rule digests_inv_safe [OF inv])
next
  case (dupctx p c q d c')
  show ?thesis unfolding dupctx(2) by (rule digests_inv_dup [OF inv dupctx(3-5)])
next
  case (freectx p c)
  show ?thesis unfolding freectx(2) by (rule digests_inv_free [OF inv freectx(3,4)])
qed

section \<open>Properties\<close>

text \<open>
  C34. Digest contexts never share a session: whatever OpenSSL does with them (creating, starting, updating, finishing,
  duplicating, freeing, in any order), the session of a context is allocated and marked in use, no other context has it, and the
  pools keep their invariant.
\<close>

theorem digests_never_share:
  assumes "(digest_step E D msg skey)\<^sup>*\<^sup>* (w0, pv0, Map.empty) (w, pv, M)" and "api_inv w0"
    and "cx_status (w_ctx w0) \<noteq> P11PROV_UNINITIALIZED"
  shows "api_inv w \<and> (\<forall>p c a. M p = Some c \<longrightarrow> dc_session c = Some a \<longrightarrow>
     h_live (w_sess w) a \<and> s_in_use (cell w a) \<and> (\<forall>q d. M q = Some d \<longrightarrow> dc_session d = Some a \<longrightarrow> q = p))"
proof -
  have "case x of (w, pv, M) \<Rightarrow> digests_inv w M" if "(digest_step E D msg skey)\<^sup>*\<^sup>* (w0, pv0, Map.empty) x" for x
    using that
  proof (induction rule: rtranclp_induct)
    case base
    then show ?case using assms(2,3) by (simp add: digests_inv_def holds_def)
  next
    case (step y z)
    then show ?case by (auto intro: digest_step_inv)
  qed
  from this [OF assms(1)] have "digests_inv w M" by simp
  then show ?thesis unfolding digests_inv_def in_hand_def holds_def by blast
qed

text \<open>
  C35. Duplicating a running digest: the new context continues on the session of the old one, which nobody touches. The old
  context is left without a session, or with a session of its own that was in nobody's hands, into which the module
  accepted the very state it had given out for the operation.
\<close>

theorem digest_dup_spec:
  assumes "api_inv w" and "dc_session c = Some a" and "in_hand w a"
  shows "wp (p11prov_digest_dupctx E D pv (Some c)) (\<lambda>(x, old) w'. api_inv w' \<and> in_hand w' a \<and> cell w' a = cell w a \<and>
     (case x of
        None \<Rightarrow> old = Some c
      | Some d \<Rightarrow> d = c \<and> (\<exists>y. old = Some (c\<lparr>dc_session := y\<rparr>) \<and>
          (\<forall>b. y = Some b \<longrightarrow> b \<noteq> a \<and> \<not> in_hand w b \<and> in_hand w' b \<and>
             (\<exists>st. (\<exists>n e. fst (D_GetOperationState D (s_session (cell w a)) n e) = (CKR_OK, st)) \<and>
                (\<exists>e. fst (D_SetOperationState D (s_session (cell w' b)) st e) = CKR_OK)))))) w"
proof -
  have ok: "heap_ok (w_sess w)" by (rule api_inv_heap_ok [OF assms(1)])
  have rest: "api_inv w' \<and> in_hand w' a \<and> cell w' a = cell w a" if "safe {} w w'" for w'
    using api_inv_safe [OF assms(1) that] that ok assms(3) by (simp add: safe_def)
  have priv: "b \<noteq> a \<and> \<not> in_hand w b \<and> in_hand w' b" if "handed w (Some b) w'" for w' b
    using that assms(3) by (auto simp: handed_def)
  show ?thesis
  proof (rule wp_mono [OF wp_digest_dupctx [OF assms(1,2)]], clarify)
    fix x old and w' :: "'a world"
    assume d: "digest_dupped D c a w (x, old) w'"
    then have s: "safe {} w w'" by (auto simp: digest_dupped_def handed_def split: option.splits)
    show "api_inv w' \<and> in_hand w' a \<and> cell w' a = cell w a \<and> (case x of
        None \<Rightarrow> old = Some c
      | Some d \<Rightarrow> d = c \<and> (\<exists>y. old = Some (c\<lparr>dc_session := y\<rparr>) \<and>
          (\<forall>b. y = Some b \<longrightarrow> b \<noteq> a \<and> \<not> in_hand w b \<and> in_hand w' b \<and>
             (\<exists>st. (\<exists>n e. fst (D_GetOperationState D (s_session (cell w a)) n e) = (CKR_OK, st)) \<and>
                (\<exists>e. fst (D_SetOperationState D (s_session (cell w' b)) st e) = CKR_OK)))))"
    proof (cases x)
      case None
      then show ?thesis using rest [OF s] d by (simp add: digest_dupped_def)
    next
      case (Some d')
      show ?thesis using rest [OF s] d priv unfolding Some digest_dupped_def prod.case option.case by blast
    qed
  qed
qed

text \<open>
  Starting a digest on a context that still has a session: the new session replaces it, and the old one stays marked in use
  although no context has it any more.
\<close>

lemma digest_reinit_leaks:
  assumes "digests_inv w M" and "M p = Some c" and "dc_session c = Some a"
  shows "wp (start_digest E D pv slotid c) (\<lambda>(res, c') w'. res = RET_OSSL_OK \<longrightarrow>
     in_hand w' a \<and> (\<forall>q. \<not> holds (M(p \<mapsto> c')) q a)) w"
proof -
  have inv: "api_inv w" and a: "in_hand w a" and uniq: "\<And>q. holds M q a \<Longrightarrow> q = p"
    using assms by (auto simp: digests_inv_def holds_def)
  show ?thesis
    by (rule wp_mono [OF wp_start_digest [OF inv]])
      (use a uniq safe_in_hand [OF _ api_inv_heap_ok [OF inv]] in \<open>auto simp: handed_def\<close>)
qed

text \<open>With a buffer that is not empty but too small the last step reports success and writes nothing.\<close>

lemma digest_final_small:
  assumes "find_digest (dc_mechtype c) digest_map = Some x" and "0 < n" and "n < dm_digest_size x"
  shows "wp (p11prov_digest_final D pv (Some c) n) (\<lambda>res w'. res = (RET_OSSL_OK, None, None) \<and> w' = w) w"
  using assms by (simp add: p11prov_digest_final_def p11prov_digest_get_digest_size_def wp_simps)

text \<open>A quirk that blocks the state of operations is obeyed: the module is not asked, and the session moves.\<close>

lemma digest_dup_blocked:
  assumes "p11prov_ctx_is_call_blocked (w_ctx w) P11PROV_BLOCK_GetOperationState" and "dc_session c = Some a"
    and "fst (E_malloc E sizeof_digest_ctx (w_env w))"
  shows "wp (p11prov_digest_dupctx E D pv (Some c)) (\<lambda>res w'. res = (Some c, Some (c\<lparr>dc_session := None\<rparr>)) \<and>
     w_env w' = snd (E_malloc E sizeof_digest_ctx (w_env w))) w"
proof -
  have "\<lparr>dc_mechtype = dc_mechtype c, dc_session = Some a\<rparr> = c" using assms(2) by simp
  then show ?thesis
    using assms by (auto simp: p11prov_digest_dupctx_def save_state_def p11prov_GetOperationState_len_def ctx_wrapped_def
      wrapped_def wp_simps split: option.split prod.split)
qed

definition sim_digest :: "sim digest_env" where
  "sim_digest = \<lparr>D_DigestInit = (\<lambda>h m e. (CKR_OK, e)), D_DigestUpdate = (\<lambda>h bs e. (CKR_OK, e)),
     D_DigestFinal = (\<lambda>h n e. ((CKR_OK, replicate n CHR 0x2A), e)), D_GetOperationStateLen = (\<lambda>h e. ((CKR_OK, 8), e)),
     D_GetOperationState = (\<lambda>h n e. ((CKR_OK, replicate n CHR 0x2B), e)), D_SetOperationState = (\<lambda>h st e. (CKR_OK, e))\<rparr>"

theorem digests_never_share_witness:
  "\<exists>w M. (digest_step sim_env sim_digest True True)\<^sup>*\<^sup>* (sim_slots_world, fresh_prov, Map.empty) (w, fresh_prov, M) \<and>
     M 0 \<noteq> None \<and> M 1 \<noteq> None \<and> api_inv w"
proof -
  let ?c = "\<lparr>dc_mechtype = CKM_SHA256, dc_session = None\<rparr>"
  let ?M = "[0 \<mapsto> ?c]"
  have new: "run_state (p11prov_digest_newctx sim_env CKM_SHA256) sim_slots_world = (Some ?c, sim_slots_world)"
    by (simp add: p11prov_digest_newctx_def ecall_def sim_env_def)
  have "digest_step sim_env sim_digest True True (sim_slots_world, fresh_prov, Map.empty) (sim_slots_world, fresh_prov, ?M)"
    by (rule newctx [OF _ new]) simp
  moreover have "digest_step sim_env sim_digest True True (sim_slots_world, fresh_prov, ?M) (sim_slots_world, fresh_prov, ?M(1 \<mapsto> ?c))"
    by (rule newctx [OF _ new]) simp
  ultimately have "(digest_step sim_env sim_digest True True)\<^sup>*\<^sup>* (sim_slots_world, fresh_prov, Map.empty)
      (sim_slots_world, fresh_prov, ?M(1 \<mapsto> ?c))" by simp
  moreover from this have "api_inv sim_slots_world"
    by (rule conjunct1 [OF digests_never_share]) (simp_all add: sim_api_inv, simp add: sim_slots_world_def sim_pool_world_simps sim_ctx_def)
  ultimately show ?thesis by (intro exI conjI) (assumption, simp_all)
qed

theorem digest_dup_spec_witness:
  "let w = snd (run_state (p11prov_get_session sim_env 7 False None CK_UNAVAILABLE_INFORMATION None False False) sim_slots_world) in
   in_hand w 0 \<and> wp (p11prov_digest_dupctx sim_env sim_digest fresh_prov (Some \<lparr>dc_mechtype = CKM_SHA256, dc_session = Some 0\<rparr>))
     (\<lambda>_ w'. api_inv w' \<and> in_hand w' 0) w"
proof -
  obtain g w where g: "run_state (p11prov_get_session sim_env 7 False None CK_UNAVAILABLE_INFORMATION None False False) sim_slots_world = (g, w)"
    by (metis surj_pair)
  have "gs_session g = Some 0" by (rule wp_run [OF sim_get_session g])
  then have h: "handed sim_slots_world (Some 0) w" using wp_run [OF wp_get_session_handed [OF sim_api_inv] g] by simp
  then have inv: "api_inv w" and hand: "in_hand w 0" by (auto simp: handed_def intro: api_inv_safe [OF sim_api_inv])
  have "wp (p11prov_digest_dupctx sim_env sim_digest fresh_prov (Some \<lparr>dc_mechtype = CKM_SHA256, dc_session = Some 0\<rparr>))
     (\<lambda>_ w'. api_inv w' \<and> in_hand w' 0) w"
    by (rule wp_mono [OF digest_dup_spec [OF inv _ hand]]) auto
  then show ?thesis using hand g by simp
qed

end
