(* ===== verification/P11_Fetch.thy ===== *)
theory P11_Fetch
  imports P11_Random P11_Context
begin

text \<open>
  Fetching attributes of an object (\<^verbatim>\<open>src/src/util.c\<close>: \<open>p11prov_fetch_attributes\<close> and its helpers). The caller gives a list of
  attributes, each with a buffer of its own or to be allocated, required or optional. All are asked for in one call, and the
  allocated ones again with their buffers; a module that refuses the list because of one attribute is asked one by one.

  A value \<open>ca_pValue = Some b\<close> stands for a pointer to a block with the contents \<open>b\<close>. Copies of an attribute share the block, so
  that what the module writes through a copy is written back to the attribute.
\<close>

section \<open>Model\<close>

record fetch_attrs =
  fa_attr :: ck_attribute
  fa_allocate :: bool
  fa_required :: bool

text \<open>The module changes the length and the contents of the block; pointer and type stay.\<close>

fun answers :: "ck_attribute list \<Rightarrow> ck_attribute list \<Rightarrow> ck_attribute list" where
  "answers [] as = []"
| "answers (q # qs) [] = q # qs"
| "answers (q # qs) (a # as) =
     q\<lparr>ca_ulValueLen := ca_ulValueLen a,
       ca_pValue := (case ca_pValue q of None \<Rightarrow> None | Some b \<Rightarrow> Some (case ca_pValue a of None \<Rightarrow> b | Some b' \<Rightarrow> b'))\<rparr> # answers qs as"

definition p11prov_GetAttributeValue ::
    "'e p11env \<Rightarrow> CK_SESSION_HANDLE \<Rightarrow> CK_OBJECT_HANDLE \<Rightarrow> ck_attribute list \<Rightarrow> ('e world, CK_RV \<times> ck_attribute list) state" where
  "p11prov_GetAttributeValue E sess object qs = do {
     (r, as) \<leftarrow> ecall (E_GetAttributeValue E sess object qs);
     ret (r, answers qs as) }"

text \<open>The attribute, when the module wrote into its block through the copy \<open>q\<close>.\<close>

definition seen :: "fetch_attrs \<Rightarrow> ck_attribute \<Rightarrow> fetch_attrs" where
  "seen fa q = fa\<lparr>fa_attr := (fa_attr fa)\<lparr>ca_pValue := ca_pValue q\<rparr>\<rparr>"

text \<open>
  The first loop: the attributes with their allocated buffers, and for each whether it is in the list of the second request.
\<close>

fun alloc_loop ::
    "'e p11env \<Rightarrow> fetch_attrs list \<Rightarrow> ck_attribute list \<Rightarrow> ('e world, CK_RV \<times> fetch_attrs list \<times> bool list) state" where
  "alloc_loop E (fa # fas) (q # qs) =
     (if ca_ulValueLen q = CK_UNAVAILABLE_INFORMATION then
        if \<not> fa_required fa then do {
          (r, fas', again) \<leftarrow> alloc_loop E fas qs;
          ret (r, seen fa q # fas', False # again) }
        else ret (CKR_GENERAL_ERROR, map2 seen (fa # fas) (q # qs), [])
      else if fa_allocate fa then do {
        ok \<leftarrow> ecall (E_malloc E (unat (ca_ulValueLen q) + 1));
        if \<not> ok then ret (CKR_HOST_MEMORY, map2 seen (fa # fas) (q # qs), [])
        else do {
          (r, fas', again) \<leftarrow> alloc_loop E fas qs;
          ret (r, fa\<lparr>fa_attr := q\<lparr>ca_pValue := Some (replicate (unat (ca_ulValueLen q) + 1) NUL)\<rparr>\<rparr> # fas', True # again) } }
      else do {
        (r, fas', again) \<leftarrow> alloc_loop E fas qs;
        ret (r, fa\<lparr>fa_attr := q\<rparr> # fas', False # again) })"
| "alloc_loop E fas qs = ret (CKR_OK, [], [])"

fun refill :: "fetch_attrs list \<Rightarrow> bool list \<Rightarrow> ck_attribute list \<Rightarrow> fetch_attrs list" where
  "refill (fa # fas) (b # bs) as =
     (if b then (case as of [] \<Rightarrow> fa # fas | a # as' \<Rightarrow> seen fa a # refill fas bs as') else fa # refill fas bs as)"
| "refill fas bs as = fas"

definition requested :: "fetch_attrs list \<Rightarrow> bool list \<Rightarrow> ck_attribute list" where
  "requested fas again = map (fa_attr \<circ> fst) (filter snd (zip fas again))"

definition one_shot ::
    "'e p11env \<Rightarrow> CK_SESSION_HANDLE \<Rightarrow> CK_OBJECT_HANDLE \<Rightarrow> fetch_attrs list \<Rightarrow> ck_attribute list \<Rightarrow>
     ('e world, CK_RV \<times> fetch_attrs list) state" where
  "one_shot E sess object attrs qs = do {
     (r, fas, again) \<leftarrow> alloc_loop E attrs qs;
     if r \<noteq> CKR_OK then ret (r, fas)
     else if requested fas again = [] then ret (CKR_OK, fas)
     else do {
       (r, as) \<leftarrow> p11prov_GetAttributeValue E sess object (requested fas again);
       ret (r, refill fas again as) } }"

text \<open>One attribute of the second way: \<open>Some r\<close> ends the function with \<open>r\<close>.\<close>

definition ask_one ::
    "'e p11env \<Rightarrow> CK_SESSION_HANDLE \<Rightarrow> CK_OBJECT_HANDLE \<Rightarrow> fetch_attrs \<Rightarrow> ('e world, CK_RV \<times> fetch_attrs) state" where
  "ask_one E sess object fa = do {
     (r, as) \<leftarrow> p11prov_GetAttributeValue E sess object [fa_attr fa];
     ret (r, fa\<lparr>fa_attr := hd as\<rparr>) }"

definition fetch_value ::
    "'e p11env \<Rightarrow> CK_SESSION_HANDLE \<Rightarrow> CK_OBJECT_HANDLE \<Rightarrow> fetch_attrs \<Rightarrow> ('e world, CK_RV option \<times> fetch_attrs) state" where
  "fetch_value E sess object fa = do {
     (r, fa) \<leftarrow> ask_one E sess object fa;
     if r = CKR_OK then ret (None, fa)
     else if fa_required fa then ret (Some r, fa)
     else if fa_allocate fa \<and> ca_pValue (fa_attr fa) \<noteq> None
     then ret (None, fa\<lparr>fa_attr := (fa_attr fa)\<lparr>ca_pValue := None, ca_ulValueLen := CK_UNAVAILABLE_INFORMATION\<rparr>\<rparr>)
     else ret (None, fa) }"

definition fetch_one ::
    "'e p11env \<Rightarrow> CK_SESSION_HANDLE \<Rightarrow> CK_OBJECT_HANDLE \<Rightarrow> fetch_attrs \<Rightarrow> ('e world, CK_RV option \<times> fetch_attrs) state" where
  "fetch_one E sess object fa =
     (if \<not> fa_allocate fa then fetch_value E sess object fa
      else do {
        (r, fa) \<leftarrow> ask_one E sess object fa;
        if r \<noteq> CKR_OK then ret (if fa_required fa then Some r else None, fa)
        else if ca_ulValueLen (fa_attr fa) = CK_UNAVAILABLE_INFORMATION then ret (None, fa)
        else do {
          ok \<leftarrow> ecall (E_malloc E (unat (ca_ulValueLen (fa_attr fa)) + 1));
          if \<not> ok then ret (Some CKR_HOST_MEMORY, fa\<lparr>fa_attr := (fa_attr fa)\<lparr>ca_pValue := None\<rparr>\<rparr>)
          else fetch_value E sess object
            (fa\<lparr>fa_attr := (fa_attr fa)\<lparr>ca_pValue := Some (replicate (unat (ca_ulValueLen (fa_attr fa)) + 1) NUL)\<rparr>\<rparr>) } })"

fun one_by_one ::
    "'e p11env \<Rightarrow> CK_SESSION_HANDLE \<Rightarrow> CK_OBJECT_HANDLE \<Rightarrow> fetch_attrs list \<Rightarrow> ('e world, CK_RV \<times> fetch_attrs list) state" where
  "one_by_one E sess object [] = ret (CKR_OK, [])"
| "one_by_one E sess object (fa # fas) = do {
     (stop, fa) \<leftarrow> fetch_one E sess object fa;
     case stop of
       Some r \<Rightarrow> ret (r, fa # fas)
     | None \<Rightarrow> do {
         (r, fas) \<leftarrow> one_by_one E sess object fas;
         ret (r, fa # fas) } }"

definition p11prov_fetch_attributes ::
    "'e p11env \<Rightarrow> CK_SESSION_HANDLE \<Rightarrow> CK_OBJECT_HANDLE \<Rightarrow> fetch_attrs list \<Rightarrow> ('e world, CK_RV \<times> fetch_attrs list) state" where
  "p11prov_fetch_attributes E sess object attrs = do {
     (r, qs) \<leftarrow> p11prov_GetAttributeValue E sess object (map fa_attr attrs);
     if r = CKR_OK then one_shot E sess object attrs qs
     else if length attrs > 1 \<and> (r = CKR_ATTRIBUTE_SENSITIVE \<or> r = CKR_ATTRIBUTE_TYPE_INVALID)
     then one_by_one E sess object (map2 seen attrs qs)
     else ret (r, map2 seen attrs qs) }"

text \<open>The allocated values move to the list of an object; what is left behind has no values.\<close>

definition p11prov_move_alloc_attrs :: "fetch_attrs list \<Rightarrow> ck_attribute list \<Rightarrow> fetch_attrs list \<times> ck_attribute list" where
  "p11prov_move_alloc_attrs attrs cks =
     (map (\<lambda>fa. if fa_allocate fa \<and> ca_pValue (fa_attr fa) \<noteq> None
        then fa\<lparr>fa_attr := (fa_attr fa)\<lparr>ca_pValue := None, ca_ulValueLen := CK_UNAVAILABLE_INFORMATION\<rparr>\<rparr> else fa) attrs,
      cks @ map fa_attr (filter (\<lambda>fa. fa_allocate fa \<and> ca_pValue (fa_attr fa) \<noteq> None) attrs))"

section \<open>What a token promises\<close>

text \<open>
  \<open>C_GetAttributeValue\<close> as PKCS#11 describes it, for an object with the attributes \<open>tok\<close>: the length of a value when there is no
  buffer, the value when the buffer is long enough, the length \<open>CK_UNAVAILABLE_INFORMATION\<close> otherwise. The result is \<open>CKR_OK\<close> when
  every attribute was answered. When one is missing the module reports so by one of two codes, or, if it is \<open>lenient\<close>, only by the length.
\<close>

definition served :: "(CK_ATTRIBUTE_TYPE \<rightharpoonup> bytes) \<Rightarrow> ck_attribute \<Rightarrow> ck_attribute" where
  "served tok q = (case tok (ca_type q) of
     None \<Rightarrow> q\<lparr>ca_ulValueLen := CK_UNAVAILABLE_INFORMATION\<rparr>
   | Some v \<Rightarrow> (case ca_pValue q of
       None \<Rightarrow> q\<lparr>ca_ulValueLen := of_nat (length v)\<rparr>
     | Some b \<Rightarrow>
         if length v \<le> unat (ca_ulValueLen q)
         then q\<lparr>ca_pValue := Some (v @ drop (length v) b), ca_ulValueLen := of_nat (length v)\<rparr>
         else q\<lparr>ca_ulValueLen := CK_UNAVAILABLE_INFORMATION\<rparr>))"

definition fits :: "(CK_ATTRIBUTE_TYPE \<rightharpoonup> bytes) \<Rightarrow> ck_attribute \<Rightarrow> bool" where
  "fits tok q \<longleftrightarrow> (case tok (ca_type q) of None \<Rightarrow> True
     | Some v \<Rightarrow> ca_pValue q = None \<or> length v \<le> unat (ca_ulValueLen q))"

definition serves :: "bool \<Rightarrow> 'e p11env \<Rightarrow> CK_SESSION_HANDLE \<Rightarrow> CK_OBJECT_HANDLE \<Rightarrow> (CK_ATTRIBUTE_TYPE \<rightharpoonup> bytes) \<Rightarrow> bool" where
  "serves lenient E sess object tok \<longleftrightarrow> (\<forall>qs e. list_all (fits tok) qs \<longrightarrow>
     (\<exists>r e'. E_GetAttributeValue E sess object qs e = ((r, map (served tok) qs), e') \<and>
        (if lenient \<or> (\<forall>q \<in> set qs. tok (ca_type q) \<noteq> None) then r = CKR_OK
         else r = CKR_ATTRIBUTE_SENSITIVE \<or> r = CKR_ATTRIBUTE_TYPE_INVALID)))"

text \<open>A request that suits the object: buffers of the caller have the length of the value, and no value fills the address space.\<close>

definition suits :: "(CK_ATTRIBUTE_TYPE \<rightharpoonup> bytes) \<Rightarrow> fetch_attrs \<Rightarrow> bool" where
  "suits tok fa \<longleftrightarrow>
     (if fa_allocate fa then ca_pValue (fa_attr fa) = None else ca_pValue (fa_attr fa) \<noteq> None) \<and>
     (\<forall>v. tok (ca_type (fa_attr fa)) = Some v \<longrightarrow> length v < 2 ^ 64 - 1 \<and>
        (\<forall>b. ca_pValue (fa_attr fa) = Some b \<longrightarrow> length b = length v \<and> ca_ulValueLen (fa_attr fa) = of_nat (length v)))"

text \<open>
  What is returned for an attribute: its value, with a terminating NUL when the buffer is allocated; an attribute the object does
  not have leaves the buffer as it is.
\<close>

definition got :: "(CK_ATTRIBUTE_TYPE \<rightharpoonup> bytes) \<Rightarrow> fetch_attrs \<Rightarrow> fetch_attrs \<Rightarrow> bool" where
  "got tok fa fa' \<longleftrightarrow> fa_allocate fa' = fa_allocate fa \<and> fa_required fa' = fa_required fa \<and>
     ca_type (fa_attr fa') = ca_type (fa_attr fa) \<and>
     (case tok (ca_type (fa_attr fa)) of
        None \<Rightarrow> ca_pValue (fa_attr fa') = ca_pValue (fa_attr fa)
      | Some v \<Rightarrow> ca_pValue (fa_attr fa') = Some (if fa_allocate fa then v @ [NUL] else v) \<and>
          ca_ulValueLen (fa_attr fa') = of_nat (length v))"

definition missing :: "(CK_ATTRIBUTE_TYPE \<rightharpoonup> bytes) \<Rightarrow> fetch_attrs \<Rightarrow> bool" where
  "missing tok fa \<longleftrightarrow> tok (ca_type (fa_attr fa)) = None"

section \<open>Proofs\<close>

lemma served_fields [simp]:
  "ca_type (served tok q) = ca_type q" "ca_pValue (served tok q) = None \<longleftrightarrow> ca_pValue q = None"
  by (simp_all add: served_def split: option.split)

lemma answers_served: "answers qs (map (served tok) qs) = map (served tok) qs"
proof (induction qs)
  case (Cons q qs)
  have "q\<lparr>ca_ulValueLen := ca_ulValueLen (served tok q),
       ca_pValue := (case ca_pValue q of None \<Rightarrow> None
         | Some b \<Rightarrow> Some (case ca_pValue (served tok q) of None \<Rightarrow> b | Some b' \<Rightarrow> b'))\<rparr> = served tok q"
    by (simp add: served_def split: option.split)
  then show ?case using Cons by simp
qed simp

lemma len_available:
  assumes "n < 2 ^ 64 - 1"
  shows "unat (of_nat n :: 64 word) = n" "(of_nat n :: 64 word) \<noteq> CK_UNAVAILABLE_INFORMATION"
proof -
  show n: "unat (of_nat n :: 64 word) = n" using assms by (simp add: unsigned_of_nat take_bit_nat_eq_self)
  have "unat (- 1 :: 64 word) = 2 ^ 64 - 1" by (simp add: unsigned_minus_1_eq_mask mask_eq_exp_minus_1)
  then show "(of_nat n :: 64 word) \<noteq> CK_UNAVAILABLE_INFORMATION" using n assms by (metis less_irrefl)
qed

lemma suits_fits: "suits tok fa \<Longrightarrow> fits tok (fa_attr fa)"
  by (cases "ca_pValue (fa_attr fa)") (auto simp: suits_def fits_def len_available split: option.split)

lemma wp_get_served:
  assumes "serves lenient E sess object tok" and "list_all (fits tok) qs"
    and "\<And>r e. (if lenient \<or> (\<forall>q \<in> set qs. tok (ca_type q) \<noteq> None) then r = CKR_OK
       else r = CKR_ATTRIBUTE_SENSITIVE \<or> r = CKR_ATTRIBUTE_TYPE_INVALID) \<Longrightarrow> Q (r, map (served tok) qs) (w\<lparr>w_env := e\<rparr>)"
  shows "wp (p11prov_GetAttributeValue E sess object qs) Q w"
proof -
  obtain r e' where "E_GetAttributeValue E sess object qs (w_env w) = ((r, map (served tok) qs), e')"
    "if lenient \<or> (\<forall>q \<in> set qs. tok (ca_type q) \<noteq> None) then r = CKR_OK
     else r = CKR_ATTRIBUTE_SENSITIVE \<or> r = CKR_ATTRIBUTE_TYPE_INVALID"
    using assms(1,2) unfolding serves_def by blast
  then show ?thesis using assms(3) by (simp add: p11prov_GetAttributeValue_def wp_simps answers_served)
qed

lemma served_suits:
  assumes "suits tok fa"
  shows "missing tok fa \<Longrightarrow> served tok (fa_attr fa) = (fa_attr fa)\<lparr>ca_ulValueLen := CK_UNAVAILABLE_INFORMATION\<rparr>"
    and "tok (ca_type (fa_attr fa)) = Some v \<Longrightarrow> fa_allocate fa \<Longrightarrow> served tok (fa_attr fa) = (fa_attr fa)\<lparr>ca_ulValueLen := of_nat (length v)\<rparr>"
    and "tok (ca_type (fa_attr fa)) = Some v \<Longrightarrow> \<not> fa_allocate fa \<Longrightarrow>
      served tok (fa_attr fa) = (fa_attr fa)\<lparr>ca_pValue := Some v, ca_ulValueLen := of_nat (length v)\<rparr>"
    and "tok (ca_type (fa_attr fa)) = Some v \<Longrightarrow> length v < 2 ^ 64 - 1"
  using assms len_available(1) [of "length v"]
  by (auto simp: served_def missing_def suits_def split: option.split if_splits)

text \<open>An attribute after the first loop: a buffer for a value that is there.\<close>

definition prepared :: "(CK_ATTRIBUTE_TYPE \<rightharpoonup> bytes) \<Rightarrow> fetch_attrs \<Rightarrow> fetch_attrs" where
  "prepared tok fa = (case tok (ca_type (fa_attr fa)) of
     None \<Rightarrow> fa
   | Some v \<Rightarrow> fa\<lparr>fa_attr := (fa_attr fa)\<lparr>ca_pValue := Some (if fa_allocate fa then replicate (length v + 1) NUL else v),
       ca_ulValueLen := of_nat (length v)\<rparr>\<rparr>)"

lemma wp_alloc_loop:
  assumes "\<And>n e. fst (E_malloc E n e)" and "\<forall>fa \<in> set fas. suits tok fa"
  shows "wp (alloc_loop E fas (map (\<lambda>fa. served tok (fa_attr fa)) fas)) (\<lambda>(r, fas', again) _.
     if \<exists>fa \<in> set fas. fa_required fa \<and> missing tok fa then r \<noteq> CKR_OK
     else r = CKR_OK \<and> fas' = map (prepared tok) fas \<and> again = map (\<lambda>fa. fa_allocate fa \<and> \<not> missing tok fa) fas) w"
  using assms(2)
proof (induction fas arbitrary: w)
  case Nil
  then show ?case by (simp add: wp_simps)
next
  case (Cons fa fas)
  let ?Q = "\<lambda>(r, fas', again) _. if \<exists>fa \<in> set fas. fa_required fa \<and> missing tok fa then r \<noteq> CKR_OK
     else r = CKR_OK \<and> fas' = map (prepared tok) fas \<and> again = map (\<lambda>fa. fa_allocate fa \<and> \<not> missing tok fa) fas"
  have IH: "wp (alloc_loop E fas (map (\<lambda>fa. served tok (fa_attr fa)) fas)) ?Q w" for w using Cons by simp
  have s: "suits tok fa" using Cons by simp
  have m: "E_malloc E n e = (b, e') \<Longrightarrow> b" for n e b e' using assms(1) [of n e] by simp
  show ?case
  proof (cases "tok (ca_type (fa_attr fa))")
    case None
    then have "seen fa ((fa_attr fa)\<lparr>ca_ulValueLen := - 1\<rparr>) = fa" by (simp add: seen_def)
    then show ?thesis
      using None served_suits(1) [OF s] by (auto simp: missing_def prepared_def wp_return intro!: wp_seq [OF IH])
  next
    case (Some v)
    note len = len_available [OF served_suits(4) [OF s Some]]
    show ?thesis
    proof (cases "fa_allocate fa")
      case True
      show ?thesis
        using Some len True served_suits(2) [OF s Some True]
        by (auto simp: missing_def prepared_def wp_return wp_bind [of "ecall _"] wp_ecall split: prod.split if_splits dest: m intro!: wp_seq [OF IH])
          (metis option.distinct(1))
    next
      case False
      then show ?thesis
        using Some len served_suits(3) [OF s Some False]
        by (auto simp: missing_def prepared_def wp_return intro!: wp_seq [OF IH])
    qed
  qed
qed


lemma requested_prepared:
  "requested (map (prepared tok) fas) (map (\<lambda>fa. fa_allocate fa \<and> \<not> missing tok fa) fas) =
     map (\<lambda>fa. fa_attr (prepared tok fa)) (filter (\<lambda>fa. fa_allocate fa \<and> \<not> missing tok fa) fas)"
  by (induction fas) (simp_all add: requested_def)

lemma prepared_served:
  assumes "suits tok fa" and "fa_allocate fa" and "tok (ca_type (fa_attr fa)) = Some v"
  shows "served tok (fa_attr (prepared tok fa)) = (fa_attr fa)\<lparr>ca_pValue := Some (v @ [NUL]), ca_ulValueLen := of_nat (length v)\<rparr>"
    and "fits tok (fa_attr (prepared tok fa))" and "ca_type (fa_attr (prepared tok fa)) = ca_type (fa_attr fa)"
proof -
  have "drop (length v) (replicate (length v + 1) NUL) = [NUL]" by (simp only: drop_replicate) simp
  then show "served tok (fa_attr (prepared tok fa)) = (fa_attr fa)\<lparr>ca_pValue := Some (v @ [NUL]), ca_ulValueLen := of_nat (length v)\<rparr>"
    using assms len_available [OF served_suits(4) [OF assms(1,3)]] by (simp add: prepared_def served_def del: replicate.simps replicate_Suc)
qed (use assms len_available [OF served_suits(4) [OF assms(1,3)]] in \<open>simp_all add: prepared_def fits_def\<close>)

lemma refill_got:
  assumes "\<forall>fa \<in> set fas. suits tok fa"
  shows "list_all2 (got tok) fas (refill (map (prepared tok) fas) (map (\<lambda>fa. fa_allocate fa \<and> \<not> missing tok fa) fas)
     (map (\<lambda>fa. served tok (fa_attr (prepared tok fa))) (filter (\<lambda>fa. fa_allocate fa \<and> \<not> missing tok fa) fas)))"
  using assms
proof (induction fas)
  case (Cons fa fas)
  then have s: "suits tok fa" by simp
  show ?case
  proof (cases "tok (ca_type (fa_attr fa))")
    case None
    then show ?thesis using Cons by (simp add: missing_def prepared_def got_def)
  next
    case (Some v)
    then show ?thesis
      using Cons prepared_served(1) [OF s _ Some] by (cases "fa_allocate fa") (simp_all add: missing_def prepared_def got_def seen_def)
  qed
qed simp

lemma refill_none: "\<forall>b \<in> set bs. \<not> b \<Longrightarrow> refill fas bs as = fas"
  by (induction fas bs as rule: refill.induct) auto

lemma wp_one_shot:
  assumes serves: "serves lenient E sess object tok" and mem: "\<And>n e. fst (E_malloc E n e)" and suits: "\<forall>fa \<in> set fas. suits tok fa"
  shows "wp (one_shot E sess object fas (map (\<lambda>fa. served tok (fa_attr fa)) fas)) (\<lambda>(r, fas') _.
     if \<exists>fa \<in> set fas. fa_required fa \<and> missing tok fa then r \<noteq> CKR_OK else r = CKR_OK \<and> list_all2 (got tok) fas fas') w"
  unfolding one_shot_def
proof (rule wp_seq [OF wp_alloc_loop [OF mem suits]], clarify)
  let ?again = "map (\<lambda>fa. fa_allocate fa \<and> \<not> missing tok fa) fas"
  let ?fas = "map (prepared tok) fas"
  let ?Q = "\<lambda>(r, fas') _. if \<exists>fa \<in> set fas. fa_required fa \<and> missing tok fa then r \<noteq> CKR_OK else r = CKR_OK \<and> list_all2 (got tok) fas fas'"
  fix r fas' again v
  assume *: "if \<exists>fa \<in> set fas. fa_required fa \<and> missing tok fa then r \<noteq> CKR_OK
     else r = CKR_OK \<and> fas' = ?fas \<and> again = ?again"
  have fit: "list_all (fits tok) (requested ?fas ?again)" and all: "\<forall>q \<in> set (requested ?fas ?again). tok (ca_type q) \<noteq> None"
    using suits prepared_served unfolding requested_prepared by (auto simp: list_all_iff missing_def)
  have second: "wp (do { (r, as) \<leftarrow> p11prov_GetAttributeValue E sess object (requested ?fas ?again); ret (r, refill ?fas ?again as) }) ?Q v"
    if "\<not> (\<exists>fa \<in> set fas. fa_required fa \<and> missing tok fa)"
    unfolding wp_bind
    by (rule wp_get_served [OF serves fit])
      (use that all refill_got [OF suits] in \<open>auto simp: wp_return requested_prepared comp_def simp del: wp_True\<close>)
  have none: "list_all2 (got tok) fas ?fas" if "requested ?fas ?again = []"
  proof -
    have "\<forall>b \<in> set ?again. \<not> b" using that unfolding requested_prepared by (auto simp: filter_empty_conv)
    from refill_none [OF this] show ?thesis using refill_got [OF suits] by simp
  qed
  show "wp (if r \<noteq> CKR_OK then ret (r, fas')
     else if requested fas' again = [] then ret (CKR_OK, fas')
     else do { (r, as) \<leftarrow> p11prov_GetAttributeValue E sess object (requested fas' again); ret (r, refill fas' again as) }) ?Q v"
  proof (cases "\<exists>fa \<in> set fas. fa_required fa \<and> missing tok fa")
    case True
    then show ?thesis using * by (simp add: wp_return)
  next
    case False
    then have eq: "r = CKR_OK" "fas' = ?fas" "again = ?again" using * by simp_all
    show ?thesis unfolding eq
      by (intro wp_ifI) (use False none in \<open>auto simp: wp_return\<close>, rule second [OF False])
  qed
qed


lemma wp_ask_one:
  assumes "serves False E sess object tok" and "fits tok (fa_attr fa)"
    and "\<And>r e. (if missing tok fa then r \<noteq> CKR_OK else r = CKR_OK) \<Longrightarrow> Q (r, fa\<lparr>fa_attr := served tok (fa_attr fa)\<rparr>) (w\<lparr>w_env := e\<rparr>)"
  shows "wp (ask_one E sess object fa) Q w"
  unfolding ask_one_def wp_bind
  by (rule wp_get_served [OF assms(1)]) (use assms(2,3) in \<open>auto simp: wp_return missing_def split: if_splits\<close>)

lemma wp_fetch_one:
  assumes serves: "serves False E sess object tok" and mem: "\<And>n e. fst (E_malloc E n e)" and suits: "suits tok fa"
  shows "wp (fetch_one E sess object fa) (\<lambda>(stop, fa') _.
     if fa_required fa \<and> missing tok fa then stop \<noteq> None \<and> stop \<noteq> Some CKR_OK else stop = None \<and> got tok fa fa') w"
    (is "wp _ ?Q w")
proof -
  have m: "E_malloc E n e = (b, e') \<Longrightarrow> b" for n e b e' using mem [of n e] by simp
  note fit = suits_fits [OF suits]
  show ?thesis
  proof (cases "tok (ca_type (fa_attr fa))")
    case None
    note served = served_suits(1) [OF suits, unfolded missing_def, OF None]
    have null: "ca_pValue (fa_attr fa) = None" if "fa_allocate fa" using suits that by (simp add: suits_def)
    show ?thesis
      unfolding fetch_one_def fetch_value_def
      by (intro wp_ifI; unfold wp_bind; rule wp_ask_one [OF serves fit])
        (use None null in \<open>auto simp: wp_return missing_def served got_def simp del: not_None_eq\<close>)
  next
    case (Some v)
    note len = len_available [OF served_suits(4) [OF suits Some]]
    show ?thesis
    proof (cases "fa_allocate fa")
      case True
      let ?fa = "prepared tok fa"
      note served = served_suits(2) [OF suits Some True] and served' = prepared_served [OF suits True Some]
      have fa': "fa\<lparr>fa_attr := (fa_attr fa)\<lparr>ca_ulValueLen := of_nat (length v), ca_pValue := Some (replicate (length v + 1) NUL)\<rparr>\<rparr> = ?fa"
        using Some True by (simp add: prepared_def)
      have "wp (fetch_value E sess object ?fa) ?Q w'" for w'
        unfolding fetch_value_def wp_bind
        by (rule wp_ask_one [OF serves served'(2)])
          (use Some served' True in \<open>auto simp: wp_return missing_def got_def prepared_def\<close>)
      moreover have "\<not> \<not> fa_allocate fa" using True by simp
      ultimately show ?thesis
        unfolding fetch_one_def if_not_P [OF \<open>\<not> \<not> fa_allocate fa\<close>] wp_bind
        by (intro wp_ask_one [OF serves fit])
          (use Some len fa' in \<open>auto simp: missing_def served wp_bind wp_ecall simp del: replicate.simps split: prod.split dest: m\<close>)
    next
      case False
      show ?thesis
        unfolding fetch_one_def fetch_value_def if_P [OF False] wp_bind
        by (rule wp_ask_one [OF serves fit])
          (use Some False served_suits(3) [OF suits Some False] in \<open>auto simp: wp_return missing_def got_def\<close>)
    qed
  qed
qed


lemma wp_one_by_one:
  assumes serves: "serves False E sess object tok" and mem: "\<And>n e. fst (E_malloc E n e)" and suits: "\<forall>fa \<in> set fas. suits tok fa"
  shows "wp (one_by_one E sess object fas) (\<lambda>(r, fas') _.
     if \<exists>fa \<in> set fas. fa_required fa \<and> missing tok fa then r \<noteq> CKR_OK else r = CKR_OK \<and> list_all2 (got tok) fas fas') w"
  using suits
proof (induction fas arbitrary: w)
  case Nil
  then show ?case by (simp add: wp_simps)
next
  case (Cons fa fas)
  let ?Q = "\<lambda>fas (r, fas') _. if \<exists>fa \<in> set fas. fa_required fa \<and> missing tok fa then r \<noteq> CKR_OK else r = CKR_OK \<and> list_all2 (got tok) fas fas'"
  have rest: "wp (do { (r, fas') \<leftarrow> one_by_one E sess object fas; ret (r, fa' # fas') }) (?Q (fa # fas)) w"
    if "got tok fa fa'" "\<not> (fa_required fa \<and> missing tok fa)" for fa' w
  proof (rule wp_seq [OF Cons.IH], use Cons.prems in simp, clarify)
    fix r fas' and w' :: "'a world"
    assume "if \<exists>fa \<in> set fas. fa_required fa \<and> missing tok fa then r \<noteq> CKR_OK else r = CKR_OK \<and> list_all2 (got tok) fas fas'"
    then show "wp (ret (r, fa' # fas')) (?Q (fa # fas)) w'"
      using that by (cases "\<exists>fa \<in> set fas. fa_required fa \<and> missing tok fa") (auto simp: wp_return)
  qed
  have s: "suits tok fa" using Cons.prems by simp
  show ?case
    unfolding one_by_one.simps
  proof (rule wp_seq [OF wp_fetch_one [OF serves mem s]], clarify)
    fix stop fa' and v :: "'a world"
    assume *: "if fa_required fa \<and> missing tok fa then stop \<noteq> None \<and> stop \<noteq> Some CKR_OK else stop = None \<and> got tok fa fa'"
    show "wp (case stop of None \<Rightarrow> do { (r, fas') \<leftarrow> one_by_one E sess object fas; ret (r, fa' # fas') }
        | Some r \<Rightarrow> ret (r, fa' # fas)) (?Q (fa # fas)) v"
    proof (cases "fa_required fa \<and> missing tok fa")
      case True
      then show ?thesis using * by (auto simp: wp_return)
    next
      case False
      then have "stop = None" "got tok fa fa'" using * by simp_all
      then show ?thesis using rest [OF _ False] by simp
    qed
  qed
qed

lemma seen_fields [simp]: "fa_required (seen fa q) = fa_required fa" "missing tok (seen fa q) = missing tok fa"
  by (simp_all add: seen_def missing_def)

lemma seen_served:
  assumes "suits tok fa"
  shows "suits tok (seen fa (served tok (fa_attr fa))) \<and> got tok (seen fa (served tok (fa_attr fa))) fa' = got tok fa fa'"
proof (cases "tok (ca_type (fa_attr fa))")
  case None
  then show ?thesis using assms served_suits(1) [OF assms] by (simp add: missing_def seen_def)
next
  case (Some v)
  show ?thesis
  proof (cases "fa_allocate fa")
    case True
    then show ?thesis using assms Some served_suits(2) [OF assms Some True] by (simp add: seen_def)
  next
    case False
    then have "fa_attr fa\<lparr>ca_pValue := Some v\<rparr> = served tok (fa_attr fa)"
      using assms Some served_suits(3) [OF assms Some False] by (auto simp: suits_def)
    then show ?thesis
      using assms Some False served_suits(3) [OF assms Some False] by (auto simp: seen_def suits_def got_def)
  qed
qed

lemma map2_seen: "map2 seen fas (map (\<lambda>fa. served tok (fa_attr fa)) fas) = map (\<lambda>fa. seen fa (served tok (fa_attr fa))) fas"
  by (induction fas) simp_all

text \<open>
  C37. Attributes are fetched as the token has them. For a module that answers as PKCS#11 says, whether it reports a missing attribute
  by its result or only by the length, and with memory: the call succeeds exactly when no required attribute is missing (a
  request for a single attribute is refused by a strict module also when it is optional). Then every attribute the object has is
  returned with its value, terminated by NUL if its buffer was allocated, and the others are left as they were.
\<close>

theorem fetch_attributes_spec:
  assumes serves: "serves lenient E sess object tok" and mem: "\<And>n e. fst (E_malloc E n e)" and suits: "\<forall>fa \<in> set attrs. suits tok fa"
  shows "wp (p11prov_fetch_attributes E sess object attrs) (\<lambda>(r, attrs') _.
     (r = CKR_OK \<longleftrightarrow> (\<forall>fa \<in> set attrs. missing tok fa \<longrightarrow> \<not> fa_required fa \<and> (lenient \<or> length attrs \<noteq> 1))) \<and>
     (r = CKR_OK \<longrightarrow> list_all2 (got tok) attrs attrs')) w" (is "wp _ ?Q w")
proof -
  let ?q = "map (\<lambda>fa. served tok (fa_attr fa)) attrs"
  have fit: "list_all (fits tok) (map fa_attr attrs)" using suits by (auto simp: list_all_iff intro: suits_fits)
  have present: "(\<forall>q \<in> set (map fa_attr attrs). tok (ca_type q) \<noteq> None) \<longleftrightarrow> (\<forall>fa \<in> set attrs. \<not> missing tok fa)"
    by (auto simp: missing_def)
  have shot: "wp (one_shot E sess object attrs ?q) ?Q v" if "lenient \<or> (\<forall>fa \<in> set attrs. \<not> missing tok fa)" for v
    by (rule wp_mono [OF wp_one_shot [OF serves mem suits]]) (use that in \<open>auto split: if_splits\<close>)
  have each: "wp (one_by_one E sess object (map2 seen attrs ?q)) ?Q v"
    if "\<not> lenient" "length attrs > 1" "\<not> (\<forall>fa \<in> set attrs. \<not> missing tok fa)" for v
  proof -
    have ok: "serves False E sess object tok" using serves that by simp
    have s: "\<forall>fa \<in> set (map2 seen attrs ?q). suits tok fa" unfolding map2_seen using suits seen_served by auto
    have all2: "list_all2 (got tok) (map (\<lambda>fa. seen fa (served tok (fa_attr fa))) attrs) xs \<Longrightarrow> list_all2 (got tok) attrs xs" for xs
      using suits seen_served by (auto simp: list_all2_conv_all_nth)
    have req: "(\<exists>fa \<in> set (map2 seen attrs ?q). fa_required fa \<and> missing tok fa) \<longleftrightarrow> (\<exists>fa \<in> set attrs. fa_required fa \<and> missing tok fa)"
      unfolding map2_seen by auto
    show ?thesis
    proof (rule wp_mono [OF wp_one_by_one [OF ok mem s]], unfold req)
      fix x and w' :: "'a world"
      assume "(case x of (r, fas') \<Rightarrow> \<lambda>_. if \<exists>fa \<in> set attrs. fa_required fa \<and> missing tok fa then r \<noteq> CKR_OK
         else r = CKR_OK \<and> list_all2 (got tok) (map2 seen attrs ?q) fas') w'"
      then show "?Q x w'"
        unfolding map2_seen using that(2) all2 by (cases "\<exists>fa \<in> set attrs. fa_required fa \<and> missing tok fa") auto
    qed
  qed
  show ?thesis
    unfolding p11prov_fetch_attributes_def wp_bind
  proof (rule wp_get_served [OF serves fit])
    fix r e
    assume "if lenient \<or> (\<forall>q \<in> set (map fa_attr attrs). tok (ca_type q) \<noteq> None) then r = CKR_OK
       else r = CKR_ATTRIBUTE_SENSITIVE \<or> r = CKR_ATTRIBUTE_TYPE_INVALID"
    then have r: "if lenient \<or> (\<forall>fa \<in> set attrs. \<not> missing tok fa) then r = CKR_OK
       else r = CKR_ATTRIBUTE_SENSITIVE \<or> r = CKR_ATTRIBUTE_TYPE_INVALID" unfolding present .
    have map: "map (served tok) (map fa_attr attrs) = ?q" by simp
    have "wp (if r = CKR_OK then one_shot E sess object attrs ?q
      else if length attrs > 1 \<and> (r = CKR_ATTRIBUTE_SENSITIVE \<or> r = CKR_ATTRIBUTE_TYPE_INVALID)
      then one_by_one E sess object (map2 seen attrs ?q) else ret (r, map2 seen attrs ?q)) ?Q (w\<lparr>w_env := e\<rparr>)"
    proof (cases "lenient \<or> (\<forall>fa \<in> set attrs. \<not> missing tok fa)")
      case True
      then show ?thesis using r shot by simp
    next
      case False
      then have r: "r = CKR_ATTRIBUTE_SENSITIVE \<or> r = CKR_ATTRIBUTE_TYPE_INVALID" "r \<noteq> CKR_OK"
        using r [unfolded if_not_P [OF False]] by auto
      show ?thesis
      proof (cases "length attrs > 1")
        case True
        then show ?thesis using r False each by simp
      next
        case len: False
        then have "length attrs = 1" using False by (cases attrs) auto
        then show ?thesis using r False by (auto simp: wp_return)
      qed
    qed
    then show "wp (case (r, map (served tok) (map fa_attr attrs)) of (r, qs) \<Rightarrow>
      if r = CKR_OK then one_shot E sess object attrs qs
      else if length attrs > 1 \<and> (r = CKR_ATTRIBUTE_SENSITIVE \<or> r = CKR_ATTRIBUTE_TYPE_INVALID)
      then one_by_one E sess object (map2 seen attrs qs) else ret (r, map2 seen attrs qs)) ?Q (w\<lparr>w_env := e\<rparr>)"
      unfolding prod.case map .
  qed
qed


text \<open>A strict module, for an object that has a label only.\<close>

definition label_only :: "CK_ATTRIBUTE_TYPE \<rightharpoonup> bytes" where
  "label_only = [CKA_LABEL \<mapsto> ''key'']"

definition strict_env :: "sim p11env" where
  "strict_env = sim_env\<lparr>E_GetAttributeValue := (\<lambda>h ob qs e.
     ((if \<forall>q \<in> set qs. label_only (ca_type q) \<noteq> None then CKR_OK else CKR_ATTRIBUTE_TYPE_INVALID, map (served label_only) qs), e))\<rparr>"

definition fa_alloc :: "CK_ATTRIBUTE_TYPE \<Rightarrow> bool \<Rightarrow> fetch_attrs" where
  "fa_alloc ty required = \<lparr>fa_attr = \<lparr>ca_type = ty, ca_pValue = None, ca_ulValueLen = 0\<rparr>, fa_allocate = True, fa_required = required\<rparr>"

theorem fetch_attributes_spec_witness:
  "wp (p11prov_fetch_attributes strict_env 1 2 [fa_alloc CKA_LABEL True, fa_alloc CKA_ID False])
     (\<lambda>(r, attrs') _. r = CKR_OK \<and> map (ca_pValue \<circ> fa_attr) attrs' = [Some (''key'' @ [NUL]), None]) sim_world \<and>
   wp (p11prov_fetch_attributes strict_env 1 2 [fa_alloc CKA_LABEL True, fa_alloc CKA_ID True]) (\<lambda>(r, _) _. r \<noteq> CKR_OK) sim_world"
proof -
  have serves: "serves False strict_env 1 2 label_only" by (auto simp: serves_def strict_env_def)
  have mem: "fst (E_malloc strict_env n e)" for n e by (simp add: strict_env_def sim_env_def)
  have suits: "suits label_only (fa_alloc CKA_LABEL b)" "suits label_only (fa_alloc CKA_ID b)" for b
    by (simp_all add: suits_def fa_alloc_def label_only_def)
  have miss: "\<not> missing label_only (fa_alloc CKA_LABEL b)" "missing label_only (fa_alloc CKA_ID b)" for b
    by (simp_all add: missing_def fa_alloc_def label_only_def)
  have req: "fa_required (fa_alloc ty b) = b" for ty b by (simp add: fa_alloc_def)
  have got: "got label_only (fa_alloc CKA_LABEL True) fa \<Longrightarrow> ca_pValue (fa_attr fa) = Some (''key'' @ [NUL])"
    "got label_only (fa_alloc CKA_ID False) fa \<Longrightarrow> ca_pValue (fa_attr fa) = None" for fa
    by (simp_all add: got_def fa_alloc_def label_only_def)
  show ?thesis
    by (intro conjI; rule wp_mono [OF fetch_attributes_spec [OF serves mem]])
      (auto simp: suits miss req list_all2_Cons1 dest!: got)
qed

text \<open>
  A module that refuses the list but answers a single request for an attribute it does not have by the length only: the
  attribute is skipped although it is required, and the call reports success.
\<close>

lemma fetch_required_skipped:
  assumes "\<And>qs e. length qs \<noteq> 1 \<Longrightarrow> E_GetAttributeValue E sess object qs e = ((CKR_ATTRIBUTE_TYPE_INVALID, qs), e)"
    and "\<And>q e. E_GetAttributeValue E sess object [q] e = ((CKR_OK, [q\<lparr>ca_ulValueLen := CK_UNAVAILABLE_INFORMATION\<rparr>]), e)"
  shows "wp (p11prov_fetch_attributes E sess object [fa_alloc ty1 True, fa_alloc ty2 True]) (\<lambda>(r, attrs) _.
     r = CKR_OK \<and> (\<forall>fa \<in> set attrs. ca_pValue (fa_attr fa) = None)) w"
  using assms by (simp add: p11prov_fetch_attributes_def p11prov_GetAttributeValue_def fetch_one_def ask_one_def seen_def fa_alloc_def wp_simps)

context world_preorder
begin

lemma keeps_get_attribute_value: "keeps R (p11prov_GetAttributeValue E sess object qs)"
  unfolding p11prov_GetAttributeValue_def by (intro keeps_rules)

lemma keeps_alloc_loop: "keeps R (alloc_loop E fas qs)"
  by (induction E fas qs rule: alloc_loop.induct) (auto intro!: keeps_ret keeps_bind keeps_if keeps_prod keeps_ecall)

lemma keeps_fetch_one: "keeps R (fetch_one E sess object fa)"
  unfolding fetch_one_def fetch_value_def ask_one_def by (intro keeps_rules keeps_get_attribute_value)

lemma keeps_one_by_one: "keeps R (one_by_one E sess object fas)"
  by (induction fas) (auto intro!: keeps_ret keeps_bind keeps_prod keeps_option keeps_fetch_one)

lemma keeps_fetch_attributes: "keeps R (p11prov_fetch_attributes E sess object attrs)"
  unfolding p11prov_fetch_attributes_def one_shot_def
  by (intro keeps_rules keeps_get_attribute_value keeps_alloc_loop keeps_one_by_one)

end

end
