(* ===== verification/P11_Object.thy ===== *)
theory P11_Object
  imports P11_Frame P11_Fetch
begin

text \<open>
  Objects (\<^verbatim>\<open>src/src/obj/object.c\<close>): creation, reference counting, release, association, attributes and setters. Refreshing,
  caching and storing of keys are not modelled.

  An object is a cell of the heap \<open>w_objs\<close>; a NULL pointer is \<open>None\<close>. The reference count is an unbounded integer.
\<close>

section \<open>Model\<close>

definition CK_P11PROV_IMPORTED_HANDLE :: CK_OBJECT_HANDLE where
  "CK_P11PROV_IMPORTED_HANDLE = CK_UNAVAILABLE_INFORMATION - 1"

definition sizeof_obj :: nat where "sizeof_obj = 152"
definition sizeof_attribute :: nat where "sizeof_attribute = 24"

definition destroy_key_cache :: "'e p11env \<Rightarrow> addr \<Rightarrow> addr option \<Rightarrow> ('e world, unit) state" where
  "destroy_key_cache E a x = do {
     ob \<leftarrow> get_o a;
     if o_cached ob = CK_INVALID_HANDLE then ret ()
     else do {
       (r, own) \<leftarrow> (case x of Some _ \<Rightarrow> ret (CKR_OK, None) | None \<Rightarrow> p11prov_take_login_session E (o_slotid ob));
       if r \<noteq> CKR_OK then ret ()
       else do {
         sess \<leftarrow> handle_of (if x = None then own else x);
         _ \<leftarrow> ecall (E_DestroyObject E sess (o_cached ob));
         upd_o a (\<lambda>ob. ob\<lparr>o_cached := CK_INVALID_HANDLE\<rparr>);
         p11prov_return_session E own } } }"

definition new_obj :: "CK_SLOT_ID \<Rightarrow> CK_OBJECT_HANDLE \<Rightarrow> CK_OBJECT_CLASS \<Rightarrow> p11prov_obj" where
  "new_obj slotid handle cls = zero_obj\<lparr>o_slotid := slotid, o_handle := handle, o_class := cls,
     o_cached := CK_INVALID_HANDLE, o_refcnt := 1, o_poolid := - 1\<rparr>"

definition p11prov_obj_new ::
    "'e p11env \<Rightarrow> CK_SLOT_ID \<Rightarrow> CK_OBJECT_HANDLE \<Rightarrow> CK_OBJECT_CLASS \<Rightarrow> ('e world, addr option) state" where
  "p11prov_obj_new E slotid handle cls = do {
     ok \<leftarrow> ecall (E_malloc E sizeof_obj);
     if \<not> ok then ret None
     else do {
       a \<leftarrow> gets (\<lambda>w. h_brk (w_objs w));
       modify (\<lambda>w. w\<lparr>w_objs := halloc (new_obj slotid handle cls) (w_objs w)\<rparr>);
       if handle = CK_P11PROV_IMPORTED_HANDLE then ret (Some a)
       else do {
         r \<leftarrow> obj_add_to_pool E a;
         if r \<noteq> CKR_OK then do { modify (\<lambda>w. w\<lparr>w_objs := hfree a (w_objs w)\<rparr>); ret None }
         else ret (Some a) } } }"

text \<open>
  What \<open>p11prov_obj_free\<close> does with an object nobody refers to, up to the release of the associated object. The recursion follows
  the associated objects; its bound is the number of objects ever allocated, which is enough by \<open>wp_obj_free_n\<close>.
\<close>

definition obj_teardown :: "'e p11env \<Rightarrow> addr \<Rightarrow> ('e world, unit) state" where
  "obj_teardown E a = do {
     ob \<leftarrow> get_o a;
     (case o_ref_session ob of
        None \<Rightarrow> ret ()
      | Some s \<Rightarrow> do {
          p11prov_session_deref (Some s);
          upd_o a (\<lambda>ob. ob\<lparr>o_ref_session := None\<rparr>) });
     obj_rm_from_pool E a;
     destroy_key_cache E a None }"

fun obj_free_n :: "nat \<Rightarrow> 'e p11env \<Rightarrow> addr option \<Rightarrow> ('e world, unit) state" where
  "obj_free_n 0 E x = ret ()"
| "obj_free_n (Suc n) E x =
     (case x of
        None \<Rightarrow> ret ()
      | Some a \<Rightarrow> do {
          upd_o a (\<lambda>ob. ob\<lparr>o_refcnt := o_refcnt ob - 1\<rparr>);
          ob \<leftarrow> get_o a;
          if o_refcnt ob \<noteq> 0 then ret ()
          else do {
            obj_teardown E a;
            ob \<leftarrow> get_o a;
            obj_free_n n E (o_assoc_obj ob);
            modify (\<lambda>w. w\<lparr>w_objs := hfree a (w_objs w)\<rparr>) } })"

definition p11prov_obj_free :: "'e p11env \<Rightarrow> addr option \<Rightarrow> ('e world, unit) state" where
  "p11prov_obj_free E x = do {
     n \<leftarrow> gets (\<lambda>w. h_brk (w_objs w));
     obj_free_n (Suc n) E x }"

definition p11prov_obj_ref_no_cache :: "addr option \<Rightarrow> ('e world, addr option) state" where
  "p11prov_obj_ref_no_cache x =
     (case x of
        None \<Rightarrow> ret None
      | Some a \<Rightarrow> do {
          ob \<leftarrow> get_o a;
          upd_o a (\<lambda>ob. ob\<lparr>o_refcnt := o_refcnt ob + 1\<rparr>);
          ret (if o_refcnt ob > 0 then Some a else None) })"

definition p11prov_obj_to_store_reference :: "addr \<Rightarrow> addr option \<times> nat" where
  "p11prov_obj_to_store_reference a = (Some a, sizeof_obj)"

definition p11prov_obj_from_reference :: "addr option \<Rightarrow> nat \<Rightarrow> addr option" where
  "p11prov_obj_from_reference reference sz = (if reference = None \<or> sz \<noteq> sizeof_obj then None else reference)"

definition is_key_class :: "CK_OBJECT_CLASS \<Rightarrow> bool" where
  "is_key_class cls \<longleftrightarrow> cls = CKO_PRIVATE_KEY \<or> cls = CKO_PUBLIC_KEY \<or> cls = CKO_DOMAIN_PARAMETERS \<or> cls = CKO_SECRET_KEY"

definition p11prov_obj_get_key_type :: "p11prov_obj option \<Rightarrow> CK_KEY_TYPE" where
  "p11prov_obj_get_key_type x = (case x of None \<Rightarrow> CK_UNAVAILABLE_INFORMATION
     | Some ob \<Rightarrow> if is_key_class (o_class ob) then k_type (o_key ob) else CK_UNAVAILABLE_INFORMATION)"

definition p11prov_obj_get_key_bit_size :: "p11prov_obj option \<Rightarrow> CK_ULONG" where
  "p11prov_obj_get_key_bit_size x = (case x of None \<Rightarrow> CK_UNAVAILABLE_INFORMATION
     | Some ob \<Rightarrow> if is_key_class (o_class ob) then k_bit_size (o_key ob) else CK_UNAVAILABLE_INFORMATION)"

definition p11prov_obj_get_key_size :: "p11prov_obj option \<Rightarrow> CK_ULONG" where
  "p11prov_obj_get_key_size x = (case x of None \<Rightarrow> CK_UNAVAILABLE_INFORMATION
     | Some ob \<Rightarrow> if is_key_class (o_class ob) then k_size (o_key ob) else CK_UNAVAILABLE_INFORMATION)"

definition p11prov_obj_get_key_param_set :: "p11prov_obj option \<Rightarrow> CK_ULONG" where
  "p11prov_obj_get_key_param_set x = (case x of None \<Rightarrow> CK_UNAVAILABLE_INFORMATION
     | Some ob \<Rightarrow> if o_class ob = CKO_PRIVATE_KEY \<or> o_class ob = CKO_PUBLIC_KEY \<or> o_class ob = CKO_DOMAIN_PARAMETERS
         then k_param_set (o_key ob) else CK_UNAVAILABLE_INFORMATION)"

definition p11prov_obj_get_slotid :: "p11prov_obj option \<Rightarrow> CK_SLOT_ID" where
  "p11prov_obj_get_slotid x = (case x of None \<Rightarrow> CK_UNAVAILABLE_INFORMATION | Some ob \<Rightarrow> o_slotid ob)"

definition p11prov_obj_get_class :: "p11prov_obj option \<Rightarrow> CK_OBJECT_CLASS" where
  "p11prov_obj_get_class x = (case x of None \<Rightarrow> CK_UNAVAILABLE_INFORMATION | Some ob \<Rightarrow> o_class ob)"

text \<open>Of several attributes of one type \<open>p11prov_obj_get_bool\<close> reads the last.\<close>

definition p11prov_obj_get_bool :: "p11prov_obj option \<Rightarrow> CK_ATTRIBUTE_TYPE \<Rightarrow> bool \<Rightarrow> bool" where
  "p11prov_obj_get_bool x ty def =
     (case x of
        None \<Rightarrow> def
      | Some ob \<Rightarrow> (case find (\<lambda>a. ca_type a = ty) (rev (o_attrs ob)) of
          None \<Rightarrow> def
        | Some attr \<Rightarrow> (case ca_pValue attr of
            None \<Rightarrow> def
          | Some v \<Rightarrow> if ca_ulValueLen attr = 1 then char_at v 0 \<noteq> NUL else def)))"

definition p11prov_obj_from_typed_reference ::
    "addr option \<Rightarrow> nat \<Rightarrow> CK_KEY_TYPE \<Rightarrow> ('e world, addr option) state" where
  "p11prov_obj_from_typed_reference reference sz key_type =
     (case p11prov_obj_from_reference reference sz of
        None \<Rightarrow> ret None
      | Some a \<Rightarrow> do {
          ob \<leftarrow> get_o a;
          if p11prov_obj_get_key_type (Some ob) = key_type then p11prov_obj_ref_no_cache (Some a) else ret None })"

definition p11prov_obj_add_attr :: "'e p11env \<Rightarrow> addr option \<Rightarrow> ck_attribute option \<Rightarrow> ('e world, CK_RV) state" where
  "p11prov_obj_add_attr E x attr =
     (case (x, attr) of
        (Some a, Some at) \<Rightarrow> do {
          ob \<leftarrow> get_o a;
          ok \<leftarrow> ecall (E_malloc E (sizeof_attribute * (length (o_attrs ob) + 1)));
          if \<not> ok then ret CKR_HOST_MEMORY
          else do { upd_o a (\<lambda>ob. ob\<lparr>o_attrs := o_attrs ob @ [at]\<rparr>); ret CKR_OK } }
      | _ \<Rightarrow> ret CKR_ARGUMENTS_BAD)"

definition p11prov_obj_set_associated :: "'e p11env \<Rightarrow> addr option \<Rightarrow> addr option \<Rightarrow> ('e world, unit) state" where
  "p11prov_obj_set_associated E x assoc =
     (case x of
        None \<Rightarrow> ret ()
      | Some a \<Rightarrow> do {
          ob \<leftarrow> get_o a;
          p11prov_obj_free E (o_assoc_obj ob);
          upd_o a (\<lambda>ob. ob\<lparr>o_assoc_obj := None\<rparr>);
          if assoc = None then ret ()
          else do {
            y \<leftarrow> p11prov_obj_ref_no_cache assoc;
            upd_o a (\<lambda>ob. ob\<lparr>o_assoc_obj := y\<rparr>) } })"

definition p11prov_obj_set_session_ref :: "addr \<Rightarrow> addr option \<Rightarrow> ('e world, unit) state" where
  "p11prov_obj_set_session_ref a session = do {
     p11prov_session_ref session;
     upd_o a (\<lambda>ob. ob\<lparr>o_ref_session := session\<rparr>) }"

definition p11prov_obj_set_class :: "addr \<Rightarrow> CK_OBJECT_CLASS \<Rightarrow> ('e world, unit) state" where
  "p11prov_obj_set_class a cls =
     upd_o a (\<lambda>ob. if o_handle ob = CK_P11PROV_IMPORTED_HANDLE then ob\<lparr>o_class := cls\<rparr> else ob)"

definition p11prov_obj_set_key_type :: "addr \<Rightarrow> CK_KEY_TYPE \<Rightarrow> ('e world, unit) state" where
  "p11prov_obj_set_key_type a ty =
     upd_o a (\<lambda>ob. if o_handle ob = CK_P11PROV_IMPORTED_HANDLE then ob\<lparr>o_key := (o_key ob)\<lparr>k_type := ty\<rparr>\<rparr> else ob)"

definition p11prov_obj_set_key_params :: "addr \<Rightarrow> CK_ULONG \<Rightarrow> ('e world, unit) state" where
  "p11prov_obj_set_key_params a param_set =
     upd_o a (\<lambda>ob. if o_handle ob = CK_P11PROV_IMPORTED_HANDLE then ob\<lparr>o_key := (o_key ob)\<lparr>k_param_set := param_set\<rparr>\<rparr> else ob)"

section \<open>Reference counting\<close>

text \<open>
  \<open>H a\<close> is the number of references the clients of the module hold to the object at \<open>a\<close>. An object is counted once for each of
  them and once for each allocated object that is associated with it. \<open>T\<close> are the objects that are being released, \<open>D\<close> those whose
  pointer to the associated object does not count any more. Between calls both are empty.
\<close>

definition slot_pools :: "'e world \<Rightarrow> addr set" where
  "slot_pools w = {p. \<exists>s \<in> set (slots_list w). sl_objects s = Some p}"

definition assoc_refs :: "addr set \<Rightarrow> 'e world \<Rightarrow> addr \<Rightarrow> nat" where
  "assoc_refs D w b = card {a. h_live (w_objs w) a \<and> a \<notin> D \<and> o_assoc_obj (ocell w a) = Some b}"

definition counted :: "addr set \<Rightarrow> addr set \<Rightarrow> (addr \<Rightarrow> nat) \<Rightarrow> 'e world \<Rightarrow> bool" where
  "counted T D H w \<longleftrightarrow> heap_ok (w_objs w) \<and>
     (\<forall>b. h_live (w_objs w) b \<and> b \<notin> T \<longrightarrow> o_refcnt (ocell w b) = int (H b + assoc_refs D w b) \<and> 1 \<le> o_refcnt (ocell w b)) \<and>
     (\<forall>b \<in> T. h_live (w_objs w) b \<and> H b = 0 \<and> assoc_refs D w b = 0) \<and>
     (\<forall>b. 0 < H b \<longrightarrow> h_live (w_objs w) b) \<and>
     (\<forall>a b. h_live (w_objs w) a \<and> a \<notin> D \<and> o_assoc_obj (ocell w a) = Some b \<longrightarrow> h_live (w_objs w) b) \<and>
     (\<forall>d \<in> D. d \<in> T \<or> 0 < H d)"

definition filed :: "addr set \<Rightarrow> 'e world \<Rightarrow> addr \<Rightarrow> nat \<Rightarrow> addr \<Rightarrow> bool" where
  "filed T w p i a \<longleftrightarrow> h_live (w_objs w) a \<and> a \<notin> T \<and> o_poolid (ocell w a) = int i \<and>
     pool_of w (o_slotid (ocell w a)) = Some p \<and> o_handle (ocell w a) \<noteq> CK_P11PROV_IMPORTED_HANDLE"

definition pooled :: "addr set \<Rightarrow> 'e world \<Rightarrow> bool" where
  "pooled T w \<longleftrightarrow> (\<forall>a. h_live (w_objs w) a \<longrightarrow> - 1 \<le> o_poolid (ocell w a)) \<and>
     (\<forall>p \<in> slot_pools w. opool_inv (opcell w p) \<and> (\<forall>i a. pool_look (opcell w p) i = Some a \<longrightarrow> filed T w p i a))"

lemma pooledI:
  assumes "\<And>a. h_live (w_objs w) a \<Longrightarrow> - 1 \<le> o_poolid (ocell w a)" and "\<And>p. p \<in> slot_pools w \<Longrightarrow> opool_inv (opcell w p)"
    and "\<And>p i a. p \<in> slot_pools w \<Longrightarrow> pool_look (opcell w p) i = Some a \<Longrightarrow> filed T w p i a"
  shows "pooled T w"
  using assms by (simp add: pooled_def)

lemma pooledD:
  assumes "pooled T w"
  shows "h_live (w_objs w) a \<Longrightarrow> - 1 \<le> o_poolid (ocell w a)" and "p \<in> slot_pools w \<Longrightarrow> opool_inv (opcell w p)"
    and "p \<in> slot_pools w \<Longrightarrow> pool_look (opcell w p) i = Some a \<Longrightarrow> filed T w p i a"
  using assms by (simp_all add: pooled_def)

lemma pool_of_slot: "pool_of w sid = Some p \<Longrightarrow> p \<in> slot_pools w"
  by (auto simp: pool_of_def slot_pools_def bind_eq_Some_conv find_Some_iff)

lemma slot_pools_nth: "slot_pools w = {p. \<exists>i. i < length (slots_list w) \<and> sl_objects (slots_list w ! i) = Some p}"
  unfolding slot_pools_def set_conv_nth by blast

lemma same_slots_pools:
  assumes "same_slots (w_slots w) (w_slots w')"
  shows "slot_pools w' = slot_pools w" and "pool_of w' = pool_of w"
proof -
  have "map without_pins (slots_list w') = map without_pins (slots_list w)"
    using assms by (auto simp: same_slots_def slots_list_def split: option.splits)
  then have len: "length (slots_list w') = length (slots_list w)"
    and nth: "\<And>i. i < length (slots_list w) \<Longrightarrow> without_pins (slots_list w' ! i) = without_pins (slots_list w ! i)"
    by (metis length_map, metis length_map nth_map)
  have fields: "sl_id (slots_list w' ! i) = sl_id (slots_list w ! i) \<and> sl_objects (slots_list w' ! i) = sl_objects (slots_list w ! i)"
    if "i < length (slots_list w)" for i
    using arg_cong [OF nth [OF that], of sl_id] arg_cong [OF nth [OF that], of sl_objects] by (simp add: without_pins_def)
  show "slot_pools w' = slot_pools w"
    using len fields unfolding slot_pools_nth by auto
  have "Option.bind (find (\<lambda>s. sl_id s = sid) xs) sl_objects = Option.bind (find (\<lambda>s. sl_id s = sid) ys) sl_objects"
    if "length xs = length ys" "\<And>i. i < length ys \<Longrightarrow> sl_id (xs ! i) = sl_id (ys ! i) \<and> sl_objects (xs ! i) = sl_objects (ys ! i)"
    for sid xs ys
    using that
  proof (induction xs ys rule: list_induct2)
    case (Cons x xs y ys)
    from Cons.prems [of 0] Cons.prems [of "Suc _"] Cons.IH show ?case by fastforce
  qed simp
  then show "pool_of w' = pool_of w"
    unfolding pool_of_def fun_eq_iff using len fields by blast
qed

lemma counted_cong: "w_objs w' = w_objs w \<Longrightarrow> counted T D H w' = counted T D H w"
  by (simp add: counted_def assoc_refs_def)

lemma pooled_cong: "w_objs w' = w_objs w \<Longrightarrow> w_opools w' = w_opools w \<Longrightarrow> same_slots (w_slots w) (w_slots w') \<Longrightarrow> pooled T w' = pooled T w"
  by (simp add: pooled_def filed_def same_slots_pools)

lemma counted_finite: "counted T D H w \<Longrightarrow> finite {a. h_live (w_objs w) a \<and> P a}"
  unfolding counted_def heap_ok_def by (rule finite_subset [of _ "{..<h_brk (w_objs w)}"]) auto

lemma assoc_refs_pos:
  assumes "counted T D H w" and "h_live (w_objs w) a" and "a \<notin> D" and "o_assoc_obj (ocell w a) = Some b"
  shows "0 < assoc_refs D w b"
  using assms(2-4) counted_finite [OF assms(1), of "\<lambda>a. a \<notin> D \<and> o_assoc_obj (ocell w a) = Some b"]
  unfolding assoc_refs_def card_gt_0_iff by blast

text \<open>What the teardown of \<open>a\<close> changes.\<close>

definition torn :: "addr \<Rightarrow> 'e world \<Rightarrow> 'e world \<Rightarrow> bool" where
  "torn a w w' \<longleftrightarrow> h_live (w_objs w') = h_live (w_objs w) \<and> h_brk (w_objs w') = h_brk (w_objs w) \<and> w_ctx w' = w_ctx w \<and>
     same_slots (w_slots w) (w_slots w') \<and> (\<forall>b. b \<noteq> a \<longrightarrow> ocell w' b = ocell w b) \<and>
     o_assoc_obj (ocell w' a) = o_assoc_obj (ocell w a) \<and> o_refcnt (ocell w' a) = o_refcnt (ocell w a)"

lemma torn_trans: "torn a w w1 \<Longrightarrow> torn a w1 w2 \<Longrightarrow> torn a w w2"
  by (simp add: torn_def same_slots_def)

interpretation tn: session_blind "torn a"
  by unfold_locales (auto simp: torn_def same_slots_def)

lemma keeps_torn_upd:
  "(\<And>ob. o_assoc_obj (f ob) = o_assoc_obj ob \<and> o_refcnt (f ob) = o_refcnt ob) \<Longrightarrow> keeps (torn a) (upd_o a f)"
  by (rule tn.keeps_modify) (simp add: torn_def same_slots_def)

lemma keeps_torn_op: "keeps (torn a) (upd_op p f)"
  by (rule tn.keeps_modify) (simp add: torn_def same_slots_def)

lemma keeps_torn_get_pool: "keeps (torn a) (p11prov_slot_get_obj_pool E sid)"
  unfolding p11prov_slot_get_obj_pool_def by (intro tn.keeps_rules)

lemma keeps_torn_rm: "keeps (torn a) (obj_rm_from_pool E a)"
  unfolding obj_rm_from_pool_def
  by (intro tn.blind_rules keeps_torn_get_pool keeps_torn_op keeps_torn_upd) simp

lemma keeps_torn_cache: "keeps (torn a) (destroy_key_cache E a x)"
  unfolding destroy_key_cache_def
  by (intro tn.blind_rules tn.keeps_take_login tn.keeps_handle_of tn.keeps_return keeps_torn_upd) simp

lemma keeps_torn_teardown: "keeps (torn a) (obj_teardown E a)"
  unfolding obj_teardown_def
  by (intro tn.blind_rules tn.keeps_sess_ref keeps_torn_rm keeps_torn_cache keeps_torn_upd) simp

lemma wp_get_obj_pool_none:
  assumes "pool_of w sid = None" and "\<And>r e l. Q (r, None) (w\<lparr>w_env := e, w_held := l\<rparr>)"
  shows "wp (p11prov_slot_get_obj_pool E sid) Q w"
proof -
  have "Q (r, None) w" for r using assms(2) [where e = "w_env w" and l = "w_held w"] by simp
  moreover have "Q (r, None) (w\<lparr>w_env := e\<rparr>)" for r e using assms(2) [where e = e and l = "w_held w"] by simp
  moreover have "Q (r, None) (w\<lparr>w_held := l\<rparr>)" for r l using assms(2) [where e = "w_env w" and l = l] by simp
  moreover have "Q (r, None) (w\<lparr>w_held := l, w_env := e\<rparr>)" for r l e
    using assms(2) [where e = e and l = l] by (cases w) simp
  ultimately show ?thesis
    using assms
    by (auto simp: p11prov_slot_get_obj_pool_def wp_simps pool_of_def slots_list_def bind_eq_None_conv
        split: prod.split option.splits)
qed

lemma wp_rm_absent:
  assumes "\<And>p i. pool_of w (o_slotid (ocell w a)) = Some p \<Longrightarrow> pool_look (opcell w p) i \<noteq> Some a"
    and "\<And>l e. fst (E_lock E l e)" and "- 1 \<le> o_poolid (ocell w a)"
  shows "wp (obj_rm_from_pool E a) (\<lambda>_ w'. w_objs w' = w_objs w \<and> w_opools w' = w_opools w \<and> w_slots w' = w_slots w) w"
proof -
  have l: "E_lock E l e = (b, e') \<Longrightarrow> b" for l e b e' using assms(2) [of l e] by simp
  show ?thesis
  proof (cases "pool_of w (o_slotid (ocell w a))")
    case None
    then show ?thesis unfolding obj_rm_from_pool_def
      by (auto simp: wp_simps intro!: wp_get_obj_pool_none)
  next
    case (Some p)
    have no: "op_objects (opcell w p) ! nat (o_poolid (ocell w a)) \<noteq> Some a"
      if "o_poolid (ocell w a) < int (length (op_objects (opcell w p)))" "o_poolid (ocell w a) \<noteq> - 1"
      using assms(1) [OF Some, of "nat (o_poolid (ocell w a))"] that assms(3) by (auto simp: pool_look_def split: if_splits)
    show ?thesis unfolding obj_rm_from_pool_def
      by (auto simp: wp_simps no not_le split: prod.split dest!: l intro!: wp_get_obj_pool [OF Some assms(2)])
  qed
qed

lemma wp_rm_pooled:
  fixes w :: "'e world"
  assumes inv: "pooled T w" and locks: "\<And>l e. fst (E_lock E l e)" and live: "h_live (w_objs w) a"
  shows "wp (obj_rm_from_pool E a) (\<lambda>_ w'. pooled (insert a T) w') w"
proof (cases "\<exists>p i. p \<in> slot_pools w \<and> pool_look (opcell w p) i = Some a")
  case True
  then obtain p i where pi: "p \<in> slot_pools w" "pool_look (opcell w p) i = Some a" by blast
  then have p: "o_poolid (ocell w a) = int i" "pool_of w (o_slotid (ocell w a)) = Some p" "opool_inv (opcell w p)"
    using pooledD [OF inv] by (auto simp: filed_def)
  have only: "q = p \<and> j = i" if "q \<in> slot_pools w" "pool_look (opcell w q) j = Some a" for q j
    using pooledD(3) [OF inv that] p by (auto simp: filed_def)
  show ?thesis
  proof (rule wp_mono [OF wp_obj_rm [OF p(2,3,1) pi(2) locks]])
    fix w'
    assume r: "removed p i a w w'"
    then have slots: "same_slots (w_slots w) (w_slots w')" by (simp add: removed_def same_slots_def)
    note same = same_slots_pools [OF slots]
    have eq: "pool_look (opcell w' q) j = (if q = p \<and> j = i then None else pool_look (opcell w q) j)" for q j
      using r by (cases "q = p") (simp_all add: removed_def)
    have look: "pool_look (opcell w q) j = Some b \<and> b \<noteq> a"
      if "q \<in> slot_pools w" "pool_look (opcell w' q) j = Some b" for q j b
      using only [OF that(1), of j] that(2) unfolding eq by (auto split: if_splits)
    show "pooled (insert a T) w'"
    proof (rule pooledI, unfold same)
      show "- 1 \<le> o_poolid (ocell w' b)" if "h_live (w_objs w') b" for b
        using pooledD(1) [OF inv, of b] that r by (auto simp: removed_def)
      show "opool_inv (opcell w' q)" if "q \<in> slot_pools w" for q
        using r pooledD(2) [OF inv that] by (cases "q = p") (auto simp: removed_def)
      show "filed (insert a T) w' q j b" if "q \<in> slot_pools w" "pool_look (opcell w' q) j = Some b" for q j b
        using pooledD(3) [OF inv that(1) look [OF that, THEN conjunct1]] look [OF that, THEN conjunct2] r by (auto simp: filed_def same removed_def)
    qed
  qed
next
  case False
  then have "pool_look (opcell w p) i \<noteq> Some a" if "pool_of w (o_slotid (ocell w a)) = Some p" for p i
    using pool_of_slot [OF that] by blast
  then show ?thesis
  proof (rule wp_mono [OF wp_rm_absent [OF _ locks pooledD(1) [OF inv live]]])
    fix w' :: "'e world"
    assume "w_objs w' = w_objs w \<and> w_opools w' = w_opools w \<and> w_slots w' = w_slots w"
    then have "pooled T w' \<and> slot_pools w' = slot_pools w \<and> w_opools w' = w_opools w"
      using pooled_cong [of w' w T] inv by (simp add: same_slots_def slot_pools_def slots_list_def)
    then show "pooled (insert a T) w'" using False unfolding pooled_def filed_def by auto
  qed auto
qed

lemma assoc_refs_cong:
  "(\<And>a. a \<notin> D \<Longrightarrow> h_live (w_objs w') a = h_live (w_objs w) a \<and> (h_live (w_objs w) a \<longrightarrow> o_assoc_obj (ocell w' a) = o_assoc_obj (ocell w a))) \<Longrightarrow>
   assoc_refs D w' = assoc_refs D w"
  unfolding assoc_refs_def by (intro ext arg_cong [of _ _ card] Collect_cong) metis

lemma countedI:
  assumes "heap_ok (w_objs w)"
    and "\<And>b. h_live (w_objs w) b \<Longrightarrow> b \<notin> T \<Longrightarrow> o_refcnt (ocell w b) = int (H b + assoc_refs D w b) \<and> 1 \<le> H b + assoc_refs D w b"
    and "\<And>b. b \<in> T \<Longrightarrow> h_live (w_objs w) b \<and> H b = 0 \<and> assoc_refs D w b = 0"
    and "\<And>b. 0 < H b \<Longrightarrow> h_live (w_objs w) b"
    and "\<And>a b. h_live (w_objs w) a \<Longrightarrow> a \<notin> D \<Longrightarrow> o_assoc_obj (ocell w a) = Some b \<Longrightarrow> h_live (w_objs w) b"
    and "\<And>d. d \<in> D \<Longrightarrow> d \<in> T \<or> 0 < H d"
  shows "counted T D H w"
  unfolding counted_def using assms by fastforce

lemma countedD:
  assumes "counted T D H w"
  shows "heap_ok (w_objs w)"
    and "h_live (w_objs w) b \<Longrightarrow> b \<notin> T \<Longrightarrow> o_refcnt (ocell w b) = int (H b + assoc_refs D w b) \<and> 1 \<le> H b + assoc_refs D w b"
    and "b \<in> T \<Longrightarrow> h_live (w_objs w) b \<and> H b = 0 \<and> assoc_refs D w b = 0"
    and "0 < H b \<Longrightarrow> h_live (w_objs w) b"
    and "h_live (w_objs w) a \<Longrightarrow> a \<notin> D \<Longrightarrow> o_assoc_obj (ocell w a) = Some b \<Longrightarrow> h_live (w_objs w) b"
    and "d \<in> D \<Longrightarrow> d \<in> T \<or> 0 < H d"
  using assms by (fastforce simp: counted_def)+

abbreviation drop_ref :: "addr \<Rightarrow> 'e world \<Rightarrow> 'e world" where
  "drop_ref a w \<equiv> w\<lparr>w_objs := hupd a (\<lambda>ob. ob\<lparr>o_refcnt := o_refcnt ob - 1\<rparr>) (w_objs w)\<rparr>"

lemma counted_drop:
  assumes c: "counted T D H w" and H: "0 < H a" "a \<in> D \<Longrightarrow> 2 \<le> H a" and "o_refcnt (ocell w a) \<noteq> 1"
  shows "counted T D (H(a := H a - 1)) (drop_ref a w)"
proof -
  have same: "assoc_refs D (drop_ref a w) = assoc_refs D w" by (rule assoc_refs_cong) simp
  have a: "a \<notin> T" "h_live (w_objs w) a" using countedD(3,4) [OF c] H(1) by force+
  note ra = countedD(2) [OF c a(2,1)]
  show ?thesis
  proof (rule countedI, unfold same)
    fix b
    assume "h_live (w_objs (drop_ref a w)) b" "b \<notin> T"
    then show "o_refcnt (ocell (drop_ref a w) b) = int ((H(a := H a - 1)) b + assoc_refs D w b) \<and> 1 \<le> (H(a := H a - 1)) b + assoc_refs D w b"
      using countedD(2) [OF c, of b] ra H(1) assms(4) by auto
  next
    fix x b
    assume "h_live (w_objs (drop_ref a w)) x" "x \<notin> D" "o_assoc_obj (ocell (drop_ref a w) x) = Some b"
    then show "h_live (w_objs (drop_ref a w)) b" using countedD(5) [OF c, of x b] by (simp split: if_splits)
  next
    fix b
    show "b \<in> T \<Longrightarrow> h_live (w_objs (drop_ref a w)) b \<and> (H(a := H a - 1)) b = 0 \<and> assoc_refs D w b = 0"
      using countedD(3) [OF c, of b] a(1) by auto
    show "0 < (H(a := H a - 1)) b \<Longrightarrow> h_live (w_objs (drop_ref a w)) b"
      using countedD(4) [OF c, of b] a(2) by (auto split: if_splits)
    show "b \<in> D \<Longrightarrow> b \<in> T \<or> 0 < (H(a := H a - 1)) b" using countedD(6) [OF c, of b] H(2) by (cases "b = a") auto
  qed (use countedD(1) [OF c] in simp)
qed

lemma last_ref:
  assumes "counted T D H w" and "0 < H a" "a \<in> D \<Longrightarrow> 2 \<le> H a" and "o_refcnt (ocell w a) = 1"
  shows "H a = 1" and "assoc_refs D w a = 0" and "a \<notin> D" and "a \<notin> T" and "h_live (w_objs w) a"
proof -
  have a: "a \<notin> T" "h_live (w_objs w) a" using countedD(3,4) [OF assms(1)] assms(2) by force+
  then have "o_refcnt (ocell w a) = int (H a + assoc_refs D w a)" using countedD(2) [OF assms(1)] by blast
  then show "H a = 1" "assoc_refs D w a = 0" using assms(2,4) by auto
  then show "a \<notin> D" using assms(3) by force
  show "a \<notin> T" "h_live (w_objs w) a" by (rule a)+
qed

definition passed :: "addr \<Rightarrow> p11prov_obj \<Rightarrow> (addr \<Rightarrow> nat) \<Rightarrow> addr \<Rightarrow> nat" where
  "passed a ob H b = (if b = a then 0 else if o_assoc_obj ob = Some b then Suc (H b) else H b)"

lemma counted_torn:
  assumes c: "counted T D H w" and H: "0 < H a" "a \<in> D \<Longrightarrow> 2 \<le> H a" and one: "o_refcnt (ocell w a) = 1"
    and t: "torn a (drop_ref a w) w'"
  shows "counted (insert a T) (insert a D) (passed a (ocell w a) H) w'"
proof -
  note a = last_ref [OF c H one]
  have live: "h_live (w_objs w') = h_live (w_objs w)" "h_brk (w_objs w') = h_brk (w_objs w)"
    and cells: "\<And>b. b \<noteq> a \<Longrightarrow> ocell w' b = ocell w b"
    using t by (auto simp: torn_def)
  have refs: "assoc_refs (insert a D) w' b = assoc_refs D w b - (if o_assoc_obj (ocell w a) = Some b then 1 else 0)" for b
  proof -
    let ?S = "{x. h_live (w_objs w) x \<and> x \<notin> D \<and> o_assoc_obj (ocell w x) = Some b}"
    have "{x. h_live (w_objs w') x \<and> x \<notin> insert a D \<and> o_assoc_obj (ocell w' x) = Some b} = ?S - {a}"
      using cells live by auto
    then show ?thesis using a(3,5) counted_finite [OF c] by (simp add: assoc_refs_def card_Diff_singleton_if)
  qed
  have self: "o_assoc_obj (ocell w a) \<noteq> Some a" using assoc_refs_pos [OF c a(5,3)] a(2) by force
  have pos: "0 < assoc_refs D w b" if "o_assoc_obj (ocell w a) = Some b" for b using assoc_refs_pos [OF c a(5,3) that] .
  have target: "h_live (w_objs w) b \<and> b \<notin> T" if "o_assoc_obj (ocell w a) = Some b" for b
    using countedD(3) [OF c, of b] countedD(5) [OF c a(5,3) that] pos [OF that] by auto
  show ?thesis
  proof (rule countedI, unfold live)
    show "heap_ok (w_objs w')" using countedD(1) [OF c] live by (simp add: heap_ok_def)
  next
    fix b
    assume "h_live (w_objs w) b" "b \<notin> insert a T"
    then show "o_refcnt (ocell w' b) = int (passed a (ocell w a) H b + assoc_refs (insert a D) w' b) \<and>
        1 \<le> passed a (ocell w a) H b + assoc_refs (insert a D) w' b"
      using countedD(2) [OF c, of b] cells [of b] pos [of b] by (auto simp: passed_def refs)
  next
    fix b
    assume "b \<in> insert a T"
    then show "h_live (w_objs w) b \<and> passed a (ocell w a) H b = 0 \<and> assoc_refs (insert a D) w' b = 0"
      using countedD(3) [OF c, of b] a target [of b] by (auto simp: passed_def refs)
  next
    fix b
    assume "0 < passed a (ocell w a) H b"
    then show "h_live (w_objs w) b" using countedD(4) [OF c, of b] target [of b] by (auto simp: passed_def split: if_splits)
  next
    fix x b
    assume "h_live (w_objs w) x" "x \<notin> insert a D" "o_assoc_obj (ocell w' x) = Some b"
    then show "h_live (w_objs w) b" using countedD(5) [OF c, of x b] cells [of x] by auto
  next
    fix d
    assume "d \<in> insert a D"
    then show "d \<in> insert a T \<or> 0 < passed a (ocell w a) H d" using countedD(6) [OF c, of d] by (auto simp: passed_def)
  qed
qed

lemma counted_done:
  assumes c: "counted (insert a T) (insert a D) H w" and a: "a \<notin> T" "a \<notin> D"
  shows "counted T D H (w\<lparr>w_objs := hfree a (w_objs w)\<rparr>)"
proof -
  let ?w = "w\<lparr>w_objs := hfree a (w_objs w)\<rparr>"
  have refs: "assoc_refs D ?w = assoc_refs (insert a D) w"
    unfolding assoc_refs_def fun_eq_iff by (auto intro!: arg_cong [of _ _ card])
  have zero: "assoc_refs (insert a D) w a = 0" "H a = 0" using countedD(3) [OF c] by auto
  have other: "b \<noteq> a" if "h_live (w_objs w) x" "x \<notin> insert a D" "o_assoc_obj (ocell w x) = Some b" for x b
    using assoc_refs_pos [OF c that] zero(1) by auto
  show ?thesis
  proof (rule countedI, unfold refs)
    fix b
    show "h_live (w_objs ?w) b \<Longrightarrow> b \<notin> T \<Longrightarrow>
        o_refcnt (ocell ?w b) = int (H b + assoc_refs (insert a D) w b) \<and> 1 \<le> H b + assoc_refs (insert a D) w b"
      using countedD(2) [OF c, of b] by simp
    show "b \<in> T \<Longrightarrow> h_live (w_objs ?w) b \<and> H b = 0 \<and> assoc_refs (insert a D) w b = 0" using countedD(3) [OF c, of b] a(1) by auto
    show "0 < H b \<Longrightarrow> h_live (w_objs ?w) b" using countedD(4) [OF c, of b] zero(2) by auto
    show "b \<in> D \<Longrightarrow> b \<in> T \<or> 0 < H b" using countedD(6) [OF c, of b] a(2) by auto
    show "h_live (w_objs ?w) x \<Longrightarrow> x \<notin> D \<Longrightarrow> o_assoc_obj (ocell ?w x) = Some b \<Longrightarrow> h_live (w_objs ?w) b" for x
      using countedD(5) [OF c, of x b] other [of x b] by simp
  qed (use countedD(1) [OF c] in simp)
qed

lemma pooled_done: "pooled (insert a T) w \<Longrightarrow> pooled T (w\<lparr>w_objs := hfree a (w_objs w)\<rparr>)"
  unfolding pooled_def filed_def by (simp add: slot_pools_def pool_of_def slots_list_def)

text \<open>
  Session functions keep both parts, and so do changes of the other fields of an object.
\<close>

lemma counted_same: "same_objs w w' \<Longrightarrow> counted T D H w' = counted T D H w"
  unfolding same_objs_def by (rule counted_cong) simp

lemma pooled_same: "same_objs w w' \<Longrightarrow> pooled T w' = pooled T w"
  unfolding same_objs_def by (rule pooled_cong) simp_all

definition keeps_count :: "addr set \<Rightarrow> addr set \<Rightarrow> (addr \<Rightarrow> nat) \<Rightarrow> 'e world \<Rightarrow> 'e world \<Rightarrow> bool" where
  "keeps_count T D H w w' \<longleftrightarrow> (counted T D H w \<longrightarrow> counted T D H w')"

definition keeps_pools :: "addr set \<Rightarrow> 'e world \<Rightarrow> 'e world \<Rightarrow> bool" where
  "keeps_pools T w w' \<longleftrightarrow> (pooled T w \<longrightarrow> pooled T w')"

interpretation kc: session_blind "keeps_count T D H" for T D H
  by unfold_locales (simp_all add: keeps_count_def counted_same [OF sob.rel_env] counted_same [OF sob.rel_held] counted_same [OF sob.rel_sess]
    counted_same [OF sob.rel_pools] counted_same [OF sob.rel_slots])

interpretation kp: session_blind "keeps_pools T" for T
  by unfold_locales (simp_all add: keeps_pools_def pooled_same [OF sob.rel_env] pooled_same [OF sob.rel_held] pooled_same [OF sob.rel_sess]
    pooled_same [OF sob.rel_pools] pooled_same [OF sob.rel_slots])

lemma keeps_count_upd:
  assumes "\<And>ob. o_refcnt (f ob) = o_refcnt ob \<and> o_assoc_obj (f ob) = o_assoc_obj ob"
  shows "keeps (keeps_count T D H) (upd_o a f)"
proof (rule kc.keeps_modify)
  fix w :: "'a world"
  let ?w = "w\<lparr>w_objs := hupd a f (w_objs w)\<rparr>"
  have same: "assoc_refs D ?w = assoc_refs D w" by (rule assoc_refs_cong) (simp add: assms)
  have fields: "o_refcnt (ocell ?w b) = o_refcnt (ocell w b)" "o_assoc_obj (ocell ?w b) = o_assoc_obj (ocell w b)"
    "h_live (w_objs ?w) b = h_live (w_objs w) b" "heap_ok (w_objs ?w) = heap_ok (w_objs w)" for b
    by (simp_all add: assms heap_ok_def)
  show "keeps_count T D H w ?w" unfolding keeps_count_def counted_def same fields by (rule impI)
qed

lemma keeps_pools_upd:
  assumes "\<And>ob. o_poolid (f ob) = o_poolid ob \<and> o_slotid (f ob) = o_slotid ob"
    and "\<And>ob. o_handle ob \<noteq> CK_P11PROV_IMPORTED_HANDLE \<Longrightarrow> o_handle (f ob) \<noteq> CK_P11PROV_IMPORTED_HANDLE"
  shows "keeps (keeps_pools T) (upd_o a f)"
  by (rule kp.keeps_modify)
    (use assms in \<open>auto simp: keeps_pools_def pooled_def filed_def slot_pools_def pool_of_def slots_list_def\<close>)

lemma keeps_pools_destroy: "keeps (keeps_pools T) (destroy_key_cache E a x)"
  unfolding destroy_key_cache_def
  by (intro kp.blind_rules kp.keeps_take_login kp.keeps_handle_of kp.keeps_return keeps_pools_upd) simp_all

text \<open>What the release of a reference changes elsewhere: objects that stay allocated keep their contents but for the count.\<close>

definition freed :: "'e world \<Rightarrow> 'e world \<Rightarrow> bool" where
  "freed w w' \<longleftrightarrow> h_brk (w_objs w') = h_brk (w_objs w) \<and> w_ctx w' = w_ctx w \<and> same_slots (w_slots w) (w_slots w') \<and>
     (\<forall>b. h_live (w_objs w') b \<longrightarrow> h_live (w_objs w) b \<and> (ocell w' b)\<lparr>o_refcnt := 0\<rparr> = (ocell w b)\<lparr>o_refcnt := 0\<rparr>)"

lemma freed_refl: "freed w w"
  by (simp add: freed_def same_slots_def)

lemma freed_trans: "freed w w1 \<Longrightarrow> freed w1 w2 \<Longrightarrow> freed w w2"
  by (simp add: freed_def same_slots_def)

lemma freed_drop: "freed w (drop_ref a w)"
  by (simp add: freed_def same_slots_def)

lemma freed_torn:
  assumes "torn a (drop_ref a w) w1" and "freed w1 w2"
  shows "freed w (w2\<lparr>w_objs := hfree a (w_objs w2)\<rparr>)"
  using assms by (simp add: freed_def torn_def same_slots_def)

lemma obj_free_None [simp]: "obj_free_n n E None = ret ()"
  by (cases n) simp_all

lemma wp_teardown:
  assumes "pooled T w" and "h_live (w_objs w) a" and "\<And>l e. fst (E_lock E l e)"
  shows "wp (obj_teardown E a) (\<lambda>_ w'. torn a w w' \<and> pooled (insert a T) w') w"
proof -
  let ?deref = "case o_ref_session (ocell w a) of None \<Rightarrow> ret () | Some s \<Rightarrow> do {
      p11prov_session_deref (Some s); upd_o a (\<lambda>ob. ob\<lparr>o_ref_session := None\<rparr>) }"
  have 1: "wp ?deref (\<lambda>_ v. pooled T v \<and> h_live (w_objs v) a) w"
    using assms(1,2)
    by (auto simp: p11prov_session_deref_def wp_simps pooled_def filed_def slot_pools_def pool_of_def slots_list_def split: option.split)
  have 3: "wp (destroy_key_cache E a None) (\<lambda>_ v. pooled (insert a T) v) v" if "pooled (insert a T) v" for v
    by (rule wp_mono [OF keepsD [OF keeps_pools_destroy]]) (use that in \<open>auto simp: keeps_pools_def\<close>)
  have "wp (obj_teardown E a) (\<lambda>_ w'. pooled (insert a T) w') w"
    unfolding obj_teardown_def wp_bind [of "get_o a"] wp_gets
    by (rule wp_seq [OF 1], rule wp_seq [OF wp_rm_pooled [OF _ assms(3)]]) (use 3 in auto)
  moreover have "wp (obj_teardown E a) (\<lambda>_ w'. torn a w w') w" by (rule keepsD [OF keeps_torn_teardown])
  ultimately show ?thesis by (simp add: wp_conj)
qed

lemma card_live_insert:
  assumes "counted T D H w" and "h_live (w_objs w) a" and "a \<notin> T" and "h_live (w_objs w') = h_live (w_objs w)"
  shows "card {b. h_live (w_objs w') b \<and> b \<notin> insert a T} < card {b. h_live (w_objs w) b \<and> b \<notin> T}"
  using assms counted_finite [OF assms(1), of "\<lambda>b. b \<notin> T"] by (intro psubset_card_mono) auto

lemma wp_obj_free_n:
  assumes locks: "\<And>l e. fst (E_lock E l e)"
  shows "counted T D H w \<Longrightarrow> pooled T w \<Longrightarrow> 0 < H a \<Longrightarrow> (a \<in> D \<Longrightarrow> 2 \<le> H a) \<Longrightarrow>
    card {b. h_live (w_objs w) b \<and> b \<notin> T} < n \<Longrightarrow>
    wp (obj_free_n n E (Some a)) (\<lambda>_ w'. counted T D (H(a := H a - 1)) w' \<and> pooled T w' \<and> freed w w') w"
proof (induction n arbitrary: T D H w a)
  case (Suc n)
  note c = Suc.prems(1) and p = Suc.prems(2) and H = Suc.prems(3,4)
  let ?Q = "\<lambda>_ w'. counted T D (H(a := H a - 1)) w' \<and> pooled T w' \<and> freed w w'"
  let ?v = "drop_ref a w"
  have pv: "pooled T ?v" using keepsD [OF keeps_pools_upd [of "\<lambda>ob. ob\<lparr>o_refcnt := o_refcnt ob - 1\<rparr>" T a], of w] p
    by (simp add: wp_modify keeps_pools_def)
  show ?case
  proof (cases "o_refcnt (ocell w a) = 1")
    case False
    then show ?thesis using counted_drop [OF c H False] pv freed_drop [of w a] by (simp add: wp_simps fun_upd_def)
  next
    case True
    note a = last_ref [OF c H True]
    have rest: "wp (do { ob \<leftarrow> get_o a; obj_free_n n E (o_assoc_obj ob); modify (\<lambda>w. w\<lparr>w_objs := hfree a (w_objs w)\<rparr>) }) ?Q v1"
      if t: "torn a ?v v1" and p1: "pooled (insert a T) v1" for v1
    proof -
      note c1 = counted_torn [OF c H True t]
      have assoc: "o_assoc_obj (ocell v1 a) = o_assoc_obj (ocell w a)" using t by (simp add: torn_def)
      have finish: "?Q () (v2\<lparr>w_objs := hfree a (w_objs v2)\<rparr>)"
        if "counted (insert a T) (insert a D) (H(a := H a - 1)) v2" "pooled (insert a T) v2" "freed v1 v2" for v2
        using counted_done [OF that(1) a(4,3)] pooled_done [OF that(2)] freed_torn [OF t that(3)] by simp
      show ?thesis
      proof (cases "o_assoc_obj (ocell w a)")
        case None
        then have "passed a (ocell w a) H = H(a := H a - 1)" using a(1) by (auto simp: passed_def)
        then show ?thesis using None assoc c1 p1 finish [of v1] freed_refl [of v1] by (simp add: wp_simps fun_upd_def)
      next
        case (Some b)
        have "b \<noteq> a" using assoc_refs_pos [OF c a(5,3) Some] a(2) by auto
        then have undone: "(passed a (ocell w a) H)(b := passed a (ocell w a) H b - 1) = H(a := H a - 1)"
          and pos: "0 < passed a (ocell w a) H b"
          using Some a(1) by (auto simp: passed_def)
        have two: "2 \<le> passed a (ocell w a) H b" if "b \<in> insert a D"
          using that \<open>b \<noteq> a\<close> Some countedD(6) [OF c, of b] countedD(3) [OF c, of b] assoc_refs_pos [OF c a(5,3) Some] by (auto simp: passed_def)
        have "card {x. h_live (w_objs v1) x \<and> x \<notin> insert a T} < n"
          using card_live_insert [OF c a(5,4), of v1] Suc.prems(5) t by (simp add: torn_def)
        note ih = Suc.IH [OF c1 p1 pos two this, unfolded undone]
        show ?thesis unfolding wp_bind [of "get_o a"] wp_gets assoc Some
          by (rule wp_seq [OF ih], assumption, assumption, unfold wp_modify, elim conjE, rule finish)
      qed
    qed
    have "wp (do { obj_teardown E a; ob \<leftarrow> get_o a; obj_free_n n E (o_assoc_obj ob); modify (\<lambda>w. w\<lparr>w_objs := hfree a (w_objs w)\<rparr>) }) ?Q ?v"
      by (rule wp_seq [OF wp_teardown [OF pv _ locks]]) (use a(5) rest in auto)
    then show ?thesis using True by (simp add: wp_bind [of "upd_o a _"] wp_bind [of "get_o a"] wp_modify wp_gets fun_upd_def)
  qed
qed simp

subsection \<open>The operations\<close>

definition objs_ok :: "(addr \<Rightarrow> nat) \<Rightarrow> 'e world \<Rightarrow> bool" where
  "objs_ok H w \<longleftrightarrow> counted {} {} H w \<and> pooled {} w"

lemma wp_obj_free:
  assumes "objs_ok H w" and "0 < H a" and "\<And>l e. fst (E_lock E l e)"
  shows "wp (p11prov_obj_free E (Some a)) (\<lambda>_ w'. objs_ok (H(a := H a - 1)) w' \<and> freed w w') w"
proof -
  have "card {b. h_live (w_objs w) b \<and> b \<notin> {}} \<le> card {..<h_brk (w_objs w)}"
    using countedD(1) [of "{}" "{}" H w] assms(1) by (intro card_mono) (auto simp: heap_ok_def objs_ok_def)
  then have "wp (obj_free_n (Suc (h_brk (w_objs w))) E (Some a))
      (\<lambda>_ w'. counted {} {} (H(a := H a - 1)) w' \<and> pooled {} w' \<and> freed w w') w"
    using assms by (intro wp_obj_free_n) (auto simp: objs_ok_def)
  then show ?thesis unfolding p11prov_obj_free_def wp_bind [of "gets _"] wp_gets
    by (rule wp_mono) (simp add: objs_ok_def)
qed

lemma counted_live_cong:
  assumes c: "counted T D H w" and live: "h_live (w_objs w') = h_live (w_objs w)" and "heap_ok (w_objs w')"
    and same: "\<And>b. h_live (w_objs w) b \<Longrightarrow> o_refcnt (ocell w' b) = o_refcnt (ocell w b) \<and> o_assoc_obj (ocell w' b) = o_assoc_obj (ocell w b)"
  shows "counted T D H w'"
proof -
  have refs: "assoc_refs D w' = assoc_refs D w" by (rule assoc_refs_cong) (simp add: live same)
  show ?thesis
  proof (rule countedI, unfold refs live)
    show "h_live (w_objs w) b \<Longrightarrow> b \<notin> T \<Longrightarrow> o_refcnt (ocell w' b) = int (H b + assoc_refs D w b) \<and> 1 \<le> H b + assoc_refs D w b" for b
      using countedD(2) [OF c, of b] same [of b] by simp
    show "h_live (w_objs w) a \<Longrightarrow> a \<notin> D \<Longrightarrow> o_assoc_obj (ocell w' a) = Some b \<Longrightarrow> h_live (w_objs w) b" for a b
      using countedD(5) [OF c, of a b] same [of a] by simp
  qed (use assms(3) countedD(3,4,6) [OF c] in auto)
qed

lemma pooled_live_cong:
  assumes "h_live (w_objs w') = h_live (w_objs w)" and "w_opools w' = w_opools w" and "same_slots (w_slots w) (w_slots w')"
    and "\<And>b. h_live (w_objs w) b \<Longrightarrow> o_poolid (ocell w' b) = o_poolid (ocell w b) \<and> o_slotid (ocell w' b) = o_slotid (ocell w b) \<and>
      o_handle (ocell w' b) = o_handle (ocell w b)"
  shows "pooled T w' = pooled T w"
proof -
  have "filed T w' p i b = filed T w p i b" for p i b
    using assms(4) [of b] by (auto simp: filed_def assms(1) same_slots_pools [OF assms(3)])
  then show ?thesis using assms(4) by (auto simp: pooled_def assms(1,2) same_slots_pools [OF assms(3)])
qed

lemma counted_ref:
  assumes c: "counted T D H w" and a: "h_live (w_objs w) a" "a \<notin> T"
  shows "counted T D (H(a := Suc (H a))) (w\<lparr>w_objs := hupd a (\<lambda>ob. ob\<lparr>o_refcnt := o_refcnt ob + 1\<rparr>) (w_objs w)\<rparr>)"
proof -
  let ?w = "w\<lparr>w_objs := hupd a (\<lambda>ob. ob\<lparr>o_refcnt := o_refcnt ob + 1\<rparr>) (w_objs w)\<rparr>"
  have same: "assoc_refs D ?w = assoc_refs D w" by (rule assoc_refs_cong) simp
  show ?thesis
  proof (rule countedI, unfold same)
    fix b
    show "h_live (w_objs ?w) b \<Longrightarrow> b \<notin> T \<Longrightarrow> o_refcnt (ocell ?w b) = int ((H(a := Suc (H a))) b + assoc_refs D w b) \<and>
        1 \<le> (H(a := Suc (H a))) b + assoc_refs D w b"
      using countedD(2) [OF c, of b] by auto
    show "b \<in> T \<Longrightarrow> h_live (w_objs ?w) b \<and> (H(a := Suc (H a))) b = 0 \<and> assoc_refs D w b = 0"
      using countedD(3) [OF c, of b] a(2) by auto
    show "0 < (H(a := Suc (H a))) b \<Longrightarrow> h_live (w_objs ?w) b" using countedD(4) [OF c, of b] a(1) by (auto split: if_splits)
    show "b \<in> D \<Longrightarrow> b \<in> T \<or> 0 < (H(a := Suc (H a))) b" using countedD(6) [OF c, of b] by auto
    show "h_live (w_objs ?w) x \<Longrightarrow> x \<notin> D \<Longrightarrow> o_assoc_obj (ocell ?w x) = Some b \<Longrightarrow> h_live (w_objs ?w) b" for x
      using countedD(5) [OF c, of x b] by (simp split: if_splits)
  qed (use countedD(1) [OF c] in simp)
qed

lemma wp_obj_ref:
  assumes "objs_ok H w" and "h_live (w_objs w) a"
  shows "wp (p11prov_obj_ref_no_cache (Some a)) (\<lambda>x w'. x = Some a \<and> objs_ok (H(a := Suc (H a))) w' \<and>
    w' = w\<lparr>w_objs := hupd a (\<lambda>ob. ob\<lparr>o_refcnt := o_refcnt ob + 1\<rparr>) (w_objs w)\<rparr>) w"
proof -
  have c: "counted {} {} H w" and p: "pooled {} w" using assms(1) by (simp_all add: objs_ok_def)
  have "0 < o_refcnt (ocell w a)" using countedD(2) [OF c assms(2)] by simp
  moreover have "pooled {} (w\<lparr>w_objs := hupd a (\<lambda>ob. ob\<lparr>o_refcnt := o_refcnt ob + 1\<rparr>) (w_objs w)\<rparr>)"
    using p by (subst pooled_live_cong [of _ w]) (auto simp: same_slots_def)
  ultimately show ?thesis using counted_ref [OF c assms(2)] unfolding p11prov_obj_ref_no_cache_def option.case
    by (simp add: wp_bind wp_gets wp_modify wp_return objs_ok_def)
qed

lemma counted_detach:
  assumes c: "counted {} {} H w" and a: "h_live (w_objs w) a" "0 < H a" and x: "o_assoc_obj (ocell w a) = Some b"
  shows "counted {} {a} (H(b := Suc (H b))) w"
proof -
  have "{y. h_live (w_objs w) y \<and> y \<notin> {a} \<and> o_assoc_obj (ocell w y) = Some c} =
      {y. h_live (w_objs w) y \<and> y \<notin> {} \<and> o_assoc_obj (ocell w y) = Some c} - {a}" for c by auto
  then have refs: "assoc_refs {a} w c = assoc_refs {} w c - (if c = b then 1 else 0)" for c
    using a(1) x counted_finite [OF c] by (simp add: assoc_refs_def card_Diff_singleton_if)
  have pos: "0 < assoc_refs {} w b" by (rule assoc_refs_pos [OF c a(1) _ x]) simp
  show ?thesis
  proof (rule countedI, unfold refs)
    show "h_live (w_objs w) c \<Longrightarrow> c \<notin> {} \<Longrightarrow> o_refcnt (ocell w c) = int ((H(b := Suc (H b))) c + (assoc_refs {} w c - (if c = b then 1 else 0))) \<and>
        1 \<le> (H(b := Suc (H b))) c + (assoc_refs {} w c - (if c = b then 1 else 0))" for c
      using countedD(2) [OF c, of c] pos by auto
    show "0 < (H(b := Suc (H b))) c \<Longrightarrow> h_live (w_objs w) c" for c
      using countedD(4) [OF c, of c] countedD(5) [OF c a(1) _ x] by (auto split: if_splits)
    show "h_live (w_objs w) y \<Longrightarrow> y \<notin> {a} \<Longrightarrow> o_assoc_obj (ocell w y) = Some c \<Longrightarrow> h_live (w_objs w) c" for y c
      using countedD(5) [OF c, of y c] by simp
  qed (use countedD(1) [OF c] a(2) in auto)
qed

lemma counted_unset:
  assumes c: "counted {} D H w" and "D \<subseteq> {a}" and "a \<in> D \<or> o_assoc_obj (ocell w a) = None"
  shows "counted {} {} H (w\<lparr>w_objs := hupd a (\<lambda>ob. ob\<lparr>o_assoc_obj := None\<rparr>) (w_objs w)\<rparr>)"
proof -
  let ?w = "w\<lparr>w_objs := hupd a (\<lambda>ob. ob\<lparr>o_assoc_obj := None\<rparr>) (w_objs w)\<rparr>"
  have refs: "assoc_refs {} ?w = assoc_refs D w"
    unfolding assoc_refs_def using assms(2,3) by (intro ext arg_cong [of _ _ card] Collect_cong) auto
  show ?thesis
  proof (rule countedI, unfold refs)
    show "h_live (w_objs ?w) b \<Longrightarrow> b \<notin> {} \<Longrightarrow> o_refcnt (ocell ?w b) = int (H b + assoc_refs D w b) \<and> 1 \<le> H b + assoc_refs D w b" for b
      using countedD(2) [OF c, of b] by auto
    show "h_live (w_objs ?w) x \<Longrightarrow> x \<notin> {} \<Longrightarrow> o_assoc_obj (ocell ?w x) = Some b \<Longrightarrow> h_live (w_objs ?w) b" for x b
      using countedD(5) [OF c, of x b] assms(2) by (auto split: if_splits)
  qed (use countedD(1,4) [OF c] in auto)
qed

lemma counted_set:
  assumes c: "counted {} {} (H(b := Suc (H b))) w" and a: "h_live (w_objs w) a" "o_assoc_obj (ocell w a) = None"
  shows "counted {} {} H (w\<lparr>w_objs := hupd a (\<lambda>ob. ob\<lparr>o_assoc_obj := Some b\<rparr>) (w_objs w)\<rparr>)"
proof -
  let ?w = "w\<lparr>w_objs := hupd a (\<lambda>ob. ob\<lparr>o_assoc_obj := Some b\<rparr>) (w_objs w)\<rparr>"
  have "{y. h_live (w_objs ?w) y \<and> y \<notin> {} \<and> o_assoc_obj (ocell ?w y) = Some d} =
      (if d = b then insert a else id) {y. h_live (w_objs w) y \<and> y \<notin> {} \<and> o_assoc_obj (ocell w y) = Some d}" for d
    using a by auto
  then have refs: "assoc_refs {} ?w d = assoc_refs {} w d + (if d = b then 1 else 0)" for d
    using a counted_finite [OF c] by (simp add: assoc_refs_def card_insert_if)
  have b: "h_live (w_objs w) b" using countedD(4) [OF c, of b] by simp
  show ?thesis
  proof (rule countedI, unfold refs)
    show "h_live (w_objs ?w) d \<Longrightarrow> d \<notin> {} \<Longrightarrow> o_refcnt (ocell ?w d) = int (H d + (assoc_refs {} w d + (if d = b then 1 else 0))) \<and>
        1 \<le> H d + (assoc_refs {} w d + (if d = b then 1 else 0))" for d
      using countedD(2) [OF c, of d] by (auto split: if_splits)
    show "0 < H d \<Longrightarrow> h_live (w_objs ?w) d" for d using countedD(4) [OF c, of d] by (auto split: if_splits)
    show "h_live (w_objs ?w) x \<Longrightarrow> x \<notin> {} \<Longrightarrow> o_assoc_obj (ocell ?w x) = Some d \<Longrightarrow> h_live (w_objs ?w) d" for x d
      using countedD(5) [OF c, of x d] b by (auto split: if_splits)
  qed (use countedD(1) [OF c] in auto)
qed

lemma pooled_upd:
  assumes "\<And>ob. o_poolid (f ob) = o_poolid ob \<and> o_slotid (f ob) = o_slotid ob \<and> o_handle (f ob) = o_handle ob"
  shows "pooled T (w\<lparr>w_objs := hupd a f (w_objs w)\<rparr>) = pooled T w"
  by (rule pooled_live_cong) (simp_all add: assms same_slots_def)

lemma wp_set_associated:
  assumes ok: "objs_ok H w" and a: "0 < H a" and b: "\<And>b. assoc = Some b \<Longrightarrow> 0 < H b" and locks: "\<And>l e. fst (E_lock E l e)"
  shows "wp (p11prov_obj_set_associated E (Some a) assoc) (\<lambda>_ w'. objs_ok H w') w"
proof -
  have c: "counted {} {} H w" and p: "pooled {} w" using ok by (simp_all add: objs_ok_def)
  have clear: "objs_ok H (v\<lparr>w_objs := hupd a (\<lambda>ob. ob\<lparr>o_assoc_obj := None\<rparr>) (w_objs v)\<rparr>)"
    if "counted {} D H v" "D \<subseteq> {a}" "a \<in> D \<or> o_assoc_obj (ocell v a) = None" "pooled {} v" for D v
    using counted_unset [OF that(1-3)] that(4) by (simp add: objs_ok_def pooled_upd)
  have 1: "wp (p11prov_obj_free E (o_assoc_obj (ocell w a)))
      (\<lambda>_ v. objs_ok H (v\<lparr>w_objs := hupd a (\<lambda>ob. ob\<lparr>o_assoc_obj := None\<rparr>) (w_objs v)\<rparr>)) w"
  proof (cases "o_assoc_obj (ocell w a)")
    case None
    then show ?thesis using clear [of "{}" w] c p by (simp add: p11prov_obj_free_def wp_simps)
  next
    case (Some x)
    have "card {b. h_live (w_objs w) b \<and> b \<notin> {}} \<le> card {..<h_brk (w_objs w)}"
      using countedD(1) [OF c] by (intro card_mono) (auto simp: heap_ok_def)
    then have n: "card {b. h_live (w_objs w) b \<and> b \<notin> {}} < Suc (h_brk (w_objs w))" by simp
    have undone: "(H(x := Suc (H x)))(x := (H(x := Suc (H x))) x - 1) = H" by simp
    note free = wp_obj_free_n [OF locks counted_detach [OF c countedD(4) [OF c a] a Some] p _ _ n, of x, unfolded undone]
    show ?thesis unfolding p11prov_obj_free_def wp_bind [of "gets _"] wp_gets Some
      by (rule wp_mono [OF free]) (use a clear [of "{a}"] in auto)
  qed
  have 2: "wp (if assoc = None then ret () else do {
        y \<leftarrow> p11prov_obj_ref_no_cache assoc; upd_o a (\<lambda>ob. ob\<lparr>o_assoc_obj := y\<rparr>) }) (\<lambda>_ w'. objs_ok H w') v"
    if v: "objs_ok H v" "o_assoc_obj (ocell v a) = None" for v
  proof (cases assoc)
    case (Some x)
    have live: "h_live (w_objs v) x" "h_live (w_objs v) a" using v(1) a b [OF Some] countedD(4) by (auto simp: objs_ok_def)
    have "wp (p11prov_obj_ref_no_cache (Some x)) (\<lambda>y u. y = Some x \<and> counted {} {} (H(x := Suc (H x))) u \<and> pooled {} u \<and>
        h_live (w_objs u) a \<and> o_assoc_obj (ocell u a) = None) v"
      by (rule wp_mono [OF wp_obj_ref [OF v(1) live(1)]]) (use live(2) v(2) in \<open>auto simp: objs_ok_def\<close>)
    then show ?thesis unfolding Some
      by (auto intro!: wp_seq [where m = "p11prov_obj_ref_no_cache (Some x)"] simp: wp_modify objs_ok_def pooled_upd dest: counted_set)
  qed (use v in \<open>simp add: wp_return\<close>)
  show ?thesis unfolding p11prov_obj_set_associated_def option.case wp_bind [of "get_o a"] wp_gets
    by (rule wp_seq [OF 1], unfold wp_bind [of "upd_o a _"] wp_modify, rule 2) simp_all
qed

text \<open>Adding to the pool, whatever locks and memory do: an error changes nothing.\<close>

lemma wp_get_obj_pool_any:
  assumes "\<And>r e l. r \<noteq> CKR_OK \<Longrightarrow> Q (r, None) (w\<lparr>w_env := e, w_held := l\<rparr>)"
    and "\<And>p e l. pool_of w sid = Some p \<Longrightarrow> Q (CKR_OK, Some p) (w\<lparr>w_env := e, w_held := l\<rparr>)"
  shows "wp (p11prov_slot_get_obj_pool E sid) Q w"
proof -
  have eta: "P (w\<lparr>w_env := w_env w, w_held := w_held w\<rparr>) \<Longrightarrow> P w" "P (w\<lparr>w_env := e, w_held := w_held w\<rparr>) \<Longrightarrow> P (w\<lparr>w_env := e\<rparr>)"
    "P (w\<lparr>w_env := w_env w, w_held := l\<rparr>) \<Longrightarrow> P (w\<lparr>w_held := l\<rparr>)" "P (w\<lparr>w_env := e, w_held := l\<rparr>) \<Longrightarrow> P (w\<lparr>w_held := l, w_env := e\<rparr>)"
    for P :: "'a world \<Rightarrow> bool" and e l
    by (cases w; simp)+
  note none = assms(1) [THEN eta(1) [of "Q (_, None)"]] assms(1) [THEN eta(2) [of "Q (_, None)"]]
    assms(1) [THEN eta(3) [of "Q (_, None)"]] assms(1) [THEN eta(4) [of "Q (_, None)"]]
  show ?thesis
  proof (cases "pool_of w sid")
    case None
    then have "case find (\<lambda>s. sl_id s = sid) (slots_list w) of None \<Rightarrow> True | Some s \<Rightarrow> sl_objects s = None"
      by (auto simp: pool_of_def bind_eq_None_conv split: option.splits)
    then show ?thesis using assms(1) none
      by (auto simp: p11prov_slot_get_obj_pool_def wp_simps split: prod.split option.splits)
  next
    case (Some p)
    then obtain s where s: "find (\<lambda>s. sl_id s = sid) (slots_list w) = Some s" "sl_objects s = Some p"
      by (auto simp: pool_of_def bind_eq_Some_conv)
    note some = assms(2) [OF Some, THEN eta(1) [of "Q (_, Some _)"]] assms(2) [OF Some, THEN eta(2) [of "Q (_, Some _)"]]
      assms(2) [OF Some, THEN eta(3) [of "Q (_, Some _)"]] assms(2) [OF Some, THEN eta(4) [of "Q (_, Some _)"]]
    show ?thesis using s assms(1) assms(2) [OF Some] none some
      by (auto simp: p11prov_slot_get_obj_pool_def wp_simps split: prod.split option.splits)
  qed
qed

definition unchanged :: "'e world \<Rightarrow> 'e world \<Rightarrow> bool" where
  "unchanged w w' \<longleftrightarrow> w_objs w' = w_objs w \<and> w_opools w' = w_opools w \<and> w_sess w' = w_sess w \<and> w_pools w' = w_pools w \<and>
     w_slots w' = w_slots w \<and> w_ctx w' = w_ctx w"

lemma wp_obj_add_any:
  assumes inv: "pooled T w"
  shows "wp (obj_add_to_pool E a) (\<lambda>r w'. (r = CKR_OK \<longrightarrow> (\<exists>p. pool_of w (o_slotid (ocell w a)) = Some p \<and> added p a w w')) \<and>
     (r \<noteq> CKR_OK \<longrightarrow> unchanged w w')) w"
proof (cases "pool_of w (o_slotid (ocell w a))")
  case None
  then show ?thesis unfolding obj_add_to_pool_def
    by (auto simp: wp_simps unchanged_def intro!: wp_get_obj_pool_any)
next
  case (Some p)
  have inv': "opool_inv (opcell w p)" by (rule pooledD(2) [OF inv pool_of_slot [OF Some]])
  define pool where "pool = (if has_room (opcell w p) then opcell w p else pool_grow (opcell w p))"
  have put: "\<exists>i. free_index pool i \<and> pool_put pool a = Some (pool\<lparr>op_objects := (op_objects pool)[i := Some a],
      op_num := op_num pool + 1, op_first_free := int i + 1\<rparr>, i)"
    and props: "opool_inv pool" "has_room pool" "pool_look pool = pool_look (opcell w p)" "pool_fix_hint pool = pool"
    if "has_room (opcell w p) \<or> length (op_objects (opcell w p)) < POOL_MAX_SIZE"
  proof -
    show inv: "opool_inv pool" "has_room pool" "pool_look pool = pool_look (opcell w p)"
      using that inv' opool_inv_grow [OF inv'] by (auto simp: pool_def)
    obtain i where "free_index pool i" using free_index_exists [OF inv(1,2)] by blast
    then show "\<exists>i. free_index pool i \<and> pool_put pool a = Some (pool\<lparr>op_objects := (op_objects pool)[i := Some a],
      op_num := op_num pool + 1, op_first_free := int i + 1\<rparr>, i)" using pool_put_least [OF inv(1)] by blast
    show "pool_fix_hint pool = pool" by (rule pool_fix_hint_id [OF inv(1,2)])
  qed
  have room: ?thesis if r: "has_room (opcell w p)"
  proof -
    have "pool = opcell w p" using r by (simp add: pool_def)
    then obtain i where "free_index (opcell w p) i" and "pool_put (opcell w p) a = Some ((opcell w p)\<lparr>op_objects := (op_objects (opcell w p))[i := Some a],
      op_num := op_num (opcell w p) + 1, op_first_free := int i + 1\<rparr>, i)" using put r by auto
    then show ?thesis using r props(4) \<open>pool = opcell w p\<close> unfolding obj_add_to_pool_def
      by (auto simp: wp_simps no_room_iff unchanged_def Some split: prod.split
        intro!: wp_get_obj_pool_any added_intro [OF inv', of i])
  qed
  have grow: ?thesis if r: "\<not> has_room (opcell w p)"
  proof (cases "length (op_objects (opcell w p)) < POOL_MAX_SIZE")
    case True
    have "pool = pool_grow (opcell w p)" using r by (simp add: pool_def)
    then obtain i where "free_index (pool_grow (opcell w p)) i" and "pool_put (pool_grow (opcell w p)) a =
      Some ((pool_grow (opcell w p))\<lparr>op_objects := (op_objects (pool_grow (opcell w p)))[i := Some a],
      op_num := op_num (pool_grow (opcell w p)) + 1, op_first_free := int i + 1\<rparr>, i)" using put True by auto
    then show ?thesis using r True props \<open>pool = pool_grow (opcell w p)\<close> unfolding obj_add_to_pool_def
      by (auto simp: wp_simps no_room_iff not_le unchanged_def Some split: prod.split
        intro!: wp_get_obj_pool_any added_intro [where pool = "pool_grow (opcell w p)" and i = i])
  next
    case False
    then show ?thesis using r unfolding obj_add_to_pool_def
      by (auto simp: wp_simps no_room_iff not_le unchanged_def Some split: prod.split intro!: wp_get_obj_pool_any)
  qed
  show ?thesis using room grow by blast
qed

lemma pooled_added:
  assumes inv: "pooled T w" and a: "h_live (w_objs w) a" "a \<notin> T" "o_handle (ocell w a) \<noteq> CK_P11PROV_IMPORTED_HANDLE"
    and p: "pool_of w (o_slotid (ocell w a)) = Some p" and absent: "\<And>q i. q \<in> slot_pools w \<Longrightarrow> pool_look (opcell w q) i \<noteq> Some a"
    and add: "added p a w w'"
  shows "pooled T w'"
proof -
  obtain i where i: "pool_look (opcell w' p) = (pool_look (opcell w p))(i := Some a)"
    and objs: "w_objs w' = hupd a (\<lambda>ob. ob\<lparr>o_poolid := int i\<rparr>) (w_objs w)"
    and rest: "opool_inv (opcell w' p)" "\<And>q. q \<noteq> p \<Longrightarrow> opcell w' q = opcell w q" "w_slots w' = w_slots w"
    using add unfolding added_def by blast
  have same: "slot_pools w' = slot_pools w" "pool_of w' = pool_of w" by (rule same_slots_pools; simp add: rest(3) same_slots_def)+
  show ?thesis
  proof (rule pooledI, unfold same)
    show "- 1 \<le> o_poolid (ocell w' b)" if "h_live (w_objs w') b" for b
      using pooledD(1) [OF inv, of b] that by (simp add: objs)
    show "opool_inv (opcell w' q)" if "q \<in> slot_pools w" for q
      using pooledD(2) [OF inv that] rest(1,2) by (cases "q = p") auto
    show "filed T w' q j b" if q: "q \<in> slot_pools w" and look: "pool_look (opcell w' q) j = Some b" for q j b
    proof (cases "q = p \<and> j = i")
      case True
      then show ?thesis using look i a p by (simp add: filed_def same objs)
    next
      case False
      then have "pool_look (opcell w q) j = Some b" using look i rest(2) [of q] by (cases "q = p") auto
      moreover have "b \<noteq> a" using calculation absent [OF q] by blast
      ultimately show ?thesis using pooledD(3) [OF inv q] by (simp add: filed_def same objs)
    qed
  qed
qed

lemma objs_ok_alloc:
  assumes ok: "objs_ok H w" and new: "o_refcnt ob = 1" "o_assoc_obj ob = None" "- 1 \<le> o_poolid ob"
  shows "objs_ok (H(h_brk (w_objs w) := 1)) (w\<lparr>w_objs := halloc ob (w_objs w)\<rparr>)"
proof -
  let ?a = "h_brk (w_objs w)" and ?w = "w\<lparr>w_objs := halloc ob (w_objs w)\<rparr>"
  have c: "counted {} {} H w" and p: "pooled {} w" using ok by (simp_all add: objs_ok_def)
  have fresh: "\<not> h_live (w_objs w) ?a" using countedD(1) [OF c] by (auto simp: heap_ok_def)
  then have "H ?a = 0" using countedD(4) [OF c, of ?a] by blast
  have "{y. h_live (w_objs w) y \<and> y \<notin> {} \<and> o_assoc_obj (ocell w y) = Some ?a} = {}" using countedD(5) [OF c, of _ ?a] fresh by blast
  then have none: "assoc_refs {} w ?a = 0" by (simp only: assoc_refs_def card.empty)
  have refs: "assoc_refs {} ?w = assoc_refs {} w"
    unfolding assoc_refs_def using fresh new(2) by (intro ext arg_cong [of _ _ card] Collect_cong) auto
  have "counted {} {} (H(?a := 1)) ?w"
  proof (rule countedI, unfold refs)
    show "h_live (w_objs ?w) b \<Longrightarrow> b \<notin> {} \<Longrightarrow> o_refcnt (ocell ?w b) = int ((H(?a := 1)) b + assoc_refs {} w b) \<and>
        1 \<le> (H(?a := 1)) b + assoc_refs {} w b" for b
      using countedD(2) [OF c, of b] none new(1) by auto
    show "0 < (H(?a := 1)) b \<Longrightarrow> h_live (w_objs ?w) b" for b using countedD(4) [OF c, of b] by (auto split: if_splits)
    show "h_live (w_objs ?w) x \<Longrightarrow> x \<notin> {} \<Longrightarrow> o_assoc_obj (ocell ?w x) = Some b \<Longrightarrow> h_live (w_objs ?w) b" for x b
      using countedD(5) [OF c, of x b] new(2) by (auto split: if_splits)
  qed (use countedD(1) [OF c] in auto)
  moreover have "pooled {} ?w"
  proof (rule pooledI)
    show "- 1 \<le> o_poolid (ocell ?w b)" if "h_live (w_objs ?w) b" for b using pooledD(1) [OF p, of b] that new(3) by auto
    have same: "slot_pools ?w = slot_pools w" "pool_of ?w = pool_of w" by (rule same_slots_pools; simp add: same_slots_def)+
    show "opool_inv (opcell ?w q)" if "q \<in> slot_pools ?w" for q using pooledD(2) [OF p] that same by simp
    show "filed {} ?w q i b" if "q \<in> slot_pools ?w" "pool_look (opcell ?w q) i = Some b" for q i b
      using pooledD(3) [OF p, of q i b] that same fresh by (auto simp: filed_def)
  qed
  ultimately show ?thesis by (simp add: objs_ok_def)
qed

lemma objs_ok_dealloc:
  assumes ok: "objs_ok (H(a := 1)) w" and H: "H a = 0" and a: "o_assoc_obj (ocell w a) = None" "assoc_refs {} w a = 0"
    and absent: "\<And>q i. q \<in> slot_pools w \<Longrightarrow> pool_look (opcell w q) i \<noteq> Some a"
  shows "objs_ok H (w\<lparr>w_objs := hfree a (w_objs w)\<rparr>)"
proof -
  let ?w = "w\<lparr>w_objs := hfree a (w_objs w)\<rparr>"
  have c: "counted {} {} (H(a := 1)) w" and p: "pooled {} w" using ok by (simp_all add: objs_ok_def)
  have refs: "assoc_refs {} ?w = assoc_refs {} w"
    unfolding assoc_refs_def using a(1) by (intro ext arg_cong [of _ _ card] Collect_cong) auto
  have other: "b \<noteq> a" if "h_live (w_objs w) x" "o_assoc_obj (ocell w x) = Some b" for x b
    using assoc_refs_pos [OF c that(1) _ that(2)] a(2) by auto
  have "counted {} {} H ?w"
  proof (rule countedI, unfold refs)
    show "h_live (w_objs ?w) b \<Longrightarrow> b \<notin> {} \<Longrightarrow> o_refcnt (ocell ?w b) = int (H b + assoc_refs {} w b) \<and> 1 \<le> H b + assoc_refs {} w b" for b
      using countedD(2) [OF c, of b] by simp
    show "0 < H b \<Longrightarrow> h_live (w_objs ?w) b" for b using countedD(4) [OF c, of b] H by (auto split: if_splits)
    show "h_live (w_objs ?w) x \<Longrightarrow> x \<notin> {} \<Longrightarrow> o_assoc_obj (ocell ?w x) = Some b \<Longrightarrow> h_live (w_objs ?w) b" for x b
      using countedD(5) [OF c, of x b] other [of x b] by auto
  qed (use countedD(1) [OF c] in auto)
  moreover have "pooled {} ?w"
    using p absent unfolding pooled_def filed_def by (auto simp: slot_pools_def pool_of_def slots_list_def)
  ultimately show ?thesis by (simp add: objs_ok_def)
qed

lemma objs_ok_same: "same_objs w w' \<Longrightarrow> objs_ok H w' = objs_ok H w"
  by (simp add: objs_ok_def counted_same pooled_same)

lemma wp_add_ok:
  assumes ok: "objs_ok H w" and a: "h_live (w_objs w) a" "o_handle (ocell w a) \<noteq> CK_P11PROV_IMPORTED_HANDLE"
    and absent: "\<And>q i. q \<in> slot_pools w \<Longrightarrow> pool_look (opcell w q) i \<noteq> Some a"
  shows "wp (obj_add_to_pool E a) (\<lambda>r w'. objs_ok H w' \<and> (r \<noteq> CKR_OK \<longrightarrow> unchanged w w') \<and>
    (r = CKR_OK \<longrightarrow> (\<exists>i. w_objs w' = hupd a (\<lambda>ob. ob\<lparr>o_poolid := int i\<rparr>) (w_objs w)))) w"
proof -
  have c: "counted {} {} H w" and p: "pooled {} w" using ok by (simp_all add: objs_ok_def)
  show ?thesis
  proof (rule wp_mono [OF wp_obj_add_any [OF p]])
    fix r and w' :: "'a world"
    assume r: "(r = CKR_OK \<longrightarrow> (\<exists>q. pool_of w (o_slotid (ocell w a)) = Some q \<and> added q a w w')) \<and> (r \<noteq> CKR_OK \<longrightarrow> unchanged w w')"
    have "objs_ok H w'" if "unchanged w w'"
      using ok objs_ok_same [of w w'] that by (simp add: same_objs_def unchanged_def same_slots_def)
    moreover have "objs_ok H w' \<and> (\<exists>i. w_objs w' = hupd a (\<lambda>ob. ob\<lparr>o_poolid := int i\<rparr>) (w_objs w))"
      if q: "pool_of w (o_slotid (ocell w a)) = Some q" and add: "added q a w w'" for q
    proof -
      obtain i where i: "w_objs w' = hupd a (\<lambda>ob. ob\<lparr>o_poolid := int i\<rparr>) (w_objs w)" using add by (auto simp: added_def)
      have "counted {} {} H w'" by (rule counted_live_cong [OF c]) (use i countedD(1) [OF c] in auto)
      then show ?thesis using pooled_added [OF p a(1) _ a(2) q absent add] i by (auto simp: objs_ok_def)
    qed
    ultimately show "objs_ok H w' \<and> (r \<noteq> CKR_OK \<longrightarrow> unchanged w w') \<and>
      (r = CKR_OK \<longrightarrow> (\<exists>i. w_objs w' = hupd a (\<lambda>ob. ob\<lparr>o_poolid := int i\<rparr>) (w_objs w)))" using r by blast
  qed
qed

lemma fresh_obj:
  assumes "objs_ok H w"
  shows "\<not> h_live (w_objs w) (h_brk (w_objs w))" and "H (h_brk (w_objs w)) = 0" and "assoc_refs {} w (h_brk (w_objs w)) = 0"
    and "q \<in> slot_pools w \<Longrightarrow> pool_look (opcell w q) i \<noteq> Some (h_brk (w_objs w))"
proof -
  let ?a = "h_brk (w_objs w)"
  have c: "counted {} {} H w" and p: "pooled {} w" using assms by (simp_all add: objs_ok_def)
  show fresh: "\<not> h_live (w_objs w) ?a" using countedD(1) [OF c] by (auto simp: heap_ok_def)
  then show "H ?a = 0" using countedD(4) [OF c, of ?a] by blast
  have "{y. h_live (w_objs w) y \<and> y \<notin> {} \<and> o_assoc_obj (ocell w y) = Some ?a} = {}" using countedD(5) [OF c, of _ ?a] fresh by blast
  then show "assoc_refs {} w ?a = 0" by (simp only: assoc_refs_def card.empty)
  show "pool_look (opcell w q) i \<noteq> Some ?a" if "q \<in> slot_pools w"
    using pooledD(3) [OF p that, of i ?a] fresh by (auto simp: filed_def)
qed

text \<open>A new object is counted for its creator; when it cannot be put into the pool it is released again.\<close>

definition born :: "(addr \<Rightarrow> nat) \<Rightarrow> p11prov_obj \<Rightarrow> 'e world \<Rightarrow> addr \<Rightarrow> 'e world \<Rightarrow> bool" where
  "born H ob w a w' \<longleftrightarrow> a = h_brk (w_objs w) \<and> objs_ok (H(a := 1)) w' \<and> (\<exists>i. ocell w' a = ob\<lparr>o_poolid := i\<rparr>) \<and>
     (\<forall>b. b \<noteq> a \<longrightarrow> ocell w' b = ocell w b \<and> h_live (w_objs w') b = h_live (w_objs w) b)"

text \<open>A failing creation leaves every object as it was.\<close>

definition as_before :: "(addr \<Rightarrow> nat) \<Rightarrow> 'e world \<Rightarrow> 'e world \<Rightarrow> bool" where
  "as_before H w w' \<longleftrightarrow> objs_ok H w' \<and> h_live (w_objs w') = h_live (w_objs w) \<and>
     (\<forall>b. h_live (w_objs w) b \<longrightarrow> ocell w' b = ocell w b)"

lemma assoc_refs_alloc:
  assumes "\<not> h_live (w_objs w) (h_brk (w_objs w))" and "o_assoc_obj ob = None"
  shows "assoc_refs {} (w\<lparr>w_env := e, w_objs := halloc ob (w_objs w)\<rparr>) b = assoc_refs {} w b"
  unfolding assoc_refs_def using assms by (intro arg_cong [of _ _ card] Collect_cong) auto

text \<open>When the new object cannot be filed it is released again.\<close>

lemma wp_obj_new_add:
  fixes w :: "'e world" and E :: "'e p11env" and e :: 'e and slotid handle cls
  assumes ok: "objs_ok H w" and h: "handle \<noteq> CK_P11PROV_IMPORTED_HANDLE"
  defines "a \<equiv> h_brk (w_objs w)" and "ob \<equiv> new_obj slotid handle cls"
  defines "v \<equiv> w\<lparr>w_env := e, w_objs := halloc ob (w_objs w)\<rparr>"
  assumes v: "objs_ok (H(a := 1)) v"
  shows "wp (obj_add_to_pool E a) (\<lambda>r w'. if r \<noteq> CKR_OK then as_before H w (w'\<lparr>w_objs := hfree a (w_objs w')\<rparr>)
    else born H ob w a w') v"
proof (rule wp_mono [OF wp_add_ok [OF v]])
  have new: "o_assoc_obj ob = None" "o_handle ob = handle" by (simp_all add: ob_def new_obj_def zero_obj_def)
  have refs: "assoc_refs {} v a = 0"
    unfolding v_def a_def by (simp add: assoc_refs_alloc fresh_obj(1,3) [OF ok] new)
  have pools: "slot_pools v = slot_pools w" by (simp add: v_def slot_pools_def slots_list_def)
  have cell: "ocell v a = ob" "h_live (w_objs v) a" by (simp_all add: v_def a_def)
  have others: "b \<noteq> a \<Longrightarrow> ocell v b = ocell w b \<and> h_live (w_objs v) b = h_live (w_objs w) b" for b by (simp add: v_def a_def)
  have absent: "pool_look (opcell v q) i \<noteq> Some a" if "q \<in> slot_pools v" for q i
    using fresh_obj(4) [OF ok, of q i] that unfolding pools by (simp add: v_def a_def)
  show "h_live (w_objs v) a" "o_handle (ocell v a) \<noteq> CK_P11PROV_IMPORTED_HANDLE" using cell new h by simp_all
  show "pool_look (opcell v q) i \<noteq> Some a" if "q \<in> slot_pools v" for q i by (rule absent [OF that])
  fix r and w' :: "'e world"
  assume w': "objs_ok (H(a := 1)) w' \<and> (r \<noteq> CKR_OK \<longrightarrow> unchanged v w') \<and>
    (r = CKR_OK \<longrightarrow> (\<exists>i. w_objs w' = hupd a (\<lambda>ob. ob\<lparr>o_poolid := int i\<rparr>) (w_objs v)))"
  show "if r \<noteq> CKR_OK then as_before H w (w'\<lparr>w_objs := hfree a (w_objs w')\<rparr>) else born H ob w a w'"
  proof (cases "r = CKR_OK")
    case True
    then obtain i where i: "w_objs w' = hupd a (\<lambda>ob. ob\<lparr>o_poolid := int i\<rparr>) (w_objs v)" using w' by blast
    have "ocell w' a = ob\<lparr>o_poolid := int i\<rparr>" using i cell by simp
    moreover have "b \<noteq> a \<Longrightarrow> ocell w' b = ocell w b \<and> h_live (w_objs w') b = h_live (w_objs w) b" for b using i others [of b] by simp
    ultimately show ?thesis using True w' unfolding born_def a_def by auto
  next
    case False
    then have u: "unchanged v w'" using w' by blast
    have H: "H a = 0" unfolding a_def by (rule fresh_obj(2) [OF ok])
    have o: "o_assoc_obj (ocell w' a) = None" using u cell new by (simp add: unchanged_def)
    have r: "assoc_refs {} w' a = 0" using u refs by (simp add: unchanged_def assoc_refs_def)
    have p: "pool_look (opcell w' q) i \<noteq> Some a" if "q \<in> slot_pools w'" for q i
      using absent [of q i] that u by (simp add: unchanged_def slot_pools_def slots_list_def)
    have "objs_ok H (w'\<lparr>w_objs := hfree a (w_objs w')\<rparr>)" using w' by (intro objs_ok_dealloc [where a = a] H o r p) blast
    moreover have "\<not> h_live (w_objs w) a" unfolding a_def by (rule fresh_obj(1) [OF ok])
    moreover have "h_live (w_objs w') b = h_live (w_objs w) b \<and> ocell w' b = ocell w b" if "b \<noteq> a" for b
      using u others [OF that] by (simp add: unchanged_def)
    ultimately show ?thesis using False by (auto simp: as_before_def fun_eq_iff; metis)
  qed
qed

lemma wp_obj_new:
  fixes w :: "'e world"
  assumes ok: "objs_ok H w"
  shows "wp (p11prov_obj_new E slotid handle cls)
    (\<lambda>x w'. case x of None \<Rightarrow> as_before H w w' | Some a \<Rightarrow> born H (new_obj slotid handle cls) w a w') w"
proof -
  let ?a = "h_brk (w_objs w)" and ?ob = "new_obj slotid handle cls"
  let ?Q = "\<lambda>x w' :: 'e world. case x of None \<Rightarrow> as_before H w w' | Some a \<Rightarrow> born H ?ob w a w'"
  let ?v = "\<lambda>e. w\<lparr>w_env := e, w_objs := halloc ?ob (w_objs w)\<rparr>"
  have env: "objs_ok H (w\<lparr>w_env := e\<rparr>)" for e
    using ok by (simp only: objs_ok_same [OF sob.rel_env])
  have new: "o_refcnt ?ob = 1" "o_assoc_obj ?ob = None" "o_poolid ?ob = - 1"
    by (simp_all add: new_obj_def zero_obj_def)
  have v: "objs_ok (H(?a := 1)) (?v e)" for e using objs_ok_alloc [OF env, of ?ob e] new by simp
  have "?ob = ?ob\<lparr>o_poolid := - 1\<rparr>" by (simp add: new_obj_def)
  then have imported: "born H ?ob w ?a (?v e)" for e using v [of e] by (auto simp: born_def)
  have filing: "wp (do { r \<leftarrow> obj_add_to_pool E ?a;
        if r \<noteq> CKR_OK then do { modify (\<lambda>w. w\<lparr>w_objs := hfree ?a (w_objs w)\<rparr>); ret None } else ret (Some ?a) }) ?Q (?v e)"
    if h: "handle \<noteq> CK_P11PROV_IMPORTED_HANDLE" for e
    by (rule wp_seq [OF wp_obj_new_add [OF ok h v]]) (simp add: wp_bind wp_modify wp_return split: if_splits)
  have rest: "wp (if handle = CK_P11PROV_IMPORTED_HANDLE then ret (Some ?a) else do { r \<leftarrow> obj_add_to_pool E ?a;
        if r \<noteq> CKR_OK then do { modify (\<lambda>w. w\<lparr>w_objs := hfree ?a (w_objs w)\<rparr>); ret None } else ret (Some ?a) }) ?Q (?v e)" for e
    by (rule wp_ifI [OF _ filing]) (unfold wp_return option.case, rule imported)
  have "wp (do { a \<leftarrow> gets (\<lambda>w. h_brk (w_objs w));
       modify (\<lambda>w. w\<lparr>w_objs := halloc ?ob (w_objs w)\<rparr>);
       if handle = CK_P11PROV_IMPORTED_HANDLE then ret (Some a) else do { r \<leftarrow> obj_add_to_pool E a;
         if r \<noteq> CKR_OK then do { modify (\<lambda>w. w\<lparr>w_objs := hfree a (w_objs w)\<rparr>); ret None } else ret (Some a) } }) ?Q (w\<lparr>w_env := e\<rparr>)" for e
    unfolding wp_bind [of "gets _"] wp_gets wp_bind [of "modify _"] wp_modify using rest [of e] by (simp cong: if_cong)
  moreover have "wp (ret None) ?Q (w\<lparr>w_env := e\<rparr>)" for e using env by (simp add: wp_return as_before_def)
  ultimately show ?thesis
    unfolding p11prov_obj_new_def wp_bind [of "ecall _"] wp_ecall by (simp split: prod.split)
qed

section \<open>All objects of the provider\<close>

text \<open>
  The operations on objects as one system: the world and the references \<open>H\<close> the clients hold. A client uses an object only while it
  holds a reference to it. Between two operations everything that \<open>same_objs\<close> allows may happen, such as the use of sessions.
\<close>

definition granted :: "addr option \<Rightarrow> (addr \<Rightarrow> nat) \<Rightarrow> addr \<Rightarrow> nat" where
  "granted x H = (case x of None \<Rightarrow> H | Some a \<Rightarrow> H(a := Suc (H a)))"

inductive obj_step :: "'e p11env \<Rightarrow> 'e world \<times> (addr \<Rightarrow> nat) \<Rightarrow> 'e world \<times> (addr \<Rightarrow> nat) \<Rightarrow> bool" for E where
  new: "run_state (p11prov_obj_new E slotid handle cls) w = (x, w') \<Longrightarrow> obj_step E (w, H) (w', granted x H)"
| ref: "0 < H a \<Longrightarrow> run_state (p11prov_obj_ref_no_cache (Some a)) w = (x, w') \<Longrightarrow> obj_step E (w, H) (w', granted x H)"
| from_typed: "0 < H a \<Longrightarrow> run_state (p11prov_obj_from_typed_reference (Some a) sz key_type) w = (x, w') \<Longrightarrow>
    obj_step E (w, H) (w', granted x H)"
| free: "0 < H a \<Longrightarrow> run_state (p11prov_obj_free E (Some a)) w = (u, w') \<Longrightarrow> obj_step E (w, H) (w', H(a := H a - 1))"
| set_associated: "0 < H a \<Longrightarrow> (\<And>b. assoc = Some b \<Longrightarrow> 0 < H b) \<Longrightarrow>
    run_state (p11prov_obj_set_associated E (Some a) assoc) w = (u, w') \<Longrightarrow> obj_step E (w, H) (w', H)"
| set_session: "0 < H a \<Longrightarrow> run_state (p11prov_obj_set_session_ref a session) w = (u, w') \<Longrightarrow> obj_step E (w, H) (w', H)"
| set_class: "0 < H a \<Longrightarrow> run_state (p11prov_obj_set_class a cls) w = (u, w') \<Longrightarrow> obj_step E (w, H) (w', H)"
| set_key_type: "0 < H a \<Longrightarrow> run_state (p11prov_obj_set_key_type a ty) w = (u, w') \<Longrightarrow> obj_step E (w, H) (w', H)"
| set_key_params: "0 < H a \<Longrightarrow> run_state (p11prov_obj_set_key_params a ps) w = (u, w') \<Longrightarrow> obj_step E (w, H) (w', H)"
| add_attr: "0 < H a \<Longrightarrow> run_state (p11prov_obj_add_attr E (Some a) attr) w = (r, w') \<Longrightarrow> obj_step E (w, H) (w', H)"
| destroy_cache: "0 < H a \<Longrightarrow> run_state (destroy_key_cache E a session) w = (u, w') \<Longrightarrow> obj_step E (w, H) (w', H)"
| others: "same_objs w w' \<Longrightarrow> obj_step E (w, H) (w', H)"

text \<open>Operations that only change other fields of an object keep the invariant.\<close>

definition keeps_objs :: "('e world, 'a) state \<Rightarrow> bool" where
  "keeps_objs m \<longleftrightarrow> (\<forall>H. keeps (keeps_count {} {} H) m) \<and> keeps (keeps_pools {}) m"

lemma objs_ok_kept: "keeps_objs m \<Longrightarrow> run_state m w = (x, w') \<Longrightarrow> objs_ok H w \<Longrightarrow> objs_ok H w'"
  using keepsD [of "keeps_count {} {} H" m w] keepsD [of "keeps_pools {}" m w]
  by (simp add: wp_def keeps_count_def keeps_pools_def objs_ok_def keeps_objs_def)

lemma keeps_objs_setters:
  "keeps_objs (p11prov_obj_set_session_ref a session)" "keeps_objs (p11prov_obj_set_class a cls)"
  "keeps_objs (p11prov_obj_set_key_type a ty)" "keeps_objs (p11prov_obj_set_key_params a ps)"
  unfolding keeps_objs_def p11prov_obj_set_session_ref_def p11prov_obj_set_class_def p11prov_obj_set_key_type_def
    p11prov_obj_set_key_params_def
  by (auto intro!: kc.blind_rules kp.blind_rules kc.keeps_sess_ref kp.keeps_sess_ref keeps_count_upd keeps_pools_upd)

lemma keeps_objs_destroy: "keeps_objs (destroy_key_cache E a x)"
  unfolding keeps_objs_def
  by (intro conjI allI keeps_pools_destroy, unfold destroy_key_cache_def,
      intro kc.blind_rules kc.keeps_take_login kc.keeps_handle_of kc.keeps_return keeps_count_upd) simp

lemma keeps_objs_add_attr: "keeps_objs (p11prov_obj_add_attr E x attr)"
  unfolding keeps_objs_def p11prov_obj_add_attr_def
  by (auto intro!: kc.blind_rules kp.blind_rules keeps_count_upd keeps_pools_upd split: option.splits)

lemma objs_ok_born: "objs_ok H w \<Longrightarrow> born H ob w a w' \<Longrightarrow> objs_ok (granted (Some a) H) w'"
  using fresh_obj(2) [of H w] by (auto simp: born_def granted_def)

lemma obj_step_ok:
  assumes "obj_step E s s'" and "objs_ok (snd s) (fst s)" and "\<And>l e. fst (E_lock E l e)"
  shows "objs_ok (snd s') (fst s')"
  using assms
proof (induction rule: obj_step.induct)
  case (new slotid handle cls w x w' H)
  then show ?case using wp_run [OF wp_obj_new [of H w E slotid handle cls] new(1)]
    by (auto simp: granted_def as_before_def dest: objs_ok_born split: option.splits)
next
  case (ref H a w x w')
  have a: "h_live (w_objs w) a" using ref by (auto simp: objs_ok_def dest: countedD(4))
  show ?case using wp_run [OF wp_obj_ref [OF _ a, of H] ref(2)] ref(3) by (auto simp only: granted_def option.case fst_conv snd_conv)
next
  case (from_typed H a sz key_type w x w')
  have a: "h_live (w_objs w) a" using from_typed by (auto simp: objs_ok_def dest: countedD(4))
  have "wp (p11prov_obj_from_typed_reference (Some a) sz key_type) (\<lambda>x w'. objs_ok (granted x H) w') w"
    unfolding p11prov_obj_from_typed_reference_def p11prov_obj_from_reference_def
    using from_typed(3) wp_mono [OF wp_obj_ref [OF _ a], of H "\<lambda>x w'. objs_ok (granted x H) w'"]
    by (simp add: wp_simps granted_def)
  then show ?case using wp_run from_typed(2) by fastforce
next
  case (free H a w u w')
  then show ?case using wp_run [OF wp_obj_free [of H] free(2)] by (auto simp only: fst_conv snd_conv)
next
  case (set_associated H a assoc w u w')
  then show ?case using wp_run [OF wp_set_associated set_associated(3)] by simp
next
  case (others w w' H)
  then show ?case by (simp add: objs_ok_same)
qed (auto intro: objs_ok_kept [OF keeps_objs_setters(1)] objs_ok_kept [OF keeps_objs_setters(2)] objs_ok_kept [OF keeps_objs_setters(3)]
    objs_ok_kept [OF keeps_objs_setters(4)] objs_ok_kept [OF keeps_objs_destroy] objs_ok_kept [OF keeps_objs_add_attr])

definition no_objects :: "'e world \<Rightarrow> bool" where
  "no_objects w \<longleftrightarrow> h_live (w_objs w) = (\<lambda>_. False) \<and>
     (\<forall>p \<in> slot_pools w. opool_inv (opcell w p) \<and> (\<forall>i. pool_look (opcell w p) i = None))"

lemma no_objects_ok: "no_objects w \<Longrightarrow> objs_ok (\<lambda>_. 0) w"
  by (simp add: no_objects_def objs_ok_def counted_def pooled_def heap_ok_def)

lemma obj_steps_ok:
  assumes "(obj_step E)\<^sup>*\<^sup>* (w0, H0) (w, H)" and "objs_ok H0 w0" and "\<And>l e. fst (E_lock E l e)"
  shows "objs_ok H w"
proof -
  have "objs_ok (snd s') (fst s')" if "(obj_step E)\<^sup>*\<^sup>* s s'" "objs_ok (snd s) (fst s)" for s s'
    using that by (induction rule: rtranclp_induct) (auto dest: obj_step_ok intro: assms(3))
  then show ?thesis using assms(1,2) by fastforce
qed

definition referrers :: "'e world \<Rightarrow> addr \<Rightarrow> addr set" where
  "referrers w b = {a. h_live (w_objs w) a \<and> o_assoc_obj (ocell w a) = Some b}"

lemma assoc_refs_referrers: "assoc_refs {} w b = card (referrers w b)"
  by (simp add: assoc_refs_def referrers_def)

lemma objs_ok_exact:
  assumes "objs_ok H w"
  shows "h_live (w_objs w) b \<longleftrightarrow> 0 < H b + card (referrers w b)"
    and "h_live (w_objs w) b \<Longrightarrow> o_refcnt (ocell w b) = int (H b + card (referrers w b))"
    and "p \<in> slot_pools w \<Longrightarrow> pool_look (opcell w p) i = Some b \<Longrightarrow> h_live (w_objs w) b \<and> o_poolid (ocell w b) = int i"
proof -
  have c: "counted {} {} H w" and p: "pooled {} w" using assms by (simp_all add: objs_ok_def)
  have "finite (referrers w b)" using counted_finite [OF c] by (simp add: referrers_def)
  moreover have "h_live (w_objs w) b" if "referrers w b \<noteq> {}" using that countedD(5) [OF c, of _ b] by (auto simp: referrers_def)
  ultimately show "h_live (w_objs w) b \<longleftrightarrow> 0 < H b + card (referrers w b)"
    using countedD(2,4) [OF c, of b] by (auto simp: assoc_refs_referrers card_gt_0_iff)
  show "h_live (w_objs w) b \<Longrightarrow> o_refcnt (ocell w b) = int (H b + card (referrers w b))"
    using countedD(2) [OF c, of b] by (simp add: assoc_refs_referrers)
  show "p \<in> slot_pools w \<Longrightarrow> pool_look (opcell w p) i = Some b \<Longrightarrow> h_live (w_objs w) b \<and> o_poolid (ocell w b) = int i"
    using pooledD(3) [OF p, of p i b] by (simp add: filed_def)
qed


text \<open>
  C38. A new object has the identifiers it was asked for and one reference. Every other object is as before, whether the call succeeds or
  not, and a call that fails (no memory, no lock, a full pool) leaves the objects it found and nothing else.
\<close>

theorem obj_new_spec:
  assumes "objs_ok H w" and "run_state (p11prov_obj_new E slotid handle cls) w = (x, w')"
  shows "case x of
      None \<Rightarrow> as_before H w w'
    | Some a \<Rightarrow> \<not> h_live (w_objs w) a \<and> objs_ok (H(a := 1)) w' \<and> o_slotid (ocell w' a) = slotid \<and> o_handle (ocell w' a) = handle \<and>
        o_class (ocell w' a) = cls \<and> o_refcnt (ocell w' a) = 1 \<and> (\<forall>b. b \<noteq> a \<longrightarrow> ocell w' b = ocell w b)"
  using wp_run [OF wp_obj_new [OF assms(1)] assms(2)] fresh_obj(1) [OF assms(1)]
  by (auto simp: born_def new_obj_def split: option.splits)

text \<open>The lock of the pool is essential: when it cannot be taken, the object is released and its entry stays in the pool.\<close>

lemma free_without_lock:
  assumes p: "pool_of w (o_slotid (ocell w a)) = Some p" and fail: "\<And>e. \<not> fst (E_lock E (LkObjPool p) e)"
    and "o_refcnt (ocell w a) = 1" "o_ref_session (ocell w a) = None" "o_cached (ocell w a) = CK_INVALID_HANDLE"
      "o_assoc_obj (ocell w a) = None" and "pool_look (opcell w p) i = Some a"
  shows "wp (p11prov_obj_free E (Some a)) (\<lambda>_ w'. \<not> h_live (w_objs w') a \<and> pool_look (opcell w' p) i = Some a) w"
proof -
  let ?v = "drop_ref a w"
  have v: "pool_of ?v (o_slotid (ocell ?v a)) = Some p" using p by (simp add: pool_of_def slots_list_def)
  have l: "E_lock E (LkObjPool p) e = (b, e') \<Longrightarrow> \<not> b" for e b e' using fail [of e] by simp
  have rm: "wp (obj_rm_from_pool E a) (\<lambda>_ v. w_objs v = w_objs ?v \<and> w_opools v = w_opools w) ?v"
    unfolding obj_rm_from_pool_def wp_bind [of "get_o a"] wp_gets
    by (rule wp_ifI, simp add: wp_return, rule wp_seq [OF wp_get_obj_pool_any [where Q = "\<lambda>(r, x) v. w_objs v = w_objs ?v \<and>
        w_opools v = w_opools w \<and> (x = None \<or> x = Some p)"]])
      (use v in \<open>auto simp: wp_simps dest!: l split: prod.split option.split\<close>)
  have tear: "wp (obj_teardown E a) (\<lambda>_ v. w_objs v = w_objs ?v \<and> w_opools v = w_opools w) ?v"
    unfolding obj_teardown_def wp_bind [of "get_o a"] wp_gets
    using assms(4,5) wp_mono [OF rm] by (simp add: destroy_key_cache_def wp_simps)
  show ?thesis unfolding p11prov_obj_free_def wp_bind [of "gets _"] wp_gets obj_free_n.simps option.case
    using assms(3) wp_mono [OF tear] assms(6,7) by (simp add: wp_simps)
qed

section \<open>Objects in the simulated environment\<close>

lemma sim_pool_objs: "w_objs sim_pool_world = hempty zero_obj"
  by (simp add: sim_pool_world_def p11prov_session_pool_init_def p11prov_mutex_init_def ecall_def sim_env_def sim_world_def sim_init_def Let_def)

lemma sim_no_objects: "no_objects sim_slots_world"
  by (simp add: no_objects_def slot_pools_def sim_slots_world_def sim_pool_world_simps sim_pool_objs slots_list_def sim_slot_def hempty_def
      zero_obj_pool_def opool_inv_def POOL_MAX_SIZE_def POOL_ALLOC_SIZE_def pool_look_def)

lemma sim_obj_new: "wp (p11prov_obj_new sim_env 7 5 CKO_PRIVATE_KEY) (\<lambda>x _. x = Some 0) sim_slots_world"
proof -
  let ?v = "sim_slots_world\<lparr>w_objs := halloc (new_obj 7 5 CKO_PRIVATE_KEY) (w_objs sim_slots_world)\<rparr>"
  have brk: "h_brk (w_objs sim_slots_world) = 0" by (simp add: sim_slots_world_def sim_pool_world_simps sim_pool_objs hempty_def)
  have "wp (obj_add_to_pool sim_env 0) (\<lambda>r w'. r = CKR_OK \<and> added 0 0 ?v w') ?v"
    by (rule wp_obj_add) (simp_all add: new_obj_def zero_obj_def sim_slots_world_def sim_pool_world_simps sim_pool_objs pool_of_def slots_list_def sim_slot_def
      hempty_def zero_obj_pool_def opool_inv_def POOL_MAX_SIZE_def POOL_ALLOC_SIZE_def sim_env_def)
  note add = wp_mono [OF this]
  have "E_malloc sim_env sizeof_obj (w_env sim_slots_world) = (True, w_env sim_slots_world)" by (simp add: sim_env_def)
  then show ?thesis
    unfolding p11prov_obj_new_def wp_bind [of "ecall _"] wp_ecall
    using add brk by (simp add: wp_simps CK_P11PROV_IMPORTED_HANDLE_def)
qed


theorem obj_new_spec_witness:
  "case run_state (p11prov_obj_new sim_env 7 5 CKO_PRIVATE_KEY) sim_slots_world of (x, w') \<Rightarrow>
     x = Some 0 \<and> objs_ok ((\<lambda>_. 0)(0 := 1)) w' \<and> o_handle (ocell w' 0) = 5 \<and> o_refcnt (ocell w' 0) = 1"
proof -
  obtain x w' where r: "run_state (p11prov_obj_new sim_env 7 5 CKO_PRIVATE_KEY) sim_slots_world = (x, w')" by (metis surj_pair)
  have "x = Some 0" by (rule wp_run [OF sim_obj_new r])
  then show ?thesis using obj_new_spec [OF no_objects_ok [OF sim_no_objects] r] r by simp
qed

end
