(* ===== verification/Spec2Isabelle.thy ===== *)
theory Spec2Isabelle
  imports P11_Ctime P11_Config P11_Digest P11_Object
begin

text \<open>
  A verification of \<^verbatim>\<open>pkcs11-provider\<close>, the OpenSSL provider that gives access to keys and algorithms of a PKCS#11 module
  (a token driver). The provider is written in C; the sources are under \<^verbatim>\<open>src/src/\<close>.

  \<^bold>\<open>The program.\<close> OpenSSL loads the provider through \<open>OSSL_provider_init\<close> (\<^verbatim>\<open>provider.c\<close>), which reads the configuration and
  makes a context. The first operation that needs the token calls \<open>p11prov_ctx_status\<close>, which opens the module
  (\<^verbatim>\<open>interface.c\<close>), finds its slots (\<^verbatim>\<open>slot.c\<close>) and registers the algorithms the slots offer (\<^verbatim>\<open>provider.c\<close>). Operations work on
  sessions, which are pooled per slot, opened, logged in and given back (\<^verbatim>\<open>session.c\<close>), and on objects, which are cached in a
  pool per slot (\<^verbatim>\<open>obj/pool.c\<close>). Keys are named by PKCS#11 URIs (\<^verbatim>\<open>util.c\<close>). After a fork the child resets sessions and objects
  and restarts the module.

  \<^bold>\<open>The model.\<close> Stateful functions are State monad programs over the record \<open>world\<close> of \<open>P11_World\<close>: one heap per type of block
  (sessions, session pools, objects, object pools) with the set of allocated addresses, the slots, the context, and the list of
  held locks. What is not under \<^verbatim>\<open>src/\<close> is the record \<open>p11env\<close> of arbitrary functions on an arbitrary environment state: the
  functions of the module, \<^verbatim>\<open>malloc\<close>, pthread locks, the clock, \<^verbatim>\<open>dlopen\<close>, the prompts of OpenSSL. A property says in its
  hypotheses what it needs of them (locks that work, memory, \<open>opens_valid\<close>, \<open>clock_ok\<close>, \<open>cooperative\<close>), and \<open>P11_Sim\<close> is a
  concrete environment that shows that they can hold. Pure code is plain functions; there \<open>mem n\<close> says whether an allocation
  succeeds and \<open>pf\<close> reads a PIN file. Machine integers are words of their width. The build settings that change tables
  (message signing, symmetric keys) are the arguments \<open>msg\<close> and \<open>skey\<close>.

  Properties of programs are weakest preconditions \<open>wp m Q w\<close>: running \<open>m\<close> from \<open>w\<close> ends in a result and a state that satisfy
  \<open>Q\<close> (programs are total, so this includes termination).

  \<^bold>\<open>The theories.\<close>
  \<^item> \<open>P11_Prelude\<close>: types, byte and string functions of C, the monad and the rules for \<open>wp\<close>.
  \<^item> \<open>P11_Ctime\<close> (\<^verbatim>\<open>util.h\<close>): the constant-time helpers equal the branches they replace; \<open>byteswap_buf\<close> reverses.
  \<^item> \<open>P11_Uri\<close> (\<^verbatim>\<open>util.c\<close>): parsing, printing, copying and matching of URIs; the printed URI of an object parses back and
    matches its token.
  \<^item> \<open>P11_World\<close>, \<open>P11_Sim\<close>: the state, the locks, the timed retry loop.
  \<^item> \<open>P11_Session\<close> (\<^verbatim>\<open>session.c\<close>): sessions and their pools. A session is handed out exclusively, a pool never exceeds its
    maximum, and a step relation over the clients of a pool has this as its invariant.
  \<^item> \<open>P11_Slot\<close>, \<open>P11_Slots\<close> (\<^verbatim>\<open>slot.c\<close>): lookup, mechanisms, initialisation, release and the fork handlers of the slots.
  \<^item> \<open>P11_ObjPool\<close> (\<^verbatim>\<open>obj/pool.c\<close>): the growing array of objects of a slot.
  \<^item> \<open>P11_Login\<close>, \<open>P11_Access\<close> (\<^verbatim>\<open>session.c\<close>): PINs, login, and the functions that hand out sessions. The relation \<open>safe\<close>
    (nobody else is affected) is kept by every function; \<open>api_step\<close> composes them.
  \<^item> \<open>P11_Random\<close> (\<^verbatim>\<open>random.c\<close>): random bytes.
  \<^item> \<open>P11_Algos\<close>, \<open>P11_Register\<close> (\<^verbatim>\<open>provider.c\<close>): the algorithm tables, with the large \<^verbatim>\<open>switch\<close> over mechanisms as data; what
    is registered does not depend on the order of slots and mechanisms, but for the generic RSA entries.
  \<^item> \<open>P11_Context\<close> (\<^verbatim>\<open>provider.c\<close>): the quirk table and the pool of contexts, which implement a map and a list.
  \<^item> \<open>P11_Module\<close> (\<^verbatim>\<open>interface.c\<close>, \<^verbatim>\<open>provider.c\<close>): opening and restarting the module, the status of a context, forks.
  \<^item> \<open>P11_Config\<close> (\<^verbatim>\<open>provider.c\<close>): the configuration, the entry point, the end of a context.
  \<^item> \<open>P11_Digest\<close> (\<^verbatim>\<open>digests.c\<close>): the digest table and digest contexts, each with a session of its own.
  \<^item> \<open>P11_Fetch\<close> (\<^verbatim>\<open>util.c\<close>): fetching the attributes of an object from the token.
  \<^item> \<open>P11_Frame\<close>: what the session functions leave alone.
  \<^item> \<open>P11_Object\<close> (\<^verbatim>\<open>obj/object.c\<close>): creation, reference counting and release of objects. \<open>obj_step\<close> composes the operations;
    its invariant \<open>objs_ok\<close> says that the counts are exact and the pools contain only allocated objects. The release follows the
    associated objects; as many rounds as objects were ever allocated are enough.

  \<^bold>\<open>Interfaces.\<close> The locale \<open>world_preorder\<close> (\<open>P11_Login\<close>) collects what every function keeps of a relation between states; it is
  interpreted for the relations the proofs use (\<open>safe\<close>, \<open>safe_on\<close>, \<open>env_only\<close> and equalities of parts of the state). The locale
  \<open>session_blind\<close> (\<open>P11_Frame\<close>) extends it for relations that do not look at sessions; it is interpreted for the two parts of the
  invariant of objects. The locale
  \<open>mech_switch\<close> (\<open>P11_Algos\<close>) states what the proofs about registration need of the \<^verbatim>\<open>switch\<close>; it is interpreted on the real table.

  \<^bold>\<open>Bounds.\<close> The retry loops stop after \<open>WAIT_FUEL\<close> = 200003 attempts: one second in steps of 5 microseconds. By
  \<open>retry_fuel_enough\<close> this bound is never what ends a loop when the clock advances. All other loops are structural or have a measure.

  \<^bold>\<open>Not modelled.\<close> Interleavings of threads inside one function: locks are taken and released in the model, but a function runs
  to its end. Encoders, decoders, the store loader, key management, signatures, ciphers, key derivation and exchange, and the
  creation of keys from parameters and their export: they convert between OpenSSL's \<^verbatim>\<open>OSSL_PARAM\<close>, \<^verbatim>\<open>BIGNUM\<close> and ASN.1 types, which are code outside the
  repository, and PKCS#11 templates. Error messages and debug output. \<open>p11prov_obj_refresh\<close> and the caching of keys, which need
  these conversions.
\<close>

section \<open>From loading to the first session\<close>

text \<open>What OpenSSL does first: it loads the provider, and an operation asks for the status of the context.\<close>

definition load_and_use ::
    "'e p11env \<Rightarrow> bool \<Rightarrow> bool \<Rightarrow> string option \<Rightarrow> ('e \<Rightarrow> bool \<times> 'e) \<Rightarrow> ('e \<Rightarrow> (int \<times> config) \<times> 'e) \<Rightarrow>
     (string \<Rightarrow> nat \<Rightarrow> pin_read) \<Rightarrow> nat \<Rightarrow> ctx_pool \<Rightarrow> ('e world, CK_RV option) state" where
  "load_and_use E msg skey deflt libctx params pf c pool = do {
     (res, x, pool) \<leftarrow> OSSL_provider_init E msg skey deflt libctx params pf c pool;
     case x of
       None \<Rightarrow> ret None
     | Some pv \<Rightarrow> do { (r, pv) \<leftarrow> p11prov_ctx_status E msg skey pv; ret (Some r) } }"



end
